(* ===== verification/Prelude.thy ===== *)
theory Prelude
  imports Main "HOL-Library.Word" "HOL-Library.AList"
begin

section \<open>Prelude: the JavaScript values the components share\<close>

text \<open>
  Types, error values and generic lemmas used by every component theory.
  A \<open>Uint8Array\<close> is a list of 8-bit words (a store truncates to 8 bits, as in JavaScript),
  an index out of range reads \<open>undefined\<close> (\<open>None\<close> of \<open>js_get\<close>), \<open>slice\<close> and
  \<open>subarray\<close> take negative offsets from the end, and objects and \<open>Map\<close>s that the code
  iterates are association lists in insertion order (\<open>AList.update\<close> overwrites in place and
  appends a new key, as a property store does).
\<close>

named_theorems js_defs \<open>definitions of the JavaScript primitives\<close>
named_theorems model_defs \<open>definitions unfolded when a closed instance is evaluated\<close>

subsection \<open>Bytes\<close>

type_synonym byte = "8 word"
type_synonym bytes = "byte list"

text \<open>\<open>xs[i]\<close>: \<open>undefined\<close> out of range.\<close>

definition js_get :: "'a list \<Rightarrow> nat \<Rightarrow> 'a option" where
  "js_get xs i = (if i < length xs then Some (xs ! i) else None)"

text \<open>The relative offset of \<open>slice\<close>/\<open>subarray\<close>: negative counts from the end, then clamped.\<close>

definition js_offset :: "nat \<Rightarrow> int \<Rightarrow> nat" where
  "js_offset n i = (if i < 0 then nat (max (int n + i) 0) else min (nat i) n)"

definition js_slice :: "'a list \<Rightarrow> int \<Rightarrow> int \<Rightarrow> 'a list" where
  "js_slice xs start stop =
     (let a = js_offset (length xs) start; b = js_offset (length xs) stop
      in take (b - a) (drop a xs))"

lemmas js_primitive_defs = js_get_def js_offset_def js_slice_def
declare js_primitive_defs [js_defs]

lemma js_get_append_left [simp]: "i < length xs \<Longrightarrow> js_get (xs @ ys) i = js_get xs i"
  by (simp add: js_get_def nth_append)

lemma js_get_Cons_0 [simp]: "js_get (x # xs) 0 = Some x"
  by (simp add: js_get_def)

lemma js_get_Cons_Suc [simp]: "js_get (x # xs) (Suc i) = js_get xs i"
  by (simp add: js_get_def)

lemma js_get_Cons_numeral [simp]: "js_get (x # xs) (numeral k) = js_get xs (pred_numeral k)"
  by (simp add: numeral_eq_Suc)

lemma js_get_Nil [simp]: "js_get [] i = None"
  by (simp add: js_get_def)

lemma js_slice_nonneg: "js_slice xs (int a) (int b) = take (b - a) (drop a xs)"
proof (cases "a \<le> length xs")
  case True
  then show ?thesis by (simp add: js_slice_def js_offset_def min_def)
next
  case False
  then show ?thesis by (simp add: js_slice_def js_offset_def)
qed

lemma js_slice_drop_last2:
  "2 \<le> length xs \<Longrightarrow> js_slice xs (int a) (-2) = take (length xs - 2 - a) (drop a xs)"
  by (simp add: js_slice_def js_offset_def nat_diff_distrib' min_def)

lemma js_slice_zero_drop_last2: "2 \<le> length xs \<Longrightarrow> js_slice xs 0 (-2) = take (length xs - 2) xs"
  using js_slice_drop_last2 [of xs 0] by simp

lemma js_slice_prefix: "js_slice xs 0 (int b) = take b xs"
  using js_slice_nonneg [of xs 0 b] by simp

lemma split_last_two:
  assumes "2 \<le> length xs"
  shows "\<exists>ys a b. xs = ys @ [a, b]"
proof -
  from assms obtain zs b where "xs = zs @ [b]" by (cases xs rule: rev_cases) auto
  moreover from this assms obtain ys a where "zs = ys @ [a]" by (cases zs rule: rev_cases) auto
  ultimately show ?thesis by auto
qed

lemma split_at_pair:
  "Suc i < length xs \<Longrightarrow> xs = take i xs @ [xs ! i, xs ! Suc i] @ drop (Suc (Suc i)) xs"
  by (simp add: Cons_nth_drop_Suc)

subsection \<open>Errors and results\<close>

text \<open>
  The error classes of \<open>bluetooth/errors.ts\<close> and the built-in classes the code throws, each
  with the constant part of its message (the code reads a message only in the checks on
  transport errors, whose messages are data of the environment here).
  \<open>DeviceBusyError\<close> is a subclass of \<open>ModbusError\<close>.
\<close>

datatype js_error =
    BadConnectionError string
  | CommandTimeoutError string
  | ModbusError string int
  | DeviceBusyError string int
  | ParseError string
  | RangeError string
  | PlainError string
  | AggregateError "js_error list" string

type_synonym 'a result = "js_error + 'a"

fun error_message :: "js_error \<Rightarrow> string" where
  "error_message (BadConnectionError m) = m"
| "error_message (CommandTimeoutError m) = m"
| "error_message (ModbusError m c) = m"
| "error_message (DeviceBusyError m c) = m"
| "error_message (ParseError m) = m"
| "error_message (RangeError m) = m"
| "error_message (PlainError m) = m"
| "error_message (AggregateError es m) = m"

definition rbind :: "'a result \<Rightarrow> ('a \<Rightarrow> 'b result) \<Rightarrow> 'b result" where
  "rbind r f = (case r of Inl e \<Rightarrow> Inl e | Inr x \<Rightarrow> f x)"

lemma rbind_simps [simp]: "rbind (Inl e) f = Inl e" "rbind (Inr x) f = f x"
  by (simp_all add: rbind_def)

lemma rbind_eq_Inr: "rbind r f = Inr y \<longleftrightarrow> (\<exists>x. r = Inr x \<and> f x = Inr y)"
  by (cases r) simp_all

lemma rbind_eq_Inl: "rbind r f = Inl e \<longleftrightarrow> r = Inl e \<or> (\<exists>x. r = Inr x \<and> f x = Inl e)"
  by (cases r) simp_all

subsection \<open>Ordered objects\<close>

text \<open>\<open>obj[k] = v\<close>; the key keeps its place when it is there already.\<close>

abbreviation obj_set :: "'k \<Rightarrow> 'v \<Rightarrow> ('k \<times> 'v) list \<Rightarrow> ('k \<times> 'v) list" where
  "obj_set \<equiv> AList.update"

abbreviation obj_delete :: "'k \<Rightarrow> ('k \<times> 'v) list \<Rightarrow> ('k \<times> 'v) list" where
  "obj_delete \<equiv> AList.delete"

lemma map_of_obj_set [simp]: "map_of (obj_set k v ps) = (map_of ps)(k \<mapsto> v)"
  by (rule update_conv')

lemma map_of_obj_delete [simp]: "map_of (obj_delete k ps) = (map_of ps)(k := None)"
  by (rule delete_conv')

subsection \<open>Strings\<close>

text \<open>\<open>toLowerCase\<close> and \<open>toUpperCase\<close> on the ASCII letters, \<open>includes\<close> as substring search.\<close>

definition lower_char :: "char \<Rightarrow> char" where
  "lower_char c = (if 65 \<le> (of_char c :: nat) \<and> (of_char c :: nat) \<le> 90
     then char_of ((of_char c :: nat) + 32) else c)"

definition to_lower :: "string \<Rightarrow> string" where
  "to_lower = map lower_char"

fun starts_with :: "string \<Rightarrow> string \<Rightarrow> bool" where
  "starts_with s [] = True"
| "starts_with [] (p # ps) = False"
| "starts_with (c # cs) (p # ps) = (c = p \<and> starts_with cs ps)"

fun str_includes :: "string \<Rightarrow> string \<Rightarrow> bool" where
  "str_includes [] p = (p = [])"
| "str_includes (c # cs) p = (starts_with (c # cs) p \<or> str_includes cs p)"

lemma starts_with_append [simp]: "starts_with (p @ s) p"
  by (induction p) auto

lemma starts_with_take: "starts_with s p \<longleftrightarrow> take (length p) s = p"
  by (induction s p rule: starts_with.induct) auto

lemma str_includes_iff: "str_includes s p \<longleftrightarrow> (\<exists>u v. s = u @ p @ v)"
proof (induction s)
  case Nil
  show ?case by auto
next
  case (Cons c cs)
  have "starts_with (c # cs) p \<longleftrightarrow> (\<exists>v. c # cs = p @ v)"
    by (auto simp: starts_with_take) (metis append_take_drop_id)
  moreover have "(\<exists>u v. c # cs = u @ p @ v) \<longleftrightarrow>
      (\<exists>v. c # cs = p @ v) \<or> (\<exists>u v. cs = u @ p @ v)"
    by (metis (no_types, opaque_lifting) append_Cons append_Nil neq_Nil_conv list.inject)
  ultimately show ?case using Cons by simp
qed

definition is_digit :: "char \<Rightarrow> bool" where
  "is_digit c \<longleftrightarrow> 48 \<le> (of_char c :: nat) \<and> (of_char c :: nat) \<le> 57"

text \<open>\<open>Buffer.toString("ascii")\<close>: Node clears the high bit of every byte.\<close>

definition ascii_text :: "bytes \<Rightarrow> string" where
  "ascii_text bs = map (\<lambda>b. char_of (unat b mod 128)) bs"

text \<open>\<open>`${n}`\<close> for a non-negative integer: its decimal digits.\<close>

fun decimal_string :: "nat \<Rightarrow> string" where
  "decimal_string n =
     (if n < 10 then [char_of (48 + n)]
      else decimal_string (n div 10) @ [char_of (48 + n mod 10)])"

declare decimal_string.simps [simp del]

definition decimal_value :: "string \<Rightarrow> nat" where
  "decimal_value s = foldl (\<lambda>v c. 10 * v + ((of_char c :: nat) - 48)) 0 s"

lemma decimal_value_string: "decimal_value (decimal_string n) = n"
proof (induction n rule: decimal_string.induct)
  case (1 n)
  show ?case
  proof (cases "n < 10")
    case True
    then show ?thesis by (simp add: decimal_string.simps [of n] decimal_value_def)
  next
    case False
    with 1 show ?thesis by (simp add: decimal_string.simps [of n] decimal_value_def)
  qed
qed

lemma decimal_string_inject [simp]: "decimal_string m = decimal_string n \<longleftrightarrow> m = n"
  by (metis decimal_value_string)

lemma decimal_string_digits: "c \<in> set (decimal_string n) \<Longrightarrow> is_digit c"
proof (induction n arbitrary: c rule: decimal_string.induct)
  case (1 n)
  then show ?case
    by (cases "n < 10") (auto simp: decimal_string.simps [of n] is_digit_def)
qed

lemma decimal_string_not_Nil [simp]: "decimal_string n \<noteq> []"
  by (subst decimal_string.simps) simp

end
