(* ===== verification/Crc.thy ===== *)
theory Crc
  imports Prelude
begin

text \<open>
  The MODBUS CRC-16 of \<open>core/crc.ts\<close>.
  JavaScript's bitwise operators work on 32-bit signed integers, so the accumulator is a
  32-bit word and \<open>>>\<close> is the arithmetic shift; the lemmas show that it never leaves the low
  16 bits, that the routine equals a bit-serial shift register fed LSB first, that a frame is
  accepted exactly when its residue is zero, and what corruption that detects.
  The locale \<open>frame_codec\<close> is the interface the command classes use.
\<close>

unbundle bit_operations_syntax

subsection \<open>The code\<close>

definition CRC_INITIAL_VALUE :: "32 word" where "CRC_INITIAL_VALUE = 0xFFFF"
definition CRC_POLYNOMIAL :: "32 word" where "CRC_POLYNOMIAL = 0xA001"

text \<open>The body of the inner loop, one bit.\<close>

definition crc_shift :: "32 word \<Rightarrow> 32 word" where
  "crc_shift crc =
     (let lsb = crc AND 1;
          crc' = signed_drop_bit 1 crc
      in if lsb \<noteq> 0 then crc' XOR CRC_POLYNOMIAL else crc')"

fun crc_bits :: "nat \<Rightarrow> 32 word \<Rightarrow> 32 word" where
  "crc_bits 0 crc = crc"
| "crc_bits (Suc n) crc = crc_bits n (crc_shift crc)"

definition crc_byte :: "32 word \<Rightarrow> byte \<Rightarrow> 32 word" where
  "crc_byte crc b = crc_bits 8 (crc XOR ucast b)"

definition modbusCrc :: "bytes \<Rightarrow> 32 word" where
  "modbusCrc data = foldl crc_byte CRC_INITIAL_VALUE data AND 0xFFFF"

definition appendModbusCrc :: "bytes \<Rightarrow> bytes" where
  "appendModbusCrc data =
     (let crc = modbusCrc data
      in data @ [ucast (crc AND 0xFF), ucast (signed_drop_bit 8 crc AND 0xFF)])"

definition hasValidModbusCrc :: "bytes \<Rightarrow> bool" where
  "hasValidModbusCrc frame =
     (if length frame < 3 then False
      else (let expected = modbusCrc (js_slice frame 0 (-2));
                low = js_get frame (length frame - 2);
                high = js_get frame (length frame - 1)
            in map_option ucast low = Some (expected AND 0xFF) \<and>
               map_option ucast high = Some (signed_drop_bit 8 expected AND 0xFF)))"

lemmas crc_defs = CRC_INITIAL_VALUE_def CRC_POLYNOMIAL_def crc_shift_def crc_byte_def
  modbusCrc_def appendModbusCrc_def hasValidModbusCrc_def

subsection \<open>The bit-serial shift register\<close>

text \<open>
  The specification: a 16-bit shift register that takes one message bit at a time, least
  significant bit of each byte first, and adds the polynomial when the bit shifted out differs
  from the message bit.
\<close>

definition lfsr_step :: "16 word \<Rightarrow> bool \<Rightarrow> 16 word" where
  "lfsr_step c b = (if bit c 0 \<noteq> b then drop_bit 1 c XOR 0xA001 else drop_bit 1 c)"

definition byte_bits :: "byte \<Rightarrow> bool list" where
  "byte_bits b = map (bit b) [0..<8]"

definition crc_reference :: "bytes \<Rightarrow> 16 word" where
  "crc_reference data = foldl lfsr_step 0xFFFF (concat (map byte_bits data))"

abbreviation shift16 :: "16 word \<Rightarrow> 16 word" where
  "shift16 c \<equiv> lfsr_step c False"

definition byte16 :: "16 word \<Rightarrow> byte \<Rightarrow> 16 word" where
  "byte16 c b = (shift16 ^^ 8) (c XOR ucast b)"

definition residue16 :: "bytes \<Rightarrow> 16 word" where
  "residue16 data = foldl byte16 0xFFFF data"

lemma bit_poly16_top: "bit (0xA001 :: 16 word) 15"
  by simp

lemma not_bit_byte: "8 \<le> n \<Longrightarrow> \<not> bit (b :: byte) n"
  using bit_imp_le_length [of b n] by auto

lemma not_bit_word16: "16 \<le> n \<Longrightarrow> \<not> bit (c :: 16 word) n"
  using bit_imp_le_length [of c n] by auto

lemma bit_lfsr_step:
  "bit (lfsr_step c b) n \<longleftrightarrow> (bit c (Suc n) \<noteq> ((bit c 0 \<noteq> b) \<and> bit (0xA001 :: 16 word) n))"
  by (simp add: lfsr_step_def bit_xor_iff bit_drop_bit_eq)

lemma lfsr_step_xor:
  "lfsr_step (c XOR d) (b \<noteq> e) = lfsr_step c b XOR lfsr_step d e"
  by (rule bit_word_eqI) (auto simp: bit_lfsr_step bit_xor_iff)

lemma shift16_xor: "shift16 (c XOR d) = shift16 c XOR shift16 d"
  using lfsr_step_xor [of c d False False] by simp

lemma shift16_inj: "shift16 c = shift16 d \<longleftrightarrow> c = d"
proof
  assume eq: "shift16 c = shift16 d"
  have zero: "bit c 0 = bit d 0"
  proof -
    have "bit (shift16 c) 15 = bit (shift16 d) 15" by (simp add: eq)
    then show ?thesis
      by (simp add: bit_lfsr_step bit_poly16_top not_bit_word16 del: bit_0)
  qed
  have "bit c (Suc n) = bit d (Suc n)" for n
  proof -
    have "bit (shift16 c) n = bit (shift16 d) n" by (simp add: eq)
    with zero show ?thesis by (auto simp: bit_lfsr_step)
  qed
  with zero have "bit c n = bit d n" for n by (cases n) simp_all
  then show "c = d" by (auto intro: bit_word_eqI)
qed simp

lemma shift16_pow_inj: "(shift16 ^^ n) c = (shift16 ^^ n) d \<longleftrightarrow> c = d"
  by (induction n arbitrary: c d) (simp_all add: shift16_inj)

lemma shift16_pow_xor: "(shift16 ^^ n) (c XOR d) = (shift16 ^^ n) c XOR (shift16 ^^ n) d"
  by (induction n) (simp_all add: shift16_xor)

text \<open>Feeding a byte bit by bit is adding it and shifting eight times.\<close>

lemma lfsr_feed_prefix:
  "n \<le> 8 \<Longrightarrow> foldl lfsr_step c (map (bit b) [0..<n]) XOR ucast (drop_bit n b)
     = (shift16 ^^ n) (c XOR ucast (b :: byte))"
proof (induction n)
  case (Suc n)
  let ?x = "foldl lfsr_step c (map (bit b) [0..<n])"
  have "(shift16 ^^ Suc n) (c XOR ucast b) = shift16 (?x XOR ucast (drop_bit n b))"
    using Suc by simp
  also have "\<dots> = lfsr_step ?x (bit b n) XOR ucast (drop_bit (Suc n) b)"
    using Suc.prems
    by (intro bit_word_eqI)
      (auto simp: bit_lfsr_step bit_xor_iff bit_ucast_iff bit_drop_bit_eq not_bit_byte)
  finally show ?case by simp
qed simp

lemma lfsr_feed_byte: "foldl lfsr_step c (byte_bits b) = byte16 c b"
proof -
  have "drop_bit 8 b = 0"
    by (rule bit_word_eqI) (simp add: bit_drop_bit_eq not_bit_byte)
  with lfsr_feed_prefix [of 8 c b] show ?thesis
    by (simp add: byte_bits_def byte16_def)
qed

lemma crc_reference_residue: "crc_reference data = residue16 data"
proof -
  have "foldl lfsr_step c (concat (map byte_bits data)) = foldl byte16 c data" for c
    by (induction data arbitrary: c) (simp_all add: lfsr_feed_byte)
  then show ?thesis by (simp add: crc_reference_def residue16_def)
qed

subsection \<open>The 32-bit arithmetic stays in 16 bits\<close>

lemma crc_shift_ucast: "crc_shift (ucast (c :: 16 word)) = ucast (shift16 c)"
proof -
  have lsb: "(ucast c AND (1 :: 32 word)) \<noteq> 0 \<longleftrightarrow> bit c 0"
  proof -
    have "(x AND 1) \<noteq> 0 \<longleftrightarrow> bit x 0" for x :: "32 word"
      by (simp add: and_one_eq bit_0 mod_2_eq_odd)
    then show ?thesis by (simp add: bit_ucast_iff del: bit_0)
  qed
  have drop: "signed_drop_bit 1 (ucast c :: 32 word) = ucast (drop_bit 1 c)"
    by (rule bit_word_eqI)
      (auto simp: bit_signed_drop_bit_iff bit_ucast_iff bit_drop_bit_eq dest: bit_imp_le_length)
  have poly: "ucast (drop_bit 1 c) XOR (0xA001 :: 32 word) = ucast (drop_bit 1 c XOR 0xA001)"
    by (simp add: unsigned_xor_eq)
  show ?thesis
    by (simp add: crc_shift_def Let_def lsb drop lfsr_step_def CRC_POLYNOMIAL_def poly
        del: One_nat_def bit_0)
qed

lemma crc_bits_ucast: "crc_bits n (ucast (c :: 16 word)) = ucast ((shift16 ^^ n) c)"
  by (induction n arbitrary: c) (simp_all add: crc_shift_ucast funpow_Suc_right del: funpow.simps)

lemma crc_byte_ucast: "crc_byte (ucast (c :: 16 word)) b = ucast (byte16 c b)"
proof -
  have "ucast c XOR ucast b = (ucast (c XOR ucast b) :: 32 word)"
    by (rule bit_word_eqI) (auto simp: bit_xor_iff bit_ucast_iff dest: bit_imp_le_length)
  then show ?thesis by (simp only: crc_byte_def byte16_def crc_bits_ucast)
qed

lemma crc_loop_ucast: "foldl crc_byte (ucast (c :: 16 word)) data = ucast (foldl byte16 c data)"
  by (induction data arbitrary: c) (simp_all add: crc_byte_ucast)

lemma modbusCrc_residue: "modbusCrc data = ucast (residue16 data)"
proof -
  have "foldl crc_byte CRC_INITIAL_VALUE data = ucast (residue16 data)"
    using crc_loop_ucast [of "0xFFFF" data] by (simp add: CRC_INITIAL_VALUE_def residue16_def)
  moreover have "ucast c AND 0xFFFF = (ucast c :: 32 word)" for c :: "16 word"
  proof -
    have "ucast c AND mask 16 = (ucast c :: 32 word)"
      by (rule bit_word_eqI)
        (auto simp: bit_and_iff bit_mask_iff bit_ucast_iff dest: bit_imp_le_length)
    then show ?thesis by (simp add: mask_eq_exp_minus_1)
  qed
  ultimately show ?thesis by (simp add: modbusCrc_def)
qed

subsection \<open>The residue of a frame\<close>

definition crc_low :: "16 word \<Rightarrow> byte" where "crc_low c = ucast c"
definition crc_high :: "16 word \<Rightarrow> byte" where "crc_high c = ucast (drop_bit 8 c)"
definition crc_pair :: "byte \<Rightarrow> byte \<Rightarrow> 16 word" where
  "crc_pair lo hi = ucast lo XOR push_bit 8 (ucast hi)"

lemma bit_crc_pair: "bit (crc_pair lo hi) n \<longleftrightarrow> (if n < 8 then bit lo n else n < 16 \<and> bit hi (n - 8))"
  by (auto simp: crc_pair_def bit_xor_iff bit_ucast_iff bit_push_bit_iff not_bit_byte)

lemma crc_pair_split [simp]: "crc_low (crc_pair lo hi) = lo" "crc_high (crc_pair lo hi) = hi"
  by (auto intro!: bit_word_eqI simp: crc_low_def crc_high_def bit_ucast_iff bit_drop_bit_eq bit_crc_pair)

lemma crc_pair_join [simp]: "crc_pair (crc_low c) (crc_high c) = c"
  by (auto intro!: bit_word_eqI simp: crc_low_def crc_high_def bit_ucast_iff bit_drop_bit_eq bit_crc_pair
      split: if_splits)

lemma crc_pair_eq_iff: "c = crc_pair lo hi \<longleftrightarrow> crc_low c = lo \<and> crc_high c = hi"
  by (metis crc_pair_split crc_pair_join)

lemma shift16_pow_push: "n \<le> 8 \<Longrightarrow> (shift16 ^^ n) (push_bit n (ucast (b :: byte))) = ucast b"
proof (induction n)
  case (Suc n)
  have "shift16 (push_bit (Suc n) (ucast b)) = push_bit n (ucast b)"
    using Suc.prems
    by (intro bit_word_eqI) (auto simp: bit_lfsr_step bit_push_bit_iff bit_ucast_iff not_bit_byte Suc_diff_le
        simp del: bit_0 push_bit_Suc dest: bit_imp_le_length)
  with Suc show ?case by (simp add: funpow_Suc_right del: funpow.simps)
qed simp

lemma byte16_two: "byte16 (byte16 c lo) hi = (shift16 ^^ 16) (c XOR crc_pair lo hi)"
proof -
  have "(shift16 ^^ 8) (c XOR crc_pair lo hi) = byte16 c lo XOR ucast hi"
    using shift16_pow_push [of 8 hi]
    by (simp add: byte16_def crc_pair_def shift16_pow_xor xor.assoc [symmetric])
  moreover have "(shift16 ^^ 16) x = (shift16 ^^ 8) ((shift16 ^^ 8) x)" for x
    using funpow_add [of 8 8 shift16] by simp
  ultimately show ?thesis by (simp add: byte16_def)
qed

lemma shift16_pow_zero: "(shift16 ^^ n) 0 = 0"
  by (induction n) (simp_all add: lfsr_step_def)

lemma residue16_snoc2: "residue16 (body @ [lo, hi]) = (shift16 ^^ 16) (residue16 body XOR crc_pair lo hi)"
  by (simp add: residue16_def byte16_two)

lemma residue16_zero_iff:
  "residue16 (body @ [lo, hi]) = 0 \<longleftrightarrow> lo = crc_low (residue16 body) \<and> hi = crc_high (residue16 body)"
proof -
  have "residue16 (body @ [lo, hi]) = 0 \<longleftrightarrow> residue16 body XOR crc_pair lo hi = 0"
    using shift16_pow_inj [of 16 "residue16 body XOR crc_pair lo hi" 0]
    by (simp add: residue16_snoc2 shift16_pow_zero)
  also have "\<dots> \<longleftrightarrow> residue16 body = crc_pair lo hi"
    by (metis xor.left_neutral xor.assoc xor_self_eq)
  finally show ?thesis by (auto simp: crc_pair_eq_iff)
qed


text \<open>The two checksum bytes as the code extracts them from the 32-bit number.\<close>

lemma and_0xFF: "(x :: 32 word) AND 0xFF = ucast (ucast x :: byte)"
proof -
  have "x AND mask 8 = ucast (ucast x :: byte)"
    by (rule bit_word_eqI) (auto simp: bit_and_iff bit_mask_iff bit_ucast_iff)
  then show ?thesis by (simp add: mask_eq_exp_minus_1)
qed

lemma ucast_byte_inj: "(ucast (a :: byte) :: 32 word) = ucast b \<longleftrightarrow> a = b"
proof
  assume eq: "(ucast a :: 32 word) = ucast b"
  have "bit a n = bit b n" if "n < 8" for n
    using arg_cong [OF eq, of "\<lambda>w. bit w n"] that by (simp add: bit_ucast_iff)
  then show "a = b" by (intro bit_word_eqI) simp
qed simp

lemma ucast_byte_back [simp]: "ucast (ucast (a :: byte) :: 32 word) = a"
  by (rule bit_word_eqI) (simp add: bit_ucast_iff)

lemma crc_bytes_of_number:
  "ucast (ucast (c :: 16 word) :: 32 word) = crc_low c"
  "ucast (signed_drop_bit 8 (ucast (c :: 16 word) :: 32 word)) = crc_high c"
  by (auto intro!: bit_word_eqI simp: crc_low_def crc_high_def bit_ucast_iff bit_drop_bit_eq
      bit_signed_drop_bit_iff dest: bit_imp_le_length)

lemmas crc_byte_facts = modbusCrc_residue and_0xFF ucast_byte_inj crc_bytes_of_number

lemma appendModbusCrc_residue:
  "appendModbusCrc data = data @ [crc_low (residue16 data), crc_high (residue16 data)]"
  by (simp add: appendModbusCrc_def Let_def crc_byte_facts)

lemma hasValidModbusCrc_snoc2:
  "hasValidModbusCrc (body @ [lo, hi]) \<longleftrightarrow> body \<noteq> [] \<and> residue16 (body @ [lo, hi]) = 0"
  by (cases "body = []") (simp_all add: hasValidModbusCrc_def residue16_zero_iff js_slice_zero_drop_last2
      js_get_def Let_def nth_append crc_byte_facts)

lemma hasValidModbusCrc_iff_residue:
  "hasValidModbusCrc frame \<longleftrightarrow> 3 \<le> length frame \<and> residue16 frame = 0"
proof (cases "length frame < 3")
  case True
  then show ?thesis by (simp add: hasValidModbusCrc_def)
next
  case False
  then obtain body lo hi where "frame = body @ [lo, hi]"
    using split_last_two [of frame] by auto
  moreover from this False have "body \<noteq> []" by auto
  ultimately show ?thesis using False by (simp add: hasValidModbusCrc_snoc2 Suc_le_eq)
qed

subsection \<open>Burst errors\<close>

lemma byte16_state_inj: "byte16 c b = byte16 d b \<longleftrightarrow> c = d"
proof -
  have "c XOR u = d XOR u \<longleftrightarrow> c = d" for u :: "16 word"
    by (metis xor.assoc xor_self_eq xor.right_neutral)
  then show ?thesis by (simp add: byte16_def shift16_pow_inj)
qed

lemma residue_loop_inj: "foldl byte16 c xs = foldl byte16 d xs \<longleftrightarrow> c = d"
  by (induction xs arbitrary: c d) (simp_all add: byte16_state_inj)

lemma byte16_pair_inj:
  "byte16 (byte16 c a) b = byte16 (byte16 c a') b' \<longleftrightarrow> a = a' \<and> b = b'"
proof -
  have "c XOR u = c XOR v \<longleftrightarrow> u = v" for u v :: "16 word"
    by (metis xor.assoc xor_self_eq xor.left_neutral)
  then show ?thesis
    by (simp add: byte16_two shift16_pow_inj) (metis crc_pair_split)
qed

lemma byte16_byte_inj: "byte16 c a = byte16 c a' \<longleftrightarrow> a = a'"
  using byte16_pair_inj [of c a 0 a' 0] by (simp add: byte16_state_inj)

text \<open>Two strings that differ only inside one window of two bytes have different residues.\<close>

lemma residue16_burst:
  assumes len: "length (g :: bytes) = length f"
    and same: "\<forall>j < length f. j \<noteq> i \<longrightarrow> j \<noteq> Suc i \<longrightarrow> g ! j = f ! j"
    and eq: "residue16 g = residue16 f"
  shows "g = f"
proof -
  let ?pre = "take i f" and ?suf = "drop (Suc (Suc i)) f"
  have pre: "take i g = ?pre" using len same by (auto intro!: nth_equalityI)
  have suf: "drop (Suc (Suc i)) g = ?suf" using len same by (auto intro!: nth_equalityI)
  consider (two) "Suc i < length f" | (one) "Suc i = length f" | (out) "length f \<le> i" by linarith
  then show ?thesis
  proof cases
    case two
    then have f: "f = ?pre @ [f ! i, f ! Suc i] @ ?suf" by (rule split_at_pair)
    have g: "g = ?pre @ [g ! i, g ! Suc i] @ ?suf"
      by (rule split_at_pair [of i g, unfolded pre suf]) (simp add: two len)
    let ?c = "foldl byte16 0xFFFF ?pre"
    have "residue16 g = foldl byte16 (byte16 (byte16 ?c (g ! i)) (g ! Suc i)) ?suf"
      by (subst g) (simp add: residue16_def)
    moreover have "residue16 f = foldl byte16 (byte16 (byte16 ?c (f ! i)) (f ! Suc i)) ?suf"
      by (subst f) (simp add: residue16_def)
    ultimately have same: "g ! i = f ! i" "g ! Suc i = f ! Suc i"
      using eq by (simp_all add: residue_loop_inj byte16_pair_inj)
    have "g = ?pre @ [f ! i, f ! Suc i] @ ?suf" by (rule g [unfolded same])
    also have "\<dots> = f" by (rule f [symmetric])
    finally show ?thesis .
  next
    case one
    then have f: "f = ?pre @ [f ! i]" by (metis lessI take_Suc_conv_app_nth take_all_iff order_refl)
    have g: "g = ?pre @ [g ! i]"
      using one len pre by (metis lessI take_Suc_conv_app_nth take_all_iff order_refl)
    have "residue16 g = byte16 (foldl byte16 0xFFFF ?pre) (g ! i)"
      by (subst g) (simp add: residue16_def)
    moreover have "residue16 f = byte16 (foldl byte16 0xFFFF ?pre) (f ! i)"
      by (subst f) (simp add: residue16_def)
    ultimately have same: "g ! i = f ! i" using eq by (simp add: byte16_byte_inj)
    have "g = ?pre @ [f ! i]" by (rule g [unfolded same])
    also have "\<dots> = f" by (rule f [symmetric])
    finally show ?thesis .
  next
    case out
    with len same show ?thesis by (auto intro!: nth_equalityI)
  qed
qed

subsection \<open>The interface: a frame codec\<close>

text \<open>
  What the command classes rely on: sealing appends two bytes, a sealed body is accepted,
  nothing else is, and no frame is accepted that differs from an accepted one inside a window
  of two bytes.
\<close>

locale frame_codec =
  fixes seal :: "bytes \<Rightarrow> bytes" and check :: "bytes \<Rightarrow> bool"
  assumes seal_length: "length (seal b) = length b + 2"
    and seal_prefix: "take (length b) (seal b) = b"
    and check_seal: "b \<noteq> [] \<Longrightarrow> check (seal b)"
    and check_only: "check f \<Longrightarrow> \<exists>b. b \<noteq> [] \<and> f = seal b"
    and check_burst: "\<lbrakk>check f; length g = length f; g \<noteq> f;
      \<forall>j < length f. j \<noteq> i \<longrightarrow> j \<noteq> Suc i \<longrightarrow> g ! j = f ! j\<rbrakk> \<Longrightarrow> \<not> check g"
begin

lemma seal_inject: "seal b = seal c \<longleftrightarrow> b = c"
  by (metis add_right_cancel seal_length seal_prefix)

lemma seal_nth: "i < length b \<Longrightarrow> seal b ! i = b ! i"
  by (metis nth_take seal_prefix)

lemma js_get_seal: "i < length b \<Longrightarrow> js_get (seal b) i = Some (b ! i)"
  by (simp add: js_get_def seal_length seal_nth)

lemma check_iff: "check f \<longleftrightarrow> (\<exists>b. b \<noteq> [] \<and> f = seal b)"
  using check_seal check_only by blast

lemma check_body: "check f \<longleftrightarrow> 3 \<le> length f \<and> f = seal (take (length f - 2) f)"
proof
  assume "check f"
  then obtain b where "b \<noteq> []" "f = seal b" using check_only by blast
  moreover from this have "take (length f - 2) f = b" by (simp add: seal_length seal_prefix)
  ultimately show "3 \<le> length f \<and> f = seal (take (length f - 2) f)"
    by (cases b) (simp_all add: seal_length)
next
  assume len: "3 \<le> length f \<and> f = seal (take (length f - 2) f)"
  then have "take (length f - 2) f \<noteq> []" by (cases f) auto
  then show "check f" using len check_seal by metis
qed

end

interpretation crc: frame_codec appendModbusCrc hasValidModbusCrc
proof unfold_locales
  fix b f g :: bytes and i
  show "length (appendModbusCrc b) = length b + 2" by (simp add: appendModbusCrc_residue)
  show "take (length b) (appendModbusCrc b) = b" by (simp add: appendModbusCrc_residue)
  show "hasValidModbusCrc (appendModbusCrc b)" if "b \<noteq> []"
    using that by (simp add: appendModbusCrc_residue hasValidModbusCrc_snoc2 residue16_zero_iff)
  show "\<exists>b. b \<noteq> [] \<and> f = appendModbusCrc b" if valid: "hasValidModbusCrc f"
  proof -
    from valid have "2 \<le> length f" by (simp add: hasValidModbusCrc_iff_residue)
    then obtain b lo hi where f: "f = b @ [lo, hi]" using split_last_two by blast
    with valid show ?thesis
      by (intro exI [of _ b]) (simp add: hasValidModbusCrc_snoc2 residue16_zero_iff appendModbusCrc_residue)
  qed
  show "\<not> hasValidModbusCrc g"
    if "hasValidModbusCrc f" "length g = length f" "g \<noteq> f"
      "\<forall>j < length f. j \<noteq> i \<longrightarrow> j \<noteq> Suc i \<longrightarrow> g ! j = f ! j"
    using that residue16_burst [of g f i] by (auto simp: hasValidModbusCrc_iff_residue)
qed

subsection \<open>Properties\<close>

text \<open>
  C34: the checksum loop of \<open>modbusCrc\<close>, on JavaScript's 32-bit integers with the arithmetic
  shift, computes what the bit-serial 16-bit shift register with the reflected polynomial
  computes when the message is fed least significant bit first; so the number it returns
  always fits 16 bits.
\<close>

theorem modbusCrc_bit_serial:
  "modbusCrc data = ucast (crc_reference data) \<and> unat (modbusCrc data) < 2 ^ 16"
proof -
  have "unat (ucast c :: 32 word) < 2 ^ 16" for c :: "16 word"
  proof -
    have "unat (ucast c :: 32 word) = take_bit 32 (unat c)" by (simp add: unsigned_ucast_eq)
    also have "\<dots> \<le> unat c" by (rule take_bit_nat_less_eq_self)
    also have "\<dots> < 2 ^ 16" using unsigned_less [of c] by simp
    finally show ?thesis .
  qed
  then show ?thesis by (simp add: crc_reference_residue modbusCrc_residue)
qed

text \<open>
  \<open>hasValidModbusCrc\<close> accepts exactly the frames \<open>appendModbusCrc\<close> produces from a
  non-empty body, and the body can be read back as the frame without its last two bytes.
\<close>

theorem hasValidModbusCrc_roundtrip:
  "(hasValidModbusCrc frame \<longleftrightarrow> (\<exists>body. body \<noteq> [] \<and> frame = appendModbusCrc body)) \<and>
   js_slice (appendModbusCrc data) 0 (-2) = data"
  by (simp add: crc.check_iff js_slice_zero_drop_last2 crc.seal_length crc.seal_prefix)

text \<open>
  C33: no corruption confined to two adjacent bytes, checksum bytes included, gets past
  \<open>hasValidModbusCrc\<close>: a frame that differs from an accepted one only at positions
  \<open>i\<close> and \<open>i + 1\<close> is rejected.
\<close>

theorem modbus_burst_detected:
  assumes "hasValidModbusCrc frame" and "length frame' = length frame" and "frame' \<noteq> frame"
    and "\<forall>j < length frame. j \<noteq> i \<longrightarrow> j \<noteq> Suc i \<longrightarrow> frame' ! j = frame ! j"
  shows "\<not> hasValidModbusCrc frame'"
  by (rule crc.check_burst [OF assms])

theorem modbus_burst_detected_witness: "\<not> hasValidModbusCrc [1, 3, 9, 77, 0, 40, 101, 214]"
proof (rule modbus_burst_detected [where i = 2])
  show "hasValidModbusCrc [1, 3, 0, 10, 0, 40, 101, 214]" by code_simp
  show "\<forall>j < length ([1, 3, 0, 10, 0, 40, 101, 214] :: bytes). j \<noteq> 2 \<longrightarrow> j \<noteq> Suc 2 \<longrightarrow>
      ([1, 3, 9, 77, 0, 40, 101, 214] :: bytes) ! j = [1, 3, 0, 10, 0, 40, 101, 214] ! j"
  proof (intro allI impI)
    fix j assume "j < length ([1, 3, 0, 10, 0, 40, 101, 214] :: bytes)" "j \<noteq> 2" "j \<noteq> Suc 2"
    then have "j = 0 \<or> j = 1 \<or> j = 4 \<or> j = 5 \<or> j = 6 \<or> j = 7" by simp linarith
    then show "([1, 3, 9, 77, 0, 40, 101, 214] :: bytes) ! j = [1, 3, 0, 10, 0, 40, 101, 214] ! j"
      by (elim disjE) simp_all
  qed
qed simp_all

end
