(* ===== verification/JsNumber.thy ===== *)
theory JsNumber
  imports Prelude Complex_Main "HOL-Library.Log_Nat"
begin

text \<open>
  JavaScript numbers. A finite number is the exact rational value of the IEEE binary64 it
  stands for; \<open>double_of n d\<close> is what the division \<open>n / d\<close> of two non-negative integers
  yields, rounded to 53 significant bits, ties to even (values below \<open>2 powr -64\<close> and above the
  binary64 range do not arise from the operands used here: register words and powers of ten).
  The lemmas bound the rounding error, which is what makes the decoded telemetry exact enough
  to recover the raw register.
\<close>

datatype jsnum = Fin rat | PosInf | NegInf | NaN | NonNumber

text \<open>
  \<open>NonNumber\<close> is a value that is not a number and reaches a numeric parameter all the same
  (an inherited property of an object literal, which the type checker does not see).
\<close>

fun is_js_integer :: "jsnum \<Rightarrow> bool" where
  "is_js_integer (Fin q) = (q = of_int \<lfloor>q\<rfloor>)"
| "is_js_integer _ = False"

fun js_int :: "jsnum \<Rightarrow> int" where
  "js_int (Fin q) = \<lfloor>q\<rfloor>"
| "js_int _ = 0"

lemma is_js_integer_of_int [simp]: "is_js_integer (Fin (of_int i))"
  by simp

lemma is_js_integer_numerals [simp]:
  "is_js_integer (Fin 0)" "is_js_integer (Fin 1)" "is_js_integer (Fin (numeral k))"
  using is_js_integer_of_int [of 0] is_js_integer_of_int [of 1] is_js_integer_of_int [of "numeral k"]
  by (simp_all del: is_js_integer_of_int)

lemma is_js_integer_cases: "is_js_integer v \<longleftrightarrow> (\<exists>i. v = Fin (of_int i))"
  by (cases v) auto

subsection \<open>Rounding\<close>

definition round_half_even :: "nat \<Rightarrow> nat \<Rightarrow> nat" where
  "round_half_even n d =
     (let q = n div d; r = n mod d
      in if 2 * r < d then q else if d < 2 * r then q + 1 else if even q then q else q + 1)"

text \<open>
  \<open>floorlog 2 (n * 2 ^ 64 div d)\<close> is 65 plus the binary exponent of \<open>n / d\<close>; the mantissa
  keeps 53 bits.
\<close>

definition double_of :: "nat \<Rightarrow> nat \<Rightarrow> rat" where
  "double_of n d =
     (if n = 0 then 0
      else (let e = floorlog 2 (n * 2 ^ 64 div d)
            in if e \<le> 117 then of_nat (round_half_even (n * 2 ^ (117 - e)) d) / 2 ^ (117 - e)
               else of_nat (round_half_even n (d * 2 ^ (e - 117))) * 2 ^ (e - 117)))"

lemma round_half_even_one [simp]: "round_half_even n (Suc 0) = n"
  by (simp add: round_half_even_def)

lemma round_half_even_nat_bounds:
  assumes "0 < d"
  shows "2 * (d * round_half_even n d) \<le> 2 * n + d" and "2 * n \<le> 2 * (d * round_half_even n d) + d"
proof -
  define q r where "q = n div d" and "r = n mod d"
  then have n: "n = d * q + r" and r: "r < d" and m: "round_half_even n d =
      (if 2 * r < d then q else if d < 2 * r then q + 1 else if even q then q else q + 1)"
    using assms by (simp_all add: round_half_even_def Let_def)
  show "2 * (d * round_half_even n d) \<le> 2 * n + d" and "2 * n \<le> 2 * (d * round_half_even n d) + d"
    unfolding m using n r by (simp_all add: distrib_left)
qed

lemma round_half_even_error:
  assumes "0 < d"
  shows "\<bar>of_nat (round_half_even n d) - of_nat n / of_nat d\<bar> \<le> (1 / 2 :: rat)"
proof -
  let ?m = "of_nat (round_half_even n d) :: rat"
  have "rat_of_nat (2 * (d * round_half_even n d)) \<le> rat_of_nat (2 * n + d)"
    using round_half_even_nat_bounds(1) [OF assms, of n] by (simp only: of_nat_le_iff)
  then have "?m - of_nat n / of_nat d \<le> 1 / 2" using assms by (simp add: field_simps)
  moreover have "rat_of_nat (2 * n) \<le> rat_of_nat (2 * (d * round_half_even n d) + d)"
    using round_half_even_nat_bounds(2) [OF assms, of n] by (simp only: of_nat_le_iff)
  then have "- (?m - of_nat n / of_nat d) \<le> 1 / 2" using assms by (simp add: field_simps)
  ultimately show ?thesis by (rule abs_leI)
qed

lemma scaled_error:
  assumes "0 < c" and "\<bar>x - y * c\<bar> \<le> (1 / 2 :: rat)"
  shows "\<bar>x / c - y\<bar> \<le> 1 / 2 / c"
proof -
  have "x / c - y = (x - y * c) / c" using assms(1) by (simp add: field_simps)
  then have "\<bar>x / c - y\<bar> = \<bar>x - y * c\<bar> / c" using assms(1) by (simp add: abs_divide)
  also have "\<dots> \<le> 1 / 2 / c" using assms by (intro divide_right_mono) simp_all
  finally show ?thesis .
qed

text \<open>The relative error of one rounding is at most half a unit in the 53rd bit.\<close>

lemma double_of_error:
  assumes d: "0 < d" and n: "d \<le> n * 2 ^ 64"
  shows "\<bar>double_of n d - of_nat n / of_nat d\<bar> \<le> of_nat n / of_nat d / 2 ^ 53"
proof -
  define e where "e = floorlog 2 (n * 2 ^ 64 div d)"
  have pos: "0 < n * 2 ^ 64 div d" using d n by (simp add: div_greater_zero_iff)
  have "2 ^ (e - 1) \<le> n * 2 ^ 64 div d"
    using floorlog_bounds [of "n * 2 ^ 64 div d" 2] pos by (simp add: e_def)
  then have "2 ^ (e - 1) * d \<le> n * 2 ^ 64"
    using d by (simp add: less_eq_div_iff_mult_less_eq)
  then have "rat_of_nat (2 ^ (e - 1) * d) \<le> rat_of_nat (n * 2 ^ 64)" by (simp only: of_nat_le_iff)
  then have "(2 :: rat) ^ (e - 1) * of_nat d \<le> of_nat n * 2 ^ 64" by simp
  then have low: "2 ^ (e - 1) / 2 ^ 64 \<le> (of_nat n / of_nat d :: rat)"
    using d by (simp add: pos_le_divide_eq pos_divide_le_eq mult.commute)
  have e1: "1 \<le> e"
  proof -
    have "e \<noteq> 0" using pos by (simp add: e_def floorlog_eq_zero_iff)
    then show ?thesis by simp
  qed
  have n0: "n \<noteq> 0" using pos by (metis div_0 less_irrefl mult_0)
  show ?thesis
  proof (cases "e \<le> 117")
    case True
    let ?k = "117 - e"
    have val: "double_of n d = of_nat (round_half_even (n * 2 ^ ?k) d) / 2 ^ ?k"
      using True n0 by (simp add: double_of_def e_def Let_def)
    have "\<bar>of_nat (round_half_even (n * 2 ^ ?k) d) - of_nat (n * 2 ^ ?k) / of_nat d\<bar> \<le> (1 / 2 :: rat)"
      by (rule round_half_even_error [OF d])
    then have "\<bar>double_of n d - of_nat n / of_nat d\<bar> \<le> 1 / 2 / 2 ^ ?k"
      unfolding val by (intro scaled_error) simp_all
    also have "(1 / 2 / 2 ^ ?k :: rat) = 2 ^ (e - 1) / 2 ^ 64 / 2 ^ 53"
    proof -
      have "(2 :: rat) ^ ?k * 2 ^ (e - 1) = 2 ^ 116"
        using True e1 by (simp flip: power_add)
      then show ?thesis by (simp add: field_simps)
    qed
    also have "\<dots> \<le> of_nat n / of_nat d / 2 ^ 53"
      by (rule divide_right_mono [OF low]) simp
    finally show ?thesis .
  next
    case False
    let ?k = "e - 117"
    have val: "double_of n d = of_nat (round_half_even n (d * 2 ^ ?k)) * 2 ^ ?k"
      using False n0 by (simp add: double_of_def e_def Let_def)
    have "\<bar>of_nat (round_half_even n (d * 2 ^ ?k)) - of_nat n / of_nat (d * 2 ^ ?k)\<bar> \<le> (1 / 2 :: rat)"
      by (rule round_half_even_error) (simp add: d)
    then have "\<bar>of_nat (round_half_even n (d * 2 ^ ?k)) / (1 / 2 ^ ?k) - of_nat n / of_nat d\<bar>
        \<le> 1 / 2 / (1 / 2 ^ ?k :: rat)"
      by (intro scaled_error) simp_all
    then have "\<bar>double_of n d - of_nat n / of_nat d\<bar> \<le> 1 / 2 * 2 ^ ?k"
      unfolding val by simp
    also have "(1 / 2 * 2 ^ ?k :: rat) = 2 ^ (e - 1) / 2 ^ 64 / 2 ^ 53"
    proof -
      have "(2 :: rat) ^ ?k * 2 ^ 116 = 2 ^ (e - 1)"
        unfolding power_add [symmetric] using False by (intro arg_cong [where f = "\<lambda>k. 2 ^ k"]) simp
      then show ?thesis by (simp add: field_simps)
    qed
    also have "\<dots> \<le> of_nat n / of_nat d / 2 ^ 53"
      by (rule divide_right_mono [OF low]) simp
    finally show ?thesis .
  qed
qed

lemma double_of_zero [simp]: "double_of 0 d = 0"
  by (simp add: double_of_def)

text \<open>Integers below \<open>2 ^ 53\<close> are exact.\<close>

lemma double_of_integer:
  assumes "n < 2 ^ 53"
  shows "double_of n 1 = of_nat n"
proof (cases "n = 0")
  case False
  have "n * 2 ^ 64 < 2 ^ 117" using assms by simp
  then have "floorlog 2 (n * 2 ^ 64) \<le> 117" by (intro floorlog_leI) simp_all
  with False show ?thesis by (simp add: double_of_def)
qed simp

text \<open>Quotients that are integers are exact as well.\<close>

lemma double_of_multiple:
  assumes "0 < d"
  shows "double_of (b * d) d = double_of b 1"
proof -
  have quot: "b * d * 2 ^ 64 div d = b * 2 ^ 64"
    using assms by (metis mult.commute mult.assoc nonzero_mult_div_cancel_left less_irrefl)
  have rhe: "round_half_even (b * d * c) d = b * c" for c
    using assms by (simp add: round_half_even_def Let_def mult.assoc mult.left_commute [of b d])
  have rhe': "round_half_even (b * d) (d * c) = round_half_even b c" for c
    using assms by (simp add: round_half_even_def Let_def mult.commute [of b d])
  show ?thesis
    using assms by (simp add: double_of_def quot rhe rhe' Let_def)
qed

subsection \<open>Register words over a power of ten\<close>

text \<open>
  The operands of the decoders: a numerator of at most 32 bits, a divisor of at most 20.
  The decoded number is then within half a unit of the last decimal place of the quotient,
  so the raw numerator can be recovered and comparisons with integers are not disturbed.
\<close>

definition small_quotient :: "nat \<Rightarrow> nat \<Rightarrow> bool" where
  "small_quotient n d \<longleftrightarrow> n < 2 ^ 32 \<and> 0 < d \<and> d \<le> 2 ^ 20"

lemma double_of_gap:
  assumes "small_quotient n d"
  shows "\<bar>double_of n d * of_nat d - of_nat n\<bar> < 1 / 2"
proof (cases "n = 0")
  case False
  have d: "0 < d" "d \<le> n * 2 ^ 64" and n: "n < 2 ^ 32"
    using assms False by (auto simp: small_quotient_def Suc_le_eq intro: order_trans)
  have "double_of n d * of_nat d - of_nat n = (double_of n d - of_nat n / of_nat d) * of_nat d"
    using d(1) by (simp add: field_simps)
  then have "\<bar>double_of n d * of_nat d - of_nat n\<bar> = \<bar>double_of n d - of_nat n / of_nat d\<bar> * of_nat d"
    by (simp add: abs_mult)
  also have "\<dots> \<le> of_nat n / of_nat d / 2 ^ 53 * of_nat d"
    by (rule mult_right_mono [OF double_of_error [OF d]]) simp
  also have "\<dots> = of_nat n / 2 ^ 53" using d(1) by simp
  also have "\<dots> < (1 / 2 :: rat)"
  proof -
    have "rat_of_nat n < 2 ^ 32" using n by (metis of_nat_less_iff of_nat_numeral of_nat_power)
    then show ?thesis by simp
  qed
  finally show ?thesis .
qed simp

lemma double_of_gap_bounds:
  assumes "small_quotient n d"
  shows "of_nat n - 1 / 2 < double_of n d * of_nat d" and "double_of n d * of_nat d < of_nat n + 1 / 2"
  using double_of_gap [OF assms] by linarith+

text \<open>\<open>Math.round (value * 10 ** scale)\<close> gives the raw word back.\<close>

lemma double_of_recover:
  assumes "small_quotient n d"
  shows "nat \<lfloor>double_of n d * of_nat d + 1 / 2\<rfloor> = n"
proof -
  have "\<lfloor>double_of n d * of_nat d + 1 / 2\<rfloor> = int n"
    using double_of_gap_bounds [OF assms] by (intro floor_unique) simp_all
  then show ?thesis by simp
qed

lemma double_of_inject:
  assumes "small_quotient n d" and "small_quotient m d"
  shows "double_of n d = double_of m d \<longleftrightarrow> n = m"
  by (metis double_of_recover assms)

lemma double_of_compare:
  assumes q: "small_quotient n d" and b: "b < 2 ^ 53"
  shows "double_of n d \<le> of_nat b \<longleftrightarrow> n \<le> b * d" and "of_nat b \<le> double_of n d \<longleftrightarrow> b * d \<le> n"
proof -
  have d: "0 < rat_of_nat d" using q by (simp add: small_quotient_def)
  note gap = double_of_gap_bounds [OF q]
  have below: "double_of n d < of_nat b" if "n < b * d"
  proof -
    have "rat_of_nat n + 1 \<le> of_nat b * of_nat d"
      using that by (metis Suc_eq_plus1 Suc_leI of_nat_1 of_nat_add of_nat_le_iff of_nat_mult)
    with gap have "double_of n d * of_nat d < of_nat b * of_nat d" by linarith
    with d show ?thesis by simp
  qed
  have above: "of_nat b < double_of n d" if "b * d < n"
  proof -
    have "of_nat b * of_nat d + 1 \<le> rat_of_nat n"
      using that by (metis Suc_eq_plus1 Suc_leI of_nat_1 of_nat_add of_nat_le_iff of_nat_mult)
    with gap have "of_nat b * of_nat d < double_of n d * of_nat d" by linarith
    with d show ?thesis by simp
  qed
  have at: "double_of n d = of_nat b" if "n = b * d"
    using that d by (simp add: double_of_multiple double_of_integer [OF b] del: One_nat_def)
  show "double_of n d \<le> of_nat b \<longleftrightarrow> n \<le> b * d" and "of_nat b \<le> double_of n d \<longleftrightarrow> b * d \<le> n"
    using below above at by (cases n "b * d" rule: linorder_cases; force)+
qed

end
