(* ===== verification/Commands.thy ===== *)
theory Commands
  imports Crc JsNumber
begin

text \<open>
  The MODBUS requests of \<open>core/commands.ts\<close>: the three command classes with the frame their
  constructor builds, the checks on a response, and the bytes a response carries.
  A class instance is a constructor of \<open>command\<close>; its \<open>frame\<close> field is what the base
  constructor stores. Constructors that throw return \<open>Inl\<close>.
\<close>

unbundle bit_operations_syntax

subsection \<open>Constants (core/constants.ts)\<close>

definition MODBUS_UNIT_ADDRESS :: nat where "MODBUS_UNIT_ADDRESS = 1"
definition FC_READ_HOLDING_REGISTERS :: nat where "FC_READ_HOLDING_REGISTERS = 3"
definition FC_WRITE_SINGLE_REGISTER :: nat where "FC_WRITE_SINGLE_REGISTER = 6"
definition FC_WRITE_MULTIPLE_REGISTERS :: nat where "FC_WRITE_MULTIPLE_REGISTERS = 16"
definition MAX_READ_REGISTER_COUNT :: int where "MAX_READ_REGISTER_COUNT = 125"
definition MAX_WRITE_REGISTER_COUNT :: nat where "MAX_WRITE_REGISTER_COUNT = 123"
definition EXCEPTION_FLAG_MASK :: nat where "EXCEPTION_FLAG_MASK = 0x80"
definition EXCEPTION_FRAME_SIZE :: nat where "EXCEPTION_FRAME_SIZE = 5"
definition WRITE_ECHO_SIZE :: nat where "WRITE_ECHO_SIZE = 8"

lemmas command_constants = MODBUS_UNIT_ADDRESS_def FC_READ_HOLDING_REGISTERS_def
  FC_WRITE_SINGLE_REGISTER_def FC_WRITE_MULTIPLE_REGISTERS_def MAX_READ_REGISTER_COUNT_def
  MAX_WRITE_REGISTER_COUNT_def EXCEPTION_FLAG_MASK_def EXCEPTION_FRAME_SIZE_def WRITE_ECHO_SIZE_def

subsection \<open>Commands and their constructors\<close>

datatype command =
    ReadHoldingRegisters (startingAddress: nat) (quantity: nat) (frame: bytes)
  | WriteSingleRegister (startingAddress: nat) (reg_value: nat) (frame: bytes)
  | WriteMultipleRegisters (startingAddress: nat) (reg_data: bytes) (frame: bytes)

fun functionCode :: "command \<Rightarrow> nat" where
  "functionCode (ReadHoldingRegisters a q f) = FC_READ_HOLDING_REGISTERS"
| "functionCode (WriteSingleRegister a v f) = FC_WRITE_SINGLE_REGISTER"
| "functionCode (WriteMultipleRegisters a d f) = FC_WRITE_MULTIPLE_REGISTERS"

text \<open>The base constructor: unit address, function code, payload, checksum.\<close>

definition device_command_frame :: "nat \<Rightarrow> bytes \<Rightarrow> bytes" where
  "device_command_frame fc d = appendModbusCrc (of_nat MODBUS_UNIT_ADDRESS # of_nat fc # d)"

definition toBytes :: "command \<Rightarrow> bytes" where
  "toBytes c = frame c"

definition writeUint16BigEndian :: "bytes \<Rightarrow> nat \<Rightarrow> jsnum \<Rightarrow> bytes result" where
  "writeUint16BigEndian buffer offset v =
     (if \<not> is_js_integer v \<or> js_int v < 0 \<or> js_int v > 0xFFFF
      then Inl (RangeError ''Expected uint16 value'')
      else (let w = (of_int (js_int v) :: 32 word)
            in Inr (buffer[offset := ucast (signed_drop_bit 8 w AND 0xFF),
                           offset + 1 := ucast (w AND 0xFF)])))"

definition new_ReadHoldingRegisters :: "jsnum \<Rightarrow> jsnum \<Rightarrow> command result" where
  "new_ReadHoldingRegisters start q =
     (if \<not> is_js_integer q \<or> js_int q < 1 \<or> js_int q > MAX_READ_REGISTER_COUNT
      then Inl (RangeError ''Read quantity must be an integer from 1 to 125'')
      else rbind (writeUint16BigEndian (replicate 4 0) 0 start) (\<lambda>d.
           rbind (writeUint16BigEndian d 2 q) (\<lambda>d.
           Inr (ReadHoldingRegisters (nat (js_int start)) (nat (js_int q))
                  (device_command_frame FC_READ_HOLDING_REGISTERS d)))))"

definition new_WriteSingleRegister :: "jsnum \<Rightarrow> jsnum \<Rightarrow> command result" where
  "new_WriteSingleRegister a v =
     rbind (writeUint16BigEndian (replicate 4 0) 0 a) (\<lambda>d.
     rbind (writeUint16BigEndian d 2 v) (\<lambda>d.
     Inr (WriteSingleRegister (nat (js_int a)) (nat (js_int v))
            (device_command_frame FC_WRITE_SINGLE_REGISTER d))))"

definition new_WriteMultipleRegisters :: "jsnum \<Rightarrow> bytes \<Rightarrow> command result" where
  "new_WriteMultipleRegisters start d =
     (if length d mod 2 \<noteq> 0
      then Inl (PlainError ''Register payload size must be a multiple of 2'')
      else (let registerCount = length d div 2
            in if registerCount < 1 \<or> registerCount > MAX_WRITE_REGISTER_COUNT
               then Inl (RangeError ''Write quantity must be from 1 to 123 registers'')
               else rbind (writeUint16BigEndian (replicate (length d + 5) 0) 0 start) (\<lambda>body.
                    rbind (writeUint16BigEndian body 2 (Fin (of_nat registerCount))) (\<lambda>body.
                    Inr (WriteMultipleRegisters (nat (js_int start)) d
                      (device_command_frame FC_WRITE_MULTIPLE_REGISTERS
                        (take 5 (body[4 := of_nat (length d)]) @ d)))))))"

subsection \<open>Responses\<close>

fun responseSize :: "command \<Rightarrow> nat" where
  "responseSize (ReadHoldingRegisters a q f) = 2 * q + 5"
| "responseSize (WriteSingleRegister a v f) = WRITE_ECHO_SIZE"
| "responseSize (WriteMultipleRegisters a d f) = WRITE_ECHO_SIZE"

definition isExceptionResponse :: "command \<Rightarrow> bytes \<Rightarrow> bool" where
  "isExceptionResponse c r \<longleftrightarrow>
     length r = EXCEPTION_FRAME_SIZE \<and>
     map_option unat (js_get r 0) = Some MODBUS_UNIT_ADDRESS \<and>
     map_option unat (js_get r 1) = Some (functionCode c + EXCEPTION_FLAG_MASK) \<and>
     hasValidModbusCrc r"

text \<open>\<open>DeviceCommand.isValidResponse\<close>, which the subclasses extend.\<close>

definition base_isValidResponse :: "command \<Rightarrow> bytes \<Rightarrow> bool" where
  "base_isValidResponse c r \<longleftrightarrow>
     length r = responseSize c \<and>
     map_option unat (js_get r 0) = Some MODBUS_UNIT_ADDRESS \<and>
     map_option unat (js_get r 1) = Some (functionCode c) \<and>
     hasValidModbusCrc r"

definition echoes_request :: "command \<Rightarrow> bytes \<Rightarrow> bool" where
  "echoes_request c r \<longleftrightarrow>
     (let head = js_slice r 0 6
      in list_all (\<lambda>i. js_get head i = js_get (frame c) i) [0..<length head])"

fun isValidResponse :: "command \<Rightarrow> bytes \<Rightarrow> bool" where
  "isValidResponse (ReadHoldingRegisters a q f) r \<longleftrightarrow>
     base_isValidResponse (ReadHoldingRegisters a q f) r \<and>
     map_option unat (js_get r 2) = Some (q * 2)"
| "isValidResponse (WriteSingleRegister a v f) r \<longleftrightarrow>
     base_isValidResponse (WriteSingleRegister a v f) r \<and>
     echoes_request (WriteSingleRegister a v f) r"
| "isValidResponse (WriteMultipleRegisters a d f) r \<longleftrightarrow>
     base_isValidResponse (WriteMultipleRegisters a d f) r \<and>
     echoes_request (WriteMultipleRegisters a d f) r"

fun parseResponse :: "command \<Rightarrow> bytes \<Rightarrow> bytes" where
  "parseResponse (ReadHoldingRegisters a q f) r = js_slice r 3 (-2)"
| "parseResponse (WriteSingleRegister a v f) r = js_slice r 4 6"
| "parseResponse (WriteMultipleRegisters a d f) r = r"

subsection \<open>Construction\<close>

text \<open>The two bytes of a 16-bit number, and back.\<close>

definition hi_byte :: "nat \<Rightarrow> byte" where "hi_byte n = of_nat (n div 256)"
definition lo_byte :: "nat \<Rightarrow> byte" where "lo_byte n = of_nat (n mod 256)"

lemma unat_hi_lo: "n < 65536 \<Longrightarrow> unat (hi_byte n) * 256 + unat (lo_byte n) = n"
  by (simp add: hi_byte_def lo_byte_def unat_of_nat)

lemma hi_lo_inject: "\<lbrakk>m < 65536; n < 65536; hi_byte m = hi_byte n; lo_byte m = lo_byte n\<rbrakk> \<Longrightarrow> m = n"
  by (metis unat_hi_lo)

lemma hi_lo_of_bytes: "hi_byte (unat a * 256 + unat b) = a" "lo_byte (unat a * 256 + unat b) = b"
proof -
  have "unat b < 256" using unsigned_less [of b] by simp
  then show "hi_byte (unat a * 256 + unat b) = a" "lo_byte (unat a * 256 + unat b) = b"
    by (simp_all add: hi_byte_def lo_byte_def)
qed

text \<open>\<open>(value >> 8) & 0xff\<close> and \<open>value & 0xff\<close> are those bytes.\<close>

lemma signed_byte_of_number:
  assumes "n < 65536"
  shows "ucast (signed_drop_bit 8 (of_nat n :: 32 word) AND 0xFF) = hi_byte n"
proof -
  let ?c = "of_nat n :: 16 word"
  have u: "(of_nat n :: 32 word) = ucast ?c"
    using assms by (simp add: unsigned_of_nat take_bit_eq_mod)
  have n: "unat ?c = n" using assms by (simp add: unat_of_nat)
  have "crc_high ?c = hi_byte n"
    using assms
    by (intro word_unat_eq_iff [THEN iffD2])
       (simp add: crc_high_def hi_byte_def unsigned_ucast_eq unat_drop_bit_eq n drop_bit_eq_div
          unat_of_nat take_bit_eq_mod unat_div)
  then show ?thesis by (simp add: u and_0xFF crc_bytes_of_number)
qed

lemma low_byte_of_number: "ucast ((of_nat n :: 32 word) AND 0xFF) = lo_byte n"
proof -
  have "ucast (of_nat n :: 32 word) = (of_nat n :: byte)"
    by (simp add: unsigned_of_nat word_unat_eq_iff unat_of_nat take_bit_eq_mod mod_mod_cancel)
  moreover have "(of_nat n :: byte) = of_nat (n mod 256)"
    by (simp add: word_unat_eq_iff unat_of_nat)
  ultimately show ?thesis by (simp add: and_0xFF lo_byte_def)
qed

lemma writeUint16BigEndian_ok:
  assumes "n < 65536"
  shows "writeUint16BigEndian buf off (Fin (of_nat n)) = Inr (buf[off := hi_byte n, off + 1 := lo_byte n])"
proof -
  have "int n \<le> 0xFFFF" "(of_int (int n) :: 32 word) = of_nat n" using assms by simp_all
  moreover have "\<lfloor>(of_nat n :: rat)\<rfloor> = int n" by (metis floor_of_int of_int_of_nat_eq)
  ultimately show ?thesis
    using signed_byte_of_number [OF assms] low_byte_of_number [of n]
    by (simp add: writeUint16BigEndian_def Let_def del: of_int_of_nat_eq)
qed

lemma writeUint16BigEndian_cases:
  "(\<exists>n < 65536. v = Fin (of_nat n)) \<or>
   writeUint16BigEndian buf off v = Inl (RangeError ''Expected uint16 value'')"
proof (cases "is_js_integer v \<and> 0 \<le> js_int v \<and> js_int v \<le> 0xFFFF")
  case True
  then obtain i where i: "v = Fin (of_int i)" "0 \<le> i" "i \<le> 0xFFFF"
    by (auto simp: is_js_integer_cases)
  then have "v = Fin (of_nat (nat i)) \<and> nat i < 65536" by auto
  then show ?thesis by blast
qed (auto simp: writeUint16BigEndian_def)

text \<open>What the constructors build, on the values that pass their checks.\<close>

definition read_frame :: "nat \<Rightarrow> nat \<Rightarrow> bytes" where
  "read_frame a q = appendModbusCrc [1, 3, hi_byte a, lo_byte a, hi_byte q, lo_byte q]"

definition write_frame :: "nat \<Rightarrow> nat \<Rightarrow> bytes" where
  "write_frame a v = appendModbusCrc [1, 6, hi_byte a, lo_byte a, hi_byte v, lo_byte v]"

definition write_many_frame :: "nat \<Rightarrow> bytes \<Rightarrow> bytes" where
  "write_many_frame a d =
     appendModbusCrc ([1, 16, hi_byte a, lo_byte a, hi_byte (length d div 2), lo_byte (length d div 2),
                       of_nat (length d)] @ d)"

lemma device_command_frame_unfold:
  "device_command_frame FC_READ_HOLDING_REGISTERS d = appendModbusCrc (1 # 3 # d)"
  "device_command_frame FC_WRITE_SINGLE_REGISTER d = appendModbusCrc (1 # 6 # d)"
  "device_command_frame FC_WRITE_MULTIPLE_REGISTERS d = appendModbusCrc (1 # 16 # d)"
  by (simp_all add: device_command_frame_def command_constants)

lemma js_int_of_nat [simp]: "js_int (Fin (of_nat n)) = int n" "is_js_integer (Fin (of_nat n))"
  by simp_all

lemma list_update_numeral [simp]:
  "(x # xs)[numeral k := y] = x # xs[pred_numeral k := y]"
  by (simp add: numeral_eq_Suc)

lemma zero_bytes [simp]: "replicate 4 (0 :: byte) = [0, 0, 0, 0]"
  "replicate (n + 5) (0 :: byte) = 0 # 0 # 0 # 0 # 0 # replicate n 0"
  by (simp_all add: numeral_eq_Suc)

lemma new_ReadHoldingRegisters_ok:
  assumes "a < 65536" and "1 \<le> q" and "q \<le> 125"
  shows "new_ReadHoldingRegisters (Fin (of_nat a)) (Fin (of_nat q)) =
    Inr (ReadHoldingRegisters a q (read_frame a q))"
proof -
  have "q < 65536" "\<not> int q < 1" "\<not> int q > 125" using assms by simp_all
  with assms show ?thesis
    by (simp add: new_ReadHoldingRegisters_def MAX_READ_REGISTER_COUNT_def writeUint16BigEndian_ok
        device_command_frame_unfold read_frame_def del: is_js_integer.simps js_int.simps)
qed

lemma new_WriteSingleRegister_ok:
  assumes "a < 65536" and "v < 65536"
  shows "new_WriteSingleRegister (Fin (of_nat a)) (Fin (of_nat v)) =
    Inr (WriteSingleRegister a v (write_frame a v))"
  using assms
  by (simp add: new_WriteSingleRegister_def writeUint16BigEndian_ok
      device_command_frame_unfold write_frame_def del: is_js_integer.simps js_int.simps)

lemma new_WriteMultipleRegisters_ok:
  assumes "a < 65536" and "even (length d)" and "2 \<le> length d" and "length d \<le> 246"
  shows "new_WriteMultipleRegisters (Fin (of_nat a)) d =
    Inr (WriteMultipleRegisters a d (write_many_frame a d))"
proof -
  let ?n = "length d div 2"
  have n: "?n < 65536" "\<not> ?n < 1" "\<not> ?n > 123" using assms by auto
  show ?thesis
    using assms n
    by (simp add: new_WriteMultipleRegisters_def MAX_WRITE_REGISTER_COUNT_def writeUint16BigEndian_ok
        device_command_frame_unfold write_many_frame_def even_iff_mod_2_eq_zero Let_def
        del: is_js_integer.simps js_int.simps)
qed

text \<open>The constructors accept nothing else.\<close>

lemma writeUint16BigEndian_Inr:
  "writeUint16BigEndian buf off v = Inr d \<longleftrightarrow>
   (\<exists>n < 65536. v = Fin (of_nat n) \<and> d = buf[off := hi_byte n, off + 1 := lo_byte n])"
  using writeUint16BigEndian_cases [of v buf off] by (auto simp: writeUint16BigEndian_ok)

lemma read_quantity_range:
  "is_js_integer q \<and> \<not> js_int q < 1 \<and> \<not> js_int q > MAX_READ_REGISTER_COUNT \<longleftrightarrow>
   (\<exists>n. q = Fin (of_nat n) \<and> 1 \<le> n \<and> n \<le> 125)"
proof
  assume "is_js_integer q \<and> \<not> js_int q < 1 \<and> \<not> js_int q > MAX_READ_REGISTER_COUNT"
  then obtain i where "q = Fin (of_int i)" "1 \<le> i" "i \<le> 125"
    by (auto simp: is_js_integer_cases MAX_READ_REGISTER_COUNT_def)
  then show "\<exists>n. q = Fin (of_nat n) \<and> 1 \<le> n \<and> n \<le> 125"
    by (intro exI [of _ "nat i"]) auto
qed (auto simp: MAX_READ_REGISTER_COUNT_def)

lemma new_ReadHoldingRegisters_Inr:
  "new_ReadHoldingRegisters s q = Inr c \<longleftrightarrow>
   (\<exists>a n. s = Fin (of_nat a) \<and> q = Fin (of_nat n) \<and> a < 65536 \<and> 1 \<le> n \<and> n \<le> 125 \<and>
          c = ReadHoldingRegisters a n (read_frame a n))"
proof
  assume new: "new_ReadHoldingRegisters s q = Inr c"
  then have "is_js_integer q \<and> \<not> js_int q < 1 \<and> \<not> js_int q > MAX_READ_REGISTER_COUNT"
    by (simp add: new_ReadHoldingRegisters_def split: if_splits)
  then obtain n where n: "q = Fin (of_nat n)" "1 \<le> n" "n \<le> 125"
    using read_quantity_range by blast
  from new obtain a where "s = Fin (of_nat a)" "a < 65536"
    by (auto simp: new_ReadHoldingRegisters_def rbind_eq_Inr writeUint16BigEndian_Inr split: if_splits)
  with n new show "\<exists>a n. s = Fin (of_nat a) \<and> q = Fin (of_nat n) \<and> a < 65536 \<and> 1 \<le> n \<and> n \<le> 125 \<and>
          c = ReadHoldingRegisters a n (read_frame a n)"
    by (auto simp: new_ReadHoldingRegisters_ok)
qed (auto simp: new_ReadHoldingRegisters_ok)

lemma new_WriteSingleRegister_Inr:
  "new_WriteSingleRegister s v = Inr c \<longleftrightarrow>
   (\<exists>a n. s = Fin (of_nat a) \<and> v = Fin (of_nat n) \<and> a < 65536 \<and> n < 65536 \<and>
          c = WriteSingleRegister a n (write_frame a n))"
proof
  assume new: "new_WriteSingleRegister s v = Inr c"
  then obtain a n where "s = Fin (of_nat a)" "a < 65536" "v = Fin (of_nat n)" "n < 65536"
    by (auto simp: new_WriteSingleRegister_def rbind_eq_Inr writeUint16BigEndian_Inr)
  with new show "\<exists>a n. s = Fin (of_nat a) \<and> v = Fin (of_nat n) \<and> a < 65536 \<and> n < 65536 \<and>
          c = WriteSingleRegister a n (write_frame a n)"
    by (auto simp: new_WriteSingleRegister_ok)
qed (auto simp: new_WriteSingleRegister_ok)

lemma new_WriteMultipleRegisters_Inr:
  "new_WriteMultipleRegisters s d = Inr c \<longleftrightarrow>
   (\<exists>a. s = Fin (of_nat a) \<and> a < 65536 \<and> even (length d) \<and> 2 \<le> length d \<and> length d \<le> 246 \<and>
        c = WriteMultipleRegisters a d (write_many_frame a d))"
proof
  assume new: "new_WriteMultipleRegisters s d = Inr c"
  then have len: "length d mod 2 = 0 \<and> 1 \<le> length d div 2 \<and> length d div 2 \<le> 123"
    by (auto simp: new_WriteMultipleRegisters_def Let_def MAX_WRITE_REGISTER_COUNT_def split: if_splits)
  from new obtain a where "s = Fin (of_nat a)" "a < 65536"
    by (auto simp: new_WriteMultipleRegisters_def Let_def rbind_eq_Inr writeUint16BigEndian_Inr split: if_splits)
  moreover from len have "even (length d)" "2 \<le> length d" "length d \<le> 246" by presburger+
  ultimately show "\<exists>a. s = Fin (of_nat a) \<and> a < 65536 \<and> even (length d) \<and> 2 \<le> length d \<and> length d \<le> 246 \<and>
        c = WriteMultipleRegisters a d (write_many_frame a d)"
    using new by (auto simp: new_WriteMultipleRegisters_ok)
qed (auto simp: new_WriteMultipleRegisters_ok)

text \<open>A command object exists only through a constructor that returned.\<close>

inductive constructed :: "command \<Rightarrow> bool" where
  constructed_read: "new_ReadHoldingRegisters s q = Inr c \<Longrightarrow> constructed c"
| constructed_write: "new_WriteSingleRegister s v = Inr c \<Longrightarrow> constructed c"
| constructed_write_many: "new_WriteMultipleRegisters s d = Inr c \<Longrightarrow> constructed c"

inductive_simps constructed_iff: "constructed c"

lemma constructed_cases [consumes 1, case_names Read Write WriteMany]:
  assumes "constructed c"
  obtains a q where "c = ReadHoldingRegisters a q (read_frame a q)" "a < 65536" "1 \<le> q" "q \<le> 125"
  | a v where "c = WriteSingleRegister a v (write_frame a v)" "a < 65536" "v < 65536"
  | a d where "c = WriteMultipleRegisters a d (write_many_frame a d)" "a < 65536"
      "even (length d)" "2 \<le> length d" "length d \<le> 246"
  using assms
  by (auto simp: constructed_iff new_ReadHoldingRegisters_Inr new_WriteSingleRegister_Inr
      new_WriteMultipleRegisters_Inr)

subsection \<open>The interface: a request and its responses\<close>

text \<open>
  What the session relies on: how long the two kinds of responses are, the bytes that
  identify them, and that both carry a checksum.
\<close>

locale modbus_request =
  fixes wf :: "'c \<Rightarrow> bool" and fcode :: "'c \<Rightarrow> nat" and size_of :: "'c \<Rightarrow> nat"
    and exc :: "'c \<Rightarrow> bytes \<Rightarrow> bool" and ok :: "'c \<Rightarrow> bytes \<Rightarrow> bool"
  assumes size_min: "wf c \<Longrightarrow> 7 \<le> size_of c"
    and fcode_range: "wf c \<Longrightarrow> fcode c < 128"
    and ok_shape: "\<lbrakk>wf c; ok c r\<rbrakk> \<Longrightarrow>
      length r = size_of c \<and> unat (r ! 0) = 1 \<and> unat (r ! 1) = fcode c \<and> hasValidModbusCrc r"
    and exc_shape: "exc c r \<longleftrightarrow>
      length r = 5 \<and> unat (r ! 0) = 1 \<and> unat (r ! 1) = fcode c + 128 \<and> hasValidModbusCrc r"
begin

lemma ok_not_exc: "\<lbrakk>wf c; ok c r\<rbrakk> \<Longrightarrow> \<not> exc c r"
  using ok_shape exc_shape by fastforce

text \<open>No prefix of a valid response looks like an exception, whatever the fragmentation.\<close>

lemma ok_prefix_not_exc: "\<lbrakk>wf c; ok c (p @ s)\<rbrakk> \<Longrightarrow> \<not> exc c p"
proof
  assume wf: "wf c" and ok: "ok c (p @ s)" and exc: "exc c p"
  have "unat (p ! 1) = fcode c + 128" "length p = 5" using exc by (simp_all add: exc_shape)
  moreover have "unat ((p @ s) ! 1) = fcode c" using ok_shape [OF wf ok] by simp
  ultimately show False by (simp add: nth_append)
qed

lemma ok_prefix_short: "\<lbrakk>wf c; ok c (p @ s); s \<noteq> []\<rbrakk> \<Longrightarrow> length p < size_of c"
  using ok_shape [of c "p @ s"] by (cases s) simp_all

lemma exc_short: "\<lbrakk>wf c; exc c r\<rbrakk> \<Longrightarrow> length r < size_of c"
  using size_min [of c] by (simp add: exc_shape)

lemma exc_prefix_not_ok: "\<lbrakk>wf c; exc c (p @ s)\<rbrakk> \<Longrightarrow> \<not> ok c p"
  using exc_short [of c "p @ s"] ok_shape [of c p] by auto

end

lemma base_isValidResponse_of: "isValidResponse c r \<Longrightarrow> base_isValidResponse c r"
  by (cases c) simp_all

lemma js_get_eq_nth: "i < length xs \<Longrightarrow> js_get xs i = Some (xs ! i)"
  by (simp add: js_get_def)

lemma isExceptionResponse_iff:
  "isExceptionResponse c r \<longleftrightarrow>
   length r = 5 \<and> unat (r ! 0) = 1 \<and> unat (r ! 1) = functionCode c + 128 \<and> hasValidModbusCrc r"
  by (auto simp: isExceptionResponse_def command_constants js_get_eq_nth)

lemma base_isValidResponse_iff:
  "2 \<le> responseSize c \<Longrightarrow> base_isValidResponse c r \<longleftrightarrow>
   length r = responseSize c \<and> unat (r ! 0) = 1 \<and> unat (r ! 1) = functionCode c \<and> hasValidModbusCrc r"
  by (auto simp: base_isValidResponse_def command_constants js_get_eq_nth)

interpretation request: modbus_request constructed functionCode responseSize isExceptionResponse isValidResponse
proof unfold_locales
  fix c r
  show size: "7 \<le> responseSize c" if "constructed c"
    using that by (cases rule: constructed_cases) (simp_all add: command_constants)
  show "functionCode c < 128" if "constructed c"
    by (cases c) (simp_all add: command_constants)
  show "length r = responseSize c \<and> unat (r ! 0) = 1 \<and> unat (r ! 1) = functionCode c \<and> hasValidModbusCrc r"
    if "constructed c" and "isValidResponse c r"
    using base_isValidResponse_of [OF that(2)] base_isValidResponse_iff [of c r] size [OF that(1)] by simp
qed (rule isExceptionResponse_iff)

subsection \<open>Valid responses\<close>

lemma list_of_length_3: "length xs = n + 3 \<Longrightarrow> \<exists>ys. xs = xs ! 0 # xs ! 1 # xs ! 2 # ys \<and> length ys = n"
  by (cases xs; cases "tl xs"; cases "tl (tl xs)") auto

lemma unat_byte_eq: "n < 256 \<Longrightarrow> unat (b :: byte) = n \<longleftrightarrow> b = of_nat n"
  by (auto simp: word_unat_eq_iff unat_of_nat)

lemma read_valid_iff:
  assumes "1 \<le> q" and "q \<le> 125"
  shows "isValidResponse (ReadHoldingRegisters a q f) r \<longleftrightarrow>
    (\<exists>p. length p = 2 * q \<and> r = appendModbusCrc ([1, 3, of_nat (2 * q)] @ p))"
proof
  assume ok: "isValidResponse (ReadHoldingRegisters a q f) r"
  then have len: "length r = 2 * q + 5" and hd: "unat (r ! 0) = 1" "unat (r ! 1) = 3"
      and cnt: "unat (r ! 2) = q * 2" and "hasValidModbusCrc r"
    by (auto simp: base_isValidResponse_iff js_get_eq_nth command_constants)
  then have r: "r = appendModbusCrc (take (2 * q + 3) r)"
    using crc.check_body [of r] by (simp add: numeral_eq_Suc)
  have "length (take (2 * q + 3) r) = 2 * q + 3" using len by simp
  then obtain p where p: "take (2 * q + 3) r = r ! 0 # r ! 1 # r ! 2 # p" "length p = 2 * q"
    using list_of_length_3 [of "take (2 * q + 3) r" "2 * q"] by auto
  have "r ! 0 = 1" "r ! 1 = 3" "r ! 2 = of_nat (2 * q)"
    using hd cnt assms by (simp_all add: unat_byte_eq mult.commute)
  with r p show "\<exists>p. length p = 2 * q \<and> r = appendModbusCrc ([1, 3, of_nat (2 * q)] @ p)"
    by (intro exI [of _ p]) simp
next
  assume "\<exists>p. length p = 2 * q \<and> r = appendModbusCrc ([1, 3, of_nat (2 * q)] @ p)"
  then obtain p where p: "length p = 2 * q" "r = appendModbusCrc ([1, 3, of_nat (2 * q)] @ p)" by blast
  let ?b = "[1, 3, of_nat (2 * q)] @ p :: bytes"
  have "length r = 2 * q + 5" "hasValidModbusCrc r"
    using p crc.seal_length [of ?b] crc.check_seal [of ?b] by simp_all
  moreover have "r ! 0 = 1" "r ! 1 = 3" "r ! 2 = of_nat (2 * q)"
    using p crc.seal_nth [of 0 ?b] crc.seal_nth [of 1 ?b] crc.seal_nth [of 2 ?b] by simp_all
  moreover have "unat (of_nat (2 * q) :: byte) = 2 * q" using assms by (simp add: unat_of_nat del: of_nat_mult)
  ultimately show "isValidResponse (ReadHoldingRegisters a q f) r"
    by (simp add: base_isValidResponse_iff js_get_eq_nth command_constants mult.commute)
qed

lemma read_parse:
  "length p = 2 * q \<Longrightarrow>
   parseResponse (ReadHoldingRegisters a q f) (appendModbusCrc ([1, 3, n] @ p)) = p"
  using js_slice_drop_last2 [of "appendModbusCrc ([1, 3, n] @ p)" 3]
  by (simp add: appendModbusCrc_residue)

text \<open>An echo: eight bytes whose first six are the request's.\<close>

lemma echo_iff:
  assumes "length r = 8" and "6 \<le> length (frame c)"
  shows "echoes_request c r \<longleftrightarrow> take 6 r = take 6 (frame c)"
proof -
  have head: "js_slice r 0 6 = take 6 r" using js_slice_prefix [of r 6] by simp
  have "echoes_request c r \<longleftrightarrow> (\<forall>i < 6. r ! i = frame c ! i)"
    using assms by (auto simp: echoes_request_def head list_all_iff js_get_def)
  also have "\<dots> \<longleftrightarrow> take 6 r = take 6 (frame c)"
    using assms by (auto simp: list_eq_iff_nth_eq)
  finally show ?thesis .
qed

lemma echo_valid_iff:
  assumes hd: "frame c ! 0 = 1" "unat (frame c ! 1) = functionCode c"
    and len: "8 \<le> length (frame c)" and size: "responseSize c = 8"
  shows "base_isValidResponse c r \<and> echoes_request c r \<longleftrightarrow> r = appendModbusCrc (take 6 (frame c))"
proof
  assume ok: "base_isValidResponse c r \<and> echoes_request c r"
  then have l: "length r = 8" and "hasValidModbusCrc r" by (simp_all add: base_isValidResponse_iff size)
  then have "r = appendModbusCrc (take 6 r)"
    using crc.check_body [of r] by (simp add: numeral_eq_Suc)
  with ok l len show "r = appendModbusCrc (take 6 (frame c))" by (simp add: echo_iff)
next
  assume r: "r = appendModbusCrc (take 6 (frame c))"
  let ?b = "take 6 (frame c)"
  have b: "?b \<noteq> []" "length ?b = 6" using len by auto
  have "length r = 8" "hasValidModbusCrc r" "take 6 r = ?b"
    using r b crc.seal_length [of ?b] crc.check_seal [of ?b] crc.seal_prefix [of ?b] by simp_all
  moreover have "r ! 0 = 1" "r ! 1 = frame c ! 1"
    using r b hd crc.seal_nth [of 0 ?b] crc.seal_nth [of 1 ?b] by simp_all
  ultimately show "base_isValidResponse c r \<and> echoes_request c r"
    using size hd len by (simp add: base_isValidResponse_iff echo_iff)
qed

lemma sealed_frame:
  assumes "f = appendModbusCrc b" and "6 \<le> length b"
  shows "take 6 f = take 6 b" "f ! 0 = b ! 0" "f ! 1 = b ! 1" "8 \<le> length f"
proof -
  have "0 < length b" "1 < length b" using assms(2) by linarith+
  then show "f ! 0 = b ! 0" "f ! 1 = b ! 1" "8 \<le> length f"
    using assms by (simp_all add: crc.seal_nth crc.seal_length)
  have "take 6 f = take 6 (take (length b) f)" using assms(2) by simp
  then show "take 6 f = take 6 b" by (simp add: assms(1) crc.seal_prefix)
qed

lemma write_single_valid_iff:
  "isValidResponse (WriteSingleRegister a v (write_frame a v)) r \<longleftrightarrow> r = write_frame a v"
proof -
  let ?b = "[1, 6, hi_byte a, lo_byte a, hi_byte v, lo_byte v]"
  note f = sealed_frame [OF write_frame_def, of a v]
  show ?thesis
    using echo_valid_iff [of "WriteSingleRegister a v (write_frame a v)" r] f
    by (simp add: command_constants) (simp add: write_frame_def)
qed

lemma write_many_valid_iff:
  "isValidResponse (WriteMultipleRegisters a d (write_many_frame a d)) r \<longleftrightarrow>
   r = appendModbusCrc (take 6 (write_many_frame a d))"
  using echo_valid_iff [of "WriteMultipleRegisters a d (write_many_frame a d)" r]
    sealed_frame [OF write_many_frame_def, of a d]
  by (simp add: command_constants)

subsection \<open>Properties\<close>

text \<open>
  The three command constructors accept exactly the register counts, addresses and values
  the protocol allows (1 to 125 registers to read, 1 to 123 to write from an even payload,
  16-bit addresses and values, no fraction, no infinity, no NaN) and then store the frame the
  protocol prescribes: unit 1, the function code, big-endian numbers, the byte count and data
  where there is any, the checksum.
\<close>

theorem command_constructors:
  "(new_ReadHoldingRegisters s q = Inr c \<longleftrightarrow>
     (\<exists>a n. s = Fin (of_nat a) \<and> q = Fin (of_nat n) \<and> a < 65536 \<and> 1 \<le> n \<and> n \<le> 125 \<and>
        c = ReadHoldingRegisters a n
              (appendModbusCrc [1, 3, hi_byte a, lo_byte a, hi_byte n, lo_byte n]))) \<and>
   (new_WriteSingleRegister s q = Inr c \<longleftrightarrow>
     (\<exists>a n. s = Fin (of_nat a) \<and> q = Fin (of_nat n) \<and> a < 65536 \<and> n < 65536 \<and>
        c = WriteSingleRegister a n
              (appendModbusCrc [1, 6, hi_byte a, lo_byte a, hi_byte n, lo_byte n]))) \<and>
   (new_WriteMultipleRegisters s d = Inr c \<longleftrightarrow>
     (\<exists>a. s = Fin (of_nat a) \<and> a < 65536 \<and> even (length d) \<and> 2 \<le> length d \<and> length d \<le> 246 \<and>
        c = WriteMultipleRegisters a d
              (appendModbusCrc ([1, 16, hi_byte a, lo_byte a, hi_byte (length d div 2),
                                 lo_byte (length d div 2), of_nat (length d)] @ d))))"
  using new_ReadHoldingRegisters_Inr [of s q c] new_WriteSingleRegister_Inr [of s q c]
    new_WriteMultipleRegisters_Inr [of s d c]
  by (simp add: read_frame_def write_frame_def write_many_frame_def)

text \<open>
  C31: a read command accepts exactly the frames that carry twice its register count of data
  bytes under the right header and checksum, and \<open>parseResponse\<close> returns those data bytes; a
  write command accepts exactly the echo of its own request (for a multiple write, of the
  request's first six bytes under a fresh checksum).
\<close>

theorem valid_responses:
  assumes "constructed c"
  shows "isValidResponse c r \<longleftrightarrow>
    (case c of
       ReadHoldingRegisters a q f \<Rightarrow>
         (\<exists>p. length p = 2 * q \<and> r = appendModbusCrc ([1, 3, of_nat (2 * q)] @ p) \<and> parseResponse c r = p)
     | WriteSingleRegister a v f \<Rightarrow> r = toBytes c
     | WriteMultipleRegisters a d f \<Rightarrow> r = appendModbusCrc (take 6 (toBytes c)))"
  using assms
proof (cases rule: constructed_cases)
  case (Read a q)
  then have "isValidResponse c r \<longleftrightarrow>
      (\<exists>p. length p = 2 * q \<and> r = appendModbusCrc ([1, 3, of_nat (2 * q)] @ p))"
    using read_valid_iff [of q a "read_frame a q" r] by simp
  moreover have "parseResponse c (appendModbusCrc ([1, 3, of_nat (2 * q)] @ p)) = p"
    if "length p = 2 * q" for p
    using that Read read_parse [of p q a "read_frame a q"] by simp
  ultimately show ?thesis using Read(1) by (auto simp del: append.simps of_nat_mult)
next
  case (Write a v)
  then show ?thesis using write_single_valid_iff [of a v r] by (simp add: toBytes_def)
next
  case (WriteMany a d)
  then show ?thesis using write_many_valid_iff [of a d r] by (simp add: toBytes_def)
qed

lemma constructed_sample: "constructed (ReadHoldingRegisters 10 1 (read_frame 10 1))"
  using constructed_read [OF new_ReadHoldingRegisters_ok [of 10 1]] by simp

theorem valid_responses_witness:
  "isValidResponse (ReadHoldingRegisters 10 1 (read_frame 10 1)) (appendModbusCrc [1, 3, 2, 7, 9])"
  using valid_responses [OF constructed_sample, of "appendModbusCrc [1, 3, 2, 7, 9]"] read_parse [of "[7, 9]" 1 10 "read_frame 10 1" 2]
  by auto

text \<open>
  C32: while the bytes of a valid response come in, in whatever pieces, no prefix of them is
  taken for an exception frame, and every proper prefix is shorter than \<open>responseSize\<close>; an
  exception frame in turn is shorter than \<open>responseSize\<close> and is never a valid response.
\<close>

theorem response_prefix_unambiguous:
  assumes "constructed c"
  shows "(isValidResponse c (p @ s) \<longrightarrow>
            \<not> isExceptionResponse c p \<and> (s \<noteq> [] \<longrightarrow> length p < responseSize c)) \<and>
         (isExceptionResponse c r \<longrightarrow> length r < responseSize c \<and> \<not> isValidResponse c r)"
  using assms request.ok_prefix_not_exc request.ok_prefix_short request.exc_short request.ok_not_exc
  by blast

theorem response_prefix_unambiguous_witness:
  "\<not> isExceptionResponse (ReadHoldingRegisters 10 1 (read_frame 10 1)) [1, 3, 2, 7, 9] \<and>
   responseSize (ReadHoldingRegisters 10 1 (read_frame 10 1)) = 7"
proof -
  have "isValidResponse (ReadHoldingRegisters 10 1 (read_frame 10 1)) (appendModbusCrc [1, 3, 2, 7, 9])"
    using read_valid_iff [of 1 10 "read_frame 10 1"] by (auto intro: exI [of _ "[7, 9]"])
  then show ?thesis
    using response_prefix_unambiguous [OF constructed_sample, of "[1, 3, 2, 7, 9]" "drop 5 (appendModbusCrc [1, 3, 2, 7, 9])"]
    by (simp add: appendModbusCrc_residue)
qed

end
