(* ===== verification/RegisterFields.thy ===== *)
theory RegisterFields
  imports Commands
begin

text \<open>
  The register decoders of \<open>devices/field.ts\<close>: one constructor of \<open>device_field\<close> per subclass
  of \<open>DeviceField\<close>, with \<open>parse\<close> and \<open>isInRange\<close> by dispatch on it. A number is the exact value
  of the double it stands for, a \<open>bigint\<close> an integer, an enum definition the list of its
  entries in order.
\<close>

unbundle bit_operations_syntax

subsection \<open>Values and fields\<close>

text \<open>\<open>ParsedValue\<close> of \<open>core/types.ts\<close>.\<close>

datatype parsed_value =
    VBool bool
  | VNum rat
  | VStr string
  | VBigInt int
  | VNums "rat list"
  | VEnum string nat

type_synonym enum_definition = "(string \<times> nat) list"
type_synonym number_range = "(nat \<times> nat) option"

datatype device_field =
    UintField (field_name: string) (field_address: nat) number_range
  | BoolField (field_name: string) (field_address: nat)
  | EnumField (field_name: string) (field_address: nat) (enumDefinition: enum_definition)
  | DecimalField (field_name: string) (field_address: nat) nat number_range
  | DecimalArrayField (field_name: string) (field_address: nat) nat nat
  | StringField (field_name: string) (field_address: nat) nat
  | SwapStringField (field_name: string) (field_address: nat) nat
  | VersionField (field_name: string) (field_address: nat)
  | SerialNumberField (field_name: string) (field_address: nat)

fun field_size :: "device_field \<Rightarrow> nat" where
  "field_size (UintField n a r) = 1"
| "field_size (BoolField n a) = 1"
| "field_size (EnumField n a e) = 1"
| "field_size (DecimalField n a s r) = 1"
| "field_size (DecimalArrayField n a k s) = k"
| "field_size (StringField n a k) = k"
| "field_size (SwapStringField n a k) = k"
| "field_size (VersionField n a) = 2"
| "field_size (SerialNumberField n a) = 4"

definition UNKNOWN_ENUM_PREFIX :: string where "UNKNOWN_ENUM_PREFIX = ''UNKNOWN_''"
definition VERSION_DIVISOR :: nat where "VERSION_DIVISOR = 100"
definition VERSION_WORD_SHIFT :: nat where "VERSION_WORD_SHIFT = 0x10000"

subsection \<open>Decoding\<close>

fun enumValue :: "enum_definition \<Rightarrow> nat \<Rightarrow> string \<times> nat" where
  "enumValue [] raw = (UNKNOWN_ENUM_PREFIX @ decimal_string raw, raw)"
| "enumValue ((name, v) # rest) raw = (if v = raw then (name, v) else enumValue rest raw)"

definition readUint16BigEndian :: "bytes \<Rightarrow> nat \<Rightarrow> nat result" where
  "readUint16BigEndian d offset =
     (case (js_get d offset, js_get d (offset + 1)) of
        (Some high, Some low) \<Rightarrow>
          Inr (nat (sint (push_bit 8 (ucast high :: 32 word) OR ucast low)))
      | _ \<Rightarrow> Inl (RangeError ''Missing uint16 bytes at offset''))"

fun js_index_of :: "'a list \<Rightarrow> 'a \<Rightarrow> nat option" where
  "js_index_of [] x = None"
| "js_index_of (y # ys) x = (if y = x then Some 0 else map_option Suc (js_index_of ys x))"

definition readAscii :: "bytes \<Rightarrow> string" where
  "readAscii d =
     ascii_text (case js_index_of d 0 of Some terminatorIndex \<Rightarrow> js_slice d 0 (int terminatorIndex)
                 | None \<Rightarrow> d)"

function swap_loop :: "nat \<Rightarrow> bytes \<Rightarrow> bytes result" where
  "swap_loop i swapped =
     (if int i < int (length swapped) - 1
      then (case (js_get swapped i, js_get swapped (i + 1)) of
              (Some current, Some nxt) \<Rightarrow> swap_loop (i + 2) (swapped[i := nxt, i + 1 := current])
            | _ \<Rightarrow> Inl (RangeError ''Missing byte while swapping at offset''))
      else Inr swapped)"
  by pat_completeness auto
termination by (relation "measure (\<lambda>(i, xs). length xs - i)") auto

declare swap_loop.simps [simp del]

definition swapBytePairs :: "bytes \<Rightarrow> bytes result" where
  "swapBytePairs d = swap_loop 0 d"

definition read_decimal :: "bytes \<Rightarrow> nat \<Rightarrow> nat \<Rightarrow> rat result" where
  "read_decimal d offset scale =
     rbind (readUint16BigEndian d offset) (\<lambda>raw. Inr (double_of raw (10 ^ scale)))"

text \<open>The loop of \<open>DecimalArrayField.parse\<close>, counting up to \<open>n\<close> from \<open>i\<close>.\<close>

fun decimal_array_loop :: "bytes \<Rightarrow> nat \<Rightarrow> nat \<Rightarrow> nat \<Rightarrow> rat list result" where
  "decimal_array_loop d scale i 0 = Inr []"
| "decimal_array_loop d scale i (Suc n) =
     rbind (read_decimal d (i * 2) scale) (\<lambda>v.
     rbind (decimal_array_loop d scale (i + 1) n) (\<lambda>vs. Inr (v # vs)))"

fun field_parse :: "device_field \<Rightarrow> bytes \<Rightarrow> parsed_value result" where
  "field_parse (UintField n a r) d = rbind (readUint16BigEndian d 0) (\<lambda>v. Inr (VNum (of_nat v)))"
| "field_parse (BoolField n a) d = rbind (readUint16BigEndian d 0) (\<lambda>v. Inr (VBool (v = 1)))"
| "field_parse (EnumField n a e) d =
     rbind (readUint16BigEndian d 0) (\<lambda>v. case enumValue e v of (name, w) \<Rightarrow> Inr (VEnum name w))"
| "field_parse (DecimalField n a s r) d = rbind (read_decimal d 0 s) (\<lambda>v. Inr (VNum v))"
| "field_parse (DecimalArrayField n a k s) d =
     rbind (decimal_array_loop d s 0 k) (\<lambda>vs. Inr (VNums vs))"
| "field_parse (StringField n a k) d = Inr (VStr (readAscii d))"
| "field_parse (SwapStringField n a k) d =
     rbind (swapBytePairs d) (\<lambda>swapped. Inr (VStr (readAscii swapped)))"
| "field_parse (VersionField n a) d =
     rbind (readUint16BigEndian d 0) (\<lambda>low.
     rbind (readUint16BigEndian d 2) (\<lambda>high.
     Inr (VNum (double_of (low + high * VERSION_WORD_SHIFT) VERSION_DIVISOR))))"
| "field_parse (SerialNumberField n a) d =
     rbind (readUint16BigEndian d 0) (\<lambda>word0.
     rbind (readUint16BigEndian d 2) (\<lambda>word1.
     rbind (readUint16BigEndian d 4) (\<lambda>word2.
     rbind (readUint16BigEndian d 6) (\<lambda>word3.
     Inr (VBigInt (int word0 + push_bit 16 (int word1) + push_bit 32 (int word2) +
                   push_bit 48 (int word3)))))))"

definition in_number_range :: "number_range \<Rightarrow> parsed_value \<Rightarrow> bool" where
  "in_number_range r v =
     (case r of None \<Rightarrow> True
      | Some (lo, hi) \<Rightarrow> (case v of VNum x \<Rightarrow> of_nat lo \<le> x \<and> x \<le> of_nat hi | _ \<Rightarrow> False))"

fun isInRange :: "device_field \<Rightarrow> parsed_value \<Rightarrow> bool" where
  "isInRange (UintField n a r) v = in_number_range r v"
| "isInRange (DecimalField n a s r) v = in_number_range r v"
| "isInRange _ v = True"

subsection \<open>Registers\<close>

text \<open>The specification side: a payload is the big-endian encoding of a list of registers.\<close>

definition register_bytes :: "nat list \<Rightarrow> bytes" where
  "register_bytes ws = concat (map (\<lambda>w. [hi_byte w, lo_byte w]) ws)"

fun registers :: "bytes \<Rightarrow> nat list" where
  "registers (h # l # rest) = (unat h * 256 + unat l) # registers rest"
| "registers _ = []"

lemma register_bytes_simps [simp]:
  "register_bytes [] = []"
  "register_bytes (w # ws) = hi_byte w # lo_byte w # register_bytes ws"
  by (simp_all add: register_bytes_def)

lemma register_bytes_append: "register_bytes (us @ ws) = register_bytes us @ register_bytes ws"
  by (simp add: register_bytes_def)

lemma length_register_bytes [simp]: "length (register_bytes ws) = 2 * length ws"
  by (induction ws) simp_all

lemma register_bytes_slice:
  "take (2 * k) (drop (2 * a) (register_bytes ws)) = register_bytes (take k (drop a ws))"
proof -
  have "drop (2 * a) (register_bytes ws) = register_bytes (drop a ws) \<and>
        take (2 * a) (register_bytes ws) = register_bytes (take a ws)" for a and ws :: "nat list"
  proof (induction ws arbitrary: a)
    case (Cons w ws)
    then show ?case by (cases a) simp_all
  qed simp
  then show ?thesis by simp
qed

lemma unat_byte_less: "unat (b :: byte) < 256"
proof -
  have "unat b < 2 ^ LENGTH(8)" by (rule unsigned_less)
  then show ?thesis by simp
qed

lemma registers_bounded: "w \<in> set (registers d) \<Longrightarrow> w < 65536"
proof (induction d rule: registers.induct)
  case (1 h l rest)
  have "unat h < 256" "unat l < 256" by (rule unat_byte_less)+
  with 1 show ?case by auto
qed simp_all

lemma length_registers: "length (registers d) = length d div 2"
  by (induction d rule: registers.induct) simp_all

lemma register_bytes_registers: "even (length d) \<Longrightarrow> register_bytes (registers d) = d"
  by (induction d rule: registers.induct) (simp_all add: hi_lo_of_bytes)

lemma registers_register_bytes: "\<forall>w \<in> set ws. w < 65536 \<Longrightarrow> registers (register_bytes ws) = ws"
  by (induction ws) (simp_all add: unat_hi_lo)

lemma even_bytes_cases:
  assumes "even (length d)"
  obtains ws where "d = register_bytes ws" "length ws = length d div 2" "\<forall>w \<in> set ws. w < 65536"
  using that [of "registers d"] assms register_bytes_registers [of d] length_registers [of d]
    registers_bounded [of _ d] by auto

lemma nth_register_bytes:
  "i < length ws \<Longrightarrow> register_bytes ws ! (2 * i) = hi_byte (ws ! i)"
  "i < length ws \<Longrightarrow> register_bytes ws ! (2 * i + 1) = lo_byte (ws ! i)"
  by (induction ws arbitrary: i) (auto simp: less_Suc_eq_0_disj)

lemma uint16_word:
  "nat (sint (push_bit 8 (ucast h :: 32 word) OR ucast l)) = unat (h :: byte) * 256 + unat (l :: byte)"
proof -
  have b: "unat h * 256 + unat l < 65536" using unat_byte_less [of h] unat_byte_less [of l] by simp
  have "push_bit 8 (ucast h :: 32 word) OR ucast l = push_bit 8 (ucast h) + ucast l"
    by (rule disjunctive_add [symmetric])
      (auto simp: bit_push_bit_iff bit_ucast_iff not_bit_byte)
  also have "\<dots> = of_nat (unat h * 256 + unat l)"
    by (simp add: push_bit_eq_mult unsigned_ucast_eq word_unat_eq_iff unat_word_ariths unat_of_nat
        take_bit_eq_mod)
  finally have w: "push_bit 8 (ucast h :: 32 word) OR ucast l = of_nat (unat h * 256 + unat l)" .
  have "sint (of_nat n :: 32 word) = int n" if "n < 65536" for n
    using that by (simp add: signed_of_nat signed_take_bit_int_eq_self_iff)
  with b have "sint (of_nat (unat h * 256 + unat l) :: 32 word) = int (unat h * 256 + unat l)" by blast
  then show ?thesis unfolding w by (simp only: nat_int)
qed

lemma readUint16_registers:
  assumes "i < length ws" and "\<forall>w \<in> set ws. w < 65536"
  shows "readUint16BigEndian (register_bytes ws) (2 * i) = Inr (ws ! i)"
  using assms nth_register_bytes [of i ws] unat_hi_lo [of "ws ! i"]
  by (simp add: readUint16BigEndian_def js_get_def uint16_word)

lemma readUint16_short: "length d < offset + 2 \<Longrightarrow>
  readUint16BigEndian d offset = Inl (RangeError ''Missing uint16 bytes at offset'')"
  by (auto simp: readUint16BigEndian_def js_get_def split: option.splits)

subsection \<open>Strings\<close>

lemma readAscii_takeWhile: "readAscii d = ascii_text (takeWhile (\<lambda>b. b \<noteq> 0) d)"
proof -
  have none: "js_index_of d x = None \<Longrightarrow> takeWhile (\<lambda>b. b \<noteq> x) d = d" for x :: byte and d
    by (induction d) (auto split: if_splits)
  have some: "js_index_of d x = Some i \<Longrightarrow> takeWhile (\<lambda>b. b \<noteq> x) d = take i d" for x :: byte and d i
    by (induction d arbitrary: i) (auto split: if_splits)
  show ?thesis
    by (auto simp: readAscii_def js_slice_prefix none some split: option.split)
qed

fun swap_pairs :: "'a list \<Rightarrow> 'a list" where
  "swap_pairs (x # y # rest) = y # x # swap_pairs rest"
| "swap_pairs xs = xs"

lemma swap_pairs_involution [simp]: "swap_pairs (swap_pairs xs) = xs"
  by (induction xs rule: swap_pairs.induct) simp_all

lemma swap_loop_pairs: "i \<le> length xs \<Longrightarrow> swap_loop i xs = Inr (take i xs @ swap_pairs (drop i xs))"
proof (induction i xs rule: swap_loop.induct)
  case (1 i xs)
  show ?case
  proof (cases "Suc i < length xs")
    case True
    then have get: "js_get xs i = Some (xs ! i)" "js_get xs (i + 1) = Some (xs ! Suc i)"
      by (simp_all add: js_get_def)
    let ?ys = "xs[i := xs ! Suc i, Suc i := xs ! i]"
    have "swap_loop i xs = swap_loop (i + 2) ?ys"
      using True by (subst swap_loop.simps) (simp add: js_get_def)
    also have "\<dots> = Inr (take (i + 2) ?ys @ swap_pairs (drop (i + 2) ?ys))"
      using True using 1(1) [OF _ refl get] by simp
    also have "take (i + 2) ?ys = take i xs @ [xs ! Suc i, xs ! i]"
      using True by (intro nth_equalityI) (auto simp: nth_append nth_list_update less_Suc_eq nth_Cons')
    also have "drop (i + 2) ?ys = drop (Suc (Suc i)) xs"
      by simp
    finally show ?thesis
      using True by (simp add: Cons_nth_drop_Suc [symmetric])
  next
    case False
    then have "drop i xs = [] \<or> (\<exists>x. drop i xs = [x])"
      using 1(2) by (cases "drop i xs"; cases "tl (drop i xs)") (auto dest: arg_cong [of _ _ length])
    then have "swap_pairs (drop i xs) = drop i xs" by auto
    then show ?thesis using False by (subst swap_loop.simps) simp
  qed
qed

lemma swapBytePairs_pairs: "swapBytePairs d = Inr (swap_pairs d)"
  by (simp add: swapBytePairs_def swap_loop_pairs)

lemma swap_pairs_register_bytes:
  "swap_pairs (register_bytes ws) = concat (map (\<lambda>w. [lo_byte w, hi_byte w]) ws)"
  by (induction ws) simp_all

subsection \<open>What the decoders compute\<close>

text \<open>The specification of a decoder on the registers of its window.\<close>

fun field_value :: "device_field \<Rightarrow> nat list \<Rightarrow> parsed_value" where
  "field_value (UintField n a r) ws = VNum (of_nat (ws ! 0))"
| "field_value (BoolField n a) ws = VBool (ws ! 0 = 1)"
| "field_value (EnumField n a e) ws =
     (case find (\<lambda>(name, v). v = ws ! 0) e of
        Some (name, v) \<Rightarrow> VEnum name (ws ! 0)
      | None \<Rightarrow> VEnum (UNKNOWN_ENUM_PREFIX @ decimal_string (ws ! 0)) (ws ! 0))"
| "field_value (DecimalField n a s r) ws = VNum (double_of (ws ! 0) (10 ^ s))"
| "field_value (DecimalArrayField n a k s) ws = VNums (map (\<lambda>w. double_of w (10 ^ s)) ws)"
| "field_value (StringField n a k) ws =
     VStr (ascii_text (takeWhile (\<lambda>b. b \<noteq> 0) (concat (map (\<lambda>w. [hi_byte w, lo_byte w]) ws))))"
| "field_value (SwapStringField n a k) ws =
     VStr (ascii_text (takeWhile (\<lambda>b. b \<noteq> 0) (concat (map (\<lambda>w. [lo_byte w, hi_byte w]) ws))))"
| "field_value (VersionField n a) ws = VNum (double_of (ws ! 0 + ws ! 1 * 65536) 100)"
| "field_value (SerialNumberField n a) ws =
     VBigInt (int (ws ! 0) + int (ws ! 1) * 2 ^ 16 + int (ws ! 2) * 2 ^ 32 + int (ws ! 3) * 2 ^ 48)"

lemma enumValue_find:
  "enumValue e raw = (case find (\<lambda>(name, v). v = raw) e of
     Some (name, v) \<Rightarrow> (name, raw)
   | None \<Rightarrow> (UNKNOWN_ENUM_PREFIX @ decimal_string raw, raw))"
  by (induction e raw rule: enumValue.induct) auto

lemma decimal_array_registers:
  assumes "\<forall>w \<in> set ws. w < 65536"
  shows "i + n = length ws \<Longrightarrow> decimal_array_loop (register_bytes ws) s i n =
    Inr (map (\<lambda>w. double_of w (10 ^ s)) (drop i ws))"
proof (induction n arbitrary: i)
  case (Suc n)
  then have i: "i < length ws" and tail: "drop i ws = ws ! i # drop (i + 1) ws"
    by (simp_all add: Cons_nth_drop_Suc)
  show ?case
    using Suc readUint16_registers [OF i assms] unfolding tail
    by (simp add: read_decimal_def mult.commute)
qed simp

lemma field_parse_register_bytes:
  assumes len: "length ws = field_size f" and bd: "\<forall>w \<in> set ws. w < 65536"
  shows "field_parse f (register_bytes ws) = Inr (field_value f ws)"
proof -
  have read: "readUint16BigEndian (register_bytes ws) (2 * i) = Inr (ws ! i)" if "i < field_size f" for i
    using that len bd by (intro readUint16_registers) simp_all
  note r = read [of 0] read [of 1] read [of 2] read [of 3]
  show ?thesis
  proof (cases f)
    case (EnumField n a e)
    with r show ?thesis by (auto simp: enumValue_find split: option.split prod.split)
  next
    case (DecimalArrayField n a k s)
    with len bd decimal_array_registers [of ws 0 k s] show ?thesis by simp
  next
    case (StringField n a k)
    then show ?thesis by (simp add: readAscii_takeWhile register_bytes_def)
  next
    case (SwapStringField n a k)
    then show ?thesis by (simp add: swapBytePairs_pairs swap_pairs_register_bytes readAscii_takeWhile)
  qed (use r in \<open>simp_all add: read_decimal_def VERSION_WORD_SHIFT_def VERSION_DIVISOR_def push_bit_eq_mult\<close>)
qed

subsection \<open>The interface: a register decoder\<close>

text \<open>What \<open>DeviceStruct\<close> relies on: a decoder returns on every payload of its size.\<close>

locale register_decoder =
  fixes size_of :: "'f \<Rightarrow> nat" and decode :: "'f \<Rightarrow> bytes \<Rightarrow> 'v result"
    and val :: "'f \<Rightarrow> nat list \<Rightarrow> 'v"
  assumes decode_registers: "\<lbrakk>length ws = size_of f; \<forall>w \<in> set ws. w < 65536\<rbrakk> \<Longrightarrow>
    decode f (register_bytes ws) = Inr (val f ws)"
begin

text \<open>Cutting the window out of a longer payload and decoding it reads those registers.\<close>

lemma decode_window:
  assumes "\<forall>w \<in> set ws. w < 65536" and "k + size_of f \<le> length ws"
  shows "decode f (js_slice (register_bytes ws) (int (k * 2)) (int (k * 2 + size_of f * 2))) =
    Inr (val f (take (size_of f) (drop k ws)))"
proof -
  have "js_slice (register_bytes ws) (int (k * 2)) (int (k * 2 + size_of f * 2)) =
      register_bytes (take (size_of f) (drop k ws))"
    unfolding js_slice_nonneg register_bytes_slice [symmetric] by (simp add: mult.commute)
  moreover have "\<forall>w \<in> set (take (size_of f) (drop k ws)). w < 65536"
    using assms(1) by (meson in_set_dropD in_set_takeD)
  ultimately show ?thesis using assms(2) decode_registers by simp
qed

end

interpretation field: register_decoder field_size field_parse field_value
  by unfold_locales (rule field_parse_register_bytes)

subsection \<open>Properties\<close>

text \<open>
  C36: every decoder, given the bytes of as many registers as its size says, returns (it never
  throws) and computes its register-level meaning: the unsigned word, the flag, the first enum
  entry with that value or \<open>UNKNOWN_\<close> and the number, the correctly rounded quotient by the
  power of ten, the text up to the first zero byte in either byte order, the two-word
  version over 100, the four-word serial number, low word first.
\<close>

theorem field_parse_refines:
  assumes "length ws = field_size f" and "\<forall>w \<in> set ws. w < 65536"
  shows "field_parse f (register_bytes ws) = Inr (field_value f ws)"
  by (rule field.decode_registers [OF assms])

theorem field_parse_refines_witness:
  "field_parse (SerialNumberField ''serial_number'' 17) (register_bytes [7, 1, 0, 2]) =
     Inr (VBigInt (7 + 2 ^ 16 + 2 ^ 49))"
  using field_parse_refines [of "[7, 1, 0, 2]" "SerialNumberField ''serial_number'' 17"] by simp

text \<open>
  No telemetry is lost to floating point: a decimal field of scale at most six publishes a
  double from which rounding to the nearest integer multiple recovers the register exactly,
  and its plausibility range, compared as doubles, accepts exactly the registers between the
  scaled bounds.
\<close>

theorem decimal_field_exact:
  assumes "s \<le> 6" and "w < 65536" and "lo < 65536" and "hi < 65536"
  shows "\<exists>v. field_parse (DecimalField n a s (Some (lo, hi))) (register_bytes [w]) = Inr (VNum v) \<and>
    nat \<lfloor>v * 10 ^ s + 1 / 2\<rfloor> = w \<and>
    (isInRange (DecimalField n a s (Some (lo, hi))) (VNum v) \<longleftrightarrow> lo * 10 ^ s \<le> w \<and> w \<le> hi * 10 ^ s)"
proof -
  have "(10 :: nat) ^ s \<le> 10 ^ 6" using assms(1) by (intro power_increasing) simp_all
  then have q: "small_quotient w (10 ^ s)" using assms(2) by (simp add: small_quotient_def)
  have b: "lo < 2 ^ 53" "hi < 2 ^ 53" using assms by simp_all
  show ?thesis
    using field_parse_register_bytes [of "[w]" "DecimalField n a s (Some (lo, hi))"] assms
      double_of_recover [OF q] double_of_compare [OF q b(1)] double_of_compare [OF q b(2)]
    by (simp add: in_number_range_def)
qed

theorem decimal_field_exact_witness:
  "\<exists>v. field_parse (DecimalField ''ac_input_frequency'' 80 2 (Some (0, 100))) (register_bytes [5003]) =
      Inr (VNum v) \<and> nat \<lfloor>v * 10 ^ 2 + 1 / 2\<rfloor> = 5003"
  using decimal_field_exact [of 2 5003 0 100 "''ac_input_frequency''" 80] by auto

end
