(* ===== verification/Struct.thy ===== *)
theory Struct
  imports RegisterFields
begin

text \<open>
  \<open>DeviceStruct\<close> of \<open>devices/struct.ts\<close>: the ordered list of fields a model declares, the
  builder methods, each of which pushes one field, and \<open>parse\<close>, which decodes every field
  whose registers lie inside the window that was read.
\<close>

type_synonym device_struct = "device_field list"
type_synonym parsed_field_map = "(string \<times> parsed_value) list"

subsection \<open>Builders\<close>

definition new_DeviceStruct :: device_struct where "new_DeviceStruct = []"

definition addMany :: "device_field list \<Rightarrow> device_struct \<Rightarrow> device_struct" where
  "addMany fields st = foldl (\<lambda>acc f. acc @ [f]) st fields"

definition addUintField :: "string \<Rightarrow> nat \<Rightarrow> number_range \<Rightarrow> device_struct \<Rightarrow> device_struct" where
  "addUintField name address bounds st = st @ [UintField name address bounds]"

definition addBoolField :: "string \<Rightarrow> nat \<Rightarrow> device_struct \<Rightarrow> device_struct" where
  "addBoolField name address st = st @ [BoolField name address]"

definition addEnumField :: "string \<Rightarrow> nat \<Rightarrow> enum_definition \<Rightarrow> device_struct \<Rightarrow> device_struct" where
  "addEnumField name address e st = st @ [EnumField name address e]"

definition addDecimalField ::
  "string \<Rightarrow> nat \<Rightarrow> nat \<Rightarrow> number_range \<Rightarrow> device_struct \<Rightarrow> device_struct" where
  "addDecimalField name address scale bounds st = st @ [DecimalField name address scale bounds]"

definition addDecimalArrayField ::
  "string \<Rightarrow> nat \<Rightarrow> nat \<Rightarrow> nat \<Rightarrow> device_struct \<Rightarrow> device_struct" where
  "addDecimalArrayField name address count scale st = st @ [DecimalArrayField name address count scale]"

definition addStringField :: "string \<Rightarrow> nat \<Rightarrow> nat \<Rightarrow> device_struct \<Rightarrow> device_struct" where
  "addStringField name address count st = st @ [StringField name address count]"

definition addSwapStringField :: "string \<Rightarrow> nat \<Rightarrow> nat \<Rightarrow> device_struct \<Rightarrow> device_struct" where
  "addSwapStringField name address count st = st @ [SwapStringField name address count]"

definition addVersionField :: "string \<Rightarrow> nat \<Rightarrow> device_struct \<Rightarrow> device_struct" where
  "addVersionField name address st = st @ [VersionField name address]"

definition addSerialNumberField :: "string \<Rightarrow> nat \<Rightarrow> device_struct \<Rightarrow> device_struct" where
  "addSerialNumberField name address st = st @ [SerialNumberField name address]"

lemma addMany_append [simp]: "addMany fields st = st @ fields"
  unfolding addMany_def by (induction fields arbitrary: st) simp_all

lemmas struct_builder_defs [model_defs] = new_DeviceStruct_def addUintField_def addBoolField_def
  addEnumField_def addDecimalField_def addDecimalArrayField_def addStringField_def
  addSwapStringField_def addVersionField_def addSerialNumberField_def

subsection \<open>Parsing\<close>

text \<open>The condition under which the loop does not \<open>continue\<close>.\<close>

definition field_in_window :: "nat \<Rightarrow> nat \<Rightarrow> device_field \<Rightarrow> bool" where
  "field_in_window start registerCount f =
     (\<not> (field_address f < start \<or>
          field_address f + field_size f > start + registerCount))"

fun parse_loop :: "nat \<Rightarrow> bytes \<Rightarrow> device_field list \<Rightarrow> parsed_field_map \<Rightarrow> parsed_field_map result" where
  "parse_loop start d [] parsed = Inr parsed"
| "parse_loop start d (f # fs) parsed =
     (if \<not> field_in_window start (length d div 2) f
      then parse_loop start d fs parsed
      else (let byteStart = (field_address f - start) * 2;
                byteEnd = byteStart + field_size f * 2
            in rbind (field_parse f (js_slice d (int byteStart) (int byteEnd))) (\<lambda>v.
               parse_loop start d fs
                 (if isInRange f v then obj_set (field_name f) v parsed else parsed))))"

definition struct_parse :: "device_struct \<Rightarrow> nat \<Rightarrow> bytes \<Rightarrow> parsed_field_map result" where
  "struct_parse st start d =
     (if length d mod 2 \<noteq> 0 then Inl (RangeError ''Register data length must be even'')
      else parse_loop start d st [])"

subsection \<open>What a parse yields\<close>

text \<open>
  The registers of a field in a window that starts at \<open>start\<close>, and the value the field
  contributes: none when the window does not cover it or the range rejects it.
\<close>

definition field_contribution :: "nat \<Rightarrow> nat list \<Rightarrow> device_field \<Rightarrow> parsed_value option" where
  "field_contribution start ws f =
     (if start \<le> field_address f \<and> field_address f + field_size f \<le> start + length ws
      then (let v = field_value f (take (field_size f) (drop (field_address f - start) ws))
            in if isInRange f v then Some v else None)
      else None)"

definition contribute ::
  "nat \<Rightarrow> nat list \<Rightarrow> device_field \<Rightarrow> parsed_field_map \<Rightarrow> parsed_field_map" where
  "contribute start ws f m =
     (case field_contribution start ws f of None \<Rightarrow> m | Some v \<Rightarrow> obj_set (field_name f) v m)"

lemma parse_loop_contributes:
  assumes "\<forall>w \<in> set ws. w < 65536"
  shows "parse_loop start (register_bytes ws) fs m = Inr (fold (contribute start ws) fs m)"
proof (induction fs arbitrary: m)
  case (Cons f fs)
  show ?case
  proof (cases "start \<le> field_address f \<and> field_address f + field_size f \<le> start + length ws")
    case True
    let ?k = "field_address f - start"
    have "field_parse f (js_slice (register_bytes ws) (int (?k * 2)) (int (?k * 2 + field_size f * 2))) =
        Inr (field_value f (take (field_size f) (drop ?k ws)))"
      using True by (intro field.decode_window assms) auto
    with True Cons show ?thesis
      by (simp add: field_in_window_def Let_def contribute_def field_contribution_def
          del: of_nat_mult of_nat_add)
  next
    case False
    with Cons show ?thesis
      by (auto simp: field_in_window_def contribute_def field_contribution_def)
  qed
qed simp

lemma struct_parse_registers:
  assumes "\<forall>w \<in> set ws. w < 65536"
  shows "struct_parse st start (register_bytes ws) = Inr (fold (contribute start ws) st [])"
  by (simp add: struct_parse_def parse_loop_contributes [OF assms])

lemma map_of_contribute:
  "map_of (contribute start ws f m) n =
   (case field_contribution start ws f of
      Some v \<Rightarrow> if field_name f = n then Some v else map_of m n
    | None \<Rightarrow> map_of m n)"
  by (auto simp: contribute_def split: option.split)

text \<open>A name keeps the value of the last field that contributes under it.\<close>

lemma map_of_contributions:
  "map_of (fold (contribute start ws) fs m) n =
   (case filter (\<lambda>f. field_name f = n \<and> field_contribution start ws f \<noteq> None) fs of
      [] \<Rightarrow> map_of m n
    | g # gs \<Rightarrow> field_contribution start ws (last (g # gs)))"
proof (induction fs rule: rev_induct)
  case (snoc f fs)
  then show ?case
    by (cases "filter (\<lambda>f. field_name f = n \<and> field_contribution start ws f \<noteq> None) fs")
      (auto simp: map_of_contribute split: option.split)
qed simp

lemma contributions_distinct:
  assumes "distinct (map field_name fs)" and "f \<in> set fs"
  shows "map_of (fold (contribute start ws) fs []) (field_name f) = field_contribution start ws f"
proof -
  have "filter (\<lambda>g. field_name g = field_name f \<and> P g) fs = (if P f then [f] else [])" for P
    using assms by (induction fs) (auto simp: filter_empty_conv image_iff)
  then show ?thesis by (simp add: map_of_contributions)
qed

lemma contributions_names:
  "map_of (fold (contribute start ws) fs []) n = Some v \<Longrightarrow> \<exists>f \<in> set fs. field_name f = n"
proof (induction fs arbitrary: v rule: rev_induct)
  case (snoc f fs)
  then show ?case by (auto simp: map_of_contribute split: option.splits if_splits)
qed simp

lemma distinct_contributions:
  "distinct (map fst m) \<Longrightarrow> distinct (map fst (fold (contribute start ws) fs m))"
  by (induction fs arbitrary: m) (auto simp: contribute_def distinct_update split: option.split)

subsection \<open>Properties\<close>

text \<open>
  C35: \<open>DeviceStruct.parse\<close> returns on every payload of even length (and throws a
  \<open>RangeError\<close> on the others); a name of the result holds the value of the last declared field
  of that name whose registers lie inside the window read and whose plausibility range accepts
  the value, and a name without such a field is absent.
\<close>

theorem struct_parse_correct:
  "if odd (length d) then struct_parse st start d = Inl (RangeError ''Register data length must be even'')
   else \<exists>m. struct_parse st start d = Inr m \<and> distinct (map fst m) \<and>
     (\<forall>n. map_of m n =
       (case filter (\<lambda>f. field_name f = n \<and> field_contribution start (registers d) f \<noteq> None) st of
          [] \<Rightarrow> None
        | g # gs \<Rightarrow> field_contribution start (registers d) (last (g # gs))))"
proof (cases "odd (length d)")
  case False
  then have "register_bytes (registers d) = d" by (simp add: register_bytes_registers)
  moreover have "\<forall>w \<in> set (registers d). w < 65536" using registers_bounded by blast
  ultimately have "struct_parse st start d = Inr (fold (contribute start (registers d)) st [])"
    using struct_parse_registers by metis
  with False show ?thesis
    by (simp add: map_of_contributions distinct_contributions cong: list.case_cong)
qed (simp add: struct_parse_def odd_iff_mod_2_eq_one)

end
