(* ===== verification/Models.thy ===== *)
theory Models
  imports Struct
begin

text \<open>
  The enum tables of \<open>devices/enums.ts\<close>, the shared field groups and the register layouts of
  the seven product families of \<open>devices/device-builders.ts\<close>. A builder chain is the list of its
  calls in order.
\<close>

subsection \<open>Enums\<close>

definition OutputMode :: enum_definition where
  "OutputMode = [(''STOP'', 0), (''INVERTER_OUTPUT'', 1), (''BYPASS_OUTPUT_C'', 2), (''BYPASS_OUTPUT_D'', 3), (''LOAD_MATCHING'', 4)]"

definition BatteryState :: enum_definition where
  "BatteryState = [(''STANDBY'', 0), (''CHARGE'', 1), (''DISCHARGE'', 2)]"

definition UpsMode :: enum_definition where
  "UpsMode = [(''CUSTOMIZED'', 1), (''PV_PRIORITY'', 2), (''STANDARD'', 3), (''TIME_CONTROL'', 4)]"

definition MachineAddress :: enum_definition where
  "MachineAddress = [(''SLAVE'', 0), (''MASTER'', 1)]"

definition AutoSleepMode :: enum_definition where
  "AutoSleepMode = [(''THIRTY_SECONDS'', 2), (''ONE_MINUTE'', 3), (''FIVE_MINUTES'', 4), (''NEVER'', 5)]"

definition LedMode :: enum_definition where
  "LedMode = [(''LOW'', 1), (''HIGH'', 2), (''SOS'', 3), (''OFF'', 4)]"

definition EcoShutdown :: enum_definition where
  "EcoShutdown = [(''ONE_HOUR'', 1), (''TWO_HOURS'', 2), (''THREE_HOURS'', 3), (''FOUR_HOURS'', 4)]"

definition ChargingMode :: enum_definition where
  "ChargingMode = [(''STANDARD'', 0), (''SILENT'', 1), (''TURBO'', 2)]"

lemmas enum_defs [model_defs] = OutputMode_def BatteryState_def UpsMode_def MachineAddress_def AutoSleepMode_def LedMode_def EcoShutdown_def ChargingMode_def

subsection \<open>Shared field groups\<close>

definition CORE :: "device_field list" where
  "CORE =
    [StringField ''device_type'' 10 6,
     SerialNumberField ''serial_number'' 17,
     VersionField ''arm_version'' 23,
     VersionField ''dsp_version'' 25,
     UintField ''dc_input_power'' 36 None,
     UintField ''ac_input_power'' 37 None,
     UintField ''ac_output_power'' 38 None,
     UintField ''dc_output_power'' 39 None,
     UintField ''total_battery_percent'' 43 None,
     BoolField ''ac_output_on'' 48,
     BoolField ''dc_output_on'' 49,
     UintField ''pack_num_max'' 91 None]"

definition CONTROL :: "device_field list" where
  "CONTROL =
    [EnumField ''ups_mode'' 3001 UpsMode,
     BoolField ''split_phase_on'' 3004,
     EnumField ''split_phase_machine_mode'' 3005 MachineAddress,
     UintField ''pack_num'' 3006 None,
     BoolField ''ac_output_on'' 3007,
     BoolField ''dc_output_on'' 3008,
     BoolField ''grid_charge_on'' 3011,
     BoolField ''time_control_on'' 3013,
     UintField ''battery_range_start'' 3015 None,
     UintField ''battery_range_end'' 3016 None,
     BoolField ''bluetooth_connected'' 3036,
     EnumField ''auto_sleep_mode'' 3061 AutoSleepMode]"

subsection \<open>The register layouts\<close>

definition chain :: "(device_struct \<Rightarrow> device_struct) list \<Rightarrow> device_struct" where
  "chain calls = foldl (\<lambda>st call. call st) new_DeviceStruct calls"

definition buildAc200mStruct :: device_struct where
  "buildAc200mStruct = chain
    [addMany CORE,
     addDecimalField ''power_generation'' 41 1 None,
     addEnumField ''ac_output_mode'' 70 OutputMode,
     addUintField ''internal_ac_voltage'' 71 None,
     addDecimalField ''internal_current_one'' 72 1 None,
     addUintField ''internal_power_one'' 73 None,
     addDecimalField ''internal_ac_frequency'' 74 1 None,
     addUintField ''internal_dc_input_voltage'' 86 None,
     addDecimalField ''internal_dc_input_power'' 87 1 None,
     addDecimalField ''internal_dc_input_current'' 88 2 None,
     addDecimalField ''total_battery_voltage'' 92 2 None,
     addUintField ''pack_num'' 96 None,
     addDecimalField ''pack_voltage'' 98 2 None,
     addUintField ''pack_battery_percent'' 99 None,
     addDecimalArrayField ''cell_voltages'' 105 16 2,
     addUintField ''pack_num'' 3006 None,
     addBoolField ''ac_output_on'' 3007,
     addBoolField ''dc_output_on'' 3008,
     addBoolField ''power_off'' 3060,
     addEnumField ''auto_sleep_mode'' 3061 AutoSleepMode]"

definition buildAc300Struct :: device_struct where
  "buildAc300Struct = chain
    [addMany CORE,
     addDecimalField ''power_generation'' 41 1 None,
     addEnumField ''ac_output_mode'' 70 OutputMode,
     addDecimalField ''internal_ac_voltage'' 71 1 None,
     addDecimalField ''internal_current_one'' 72 1 None,
     addUintField ''internal_power_one'' 73 None,
     addDecimalField ''internal_ac_frequency'' 74 2 None,
     addDecimalField ''internal_current_two'' 75 1 None,
     addUintField ''internal_power_two'' 76 None,
     addDecimalField ''ac_input_voltage'' 77 1 None,
     addDecimalField ''internal_current_three'' 78 1 (Some (0, 100)),
     addUintField ''internal_power_three'' 79 None,
     addDecimalField ''ac_input_frequency'' 80 2 None,
     addDecimalField ''aux_dc_voltage'' 83 1 None,
     addDecimalField ''aux_dc_current'' 84 1 None,
     addUintField ''aux_dc_power'' 85 None,
     addDecimalField ''internal_dc_input_voltage'' 86 1 None,
     addUintField ''internal_dc_input_power'' 87 None,
     addDecimalField ''internal_dc_input_current'' 88 1 (Some (0, 15)),
     addDecimalField ''total_battery_voltage'' 92 1 None,
     addDecimalField ''total_battery_current'' 93 1 None,
     addUintField ''pack_num'' 96 None,
     addEnumField ''pack_status'' 97 BatteryState,
     addDecimalField ''pack_voltage'' 98 2 None,
     addUintField ''pack_battery_percent'' 99 None,
     addDecimalArrayField ''cell_voltages'' 105 16 2,
     addVersionField ''pack_bms_version'' 201,
     addDecimalField ''dc_input_1_voltage'' 163 1 None,
     addUintField ''dc_input_1_power'' 165 None,
     addDecimalField ''dc_input_2_voltage'' 170 1 None,
     addUintField ''dc_input_2_power'' 172 None,
     addMany CONTROL]"

definition buildAc500Struct :: device_struct where
  "buildAc500Struct = chain
    [addMany CORE,
     addDecimalField ''power_generation'' 41 1 None,
     addEnumField ''ac_output_mode'' 70 OutputMode,
     addDecimalField ''internal_ac_voltage'' 71 1 None,
     addDecimalField ''internal_current_one'' 72 1 None,
     addUintField ''internal_power_one'' 73 None,
     addDecimalField ''internal_ac_frequency'' 74 2 None,
     addDecimalField ''internal_current_two'' 75 1 None,
     addUintField ''internal_power_two'' 76 None,
     addDecimalField ''ac_input_voltage'' 77 1 None,
     addDecimalField ''internal_current_three'' 78 1 None,
     addUintField ''internal_power_three'' 79 None,
     addDecimalField ''ac_input_frequency'' 80 2 None,
     addDecimalField ''aux_dc_voltage'' 83 1 None,
     addDecimalField ''aux_dc_current'' 84 1 None,
     addUintField ''aux_dc_power'' 85 None,
     addDecimalField ''internal_dc_input_voltage'' 86 1 None,
     addUintField ''internal_dc_input_power'' 87 None,
     addDecimalField ''internal_dc_input_current'' 88 1 None,
     addDecimalField ''total_battery_voltage'' 92 1 None,
     addDecimalField ''total_battery_current'' 93 1 None,
     addUintField ''pack_num'' 96 None,
     addDecimalField ''pack_voltage'' 98 2 None,
     addUintField ''pack_battery_percent'' 99 None,
     addDecimalArrayField ''cell_voltages'' 105 16 2,
     addDecimalField ''dc_input_1_voltage'' 163 1 None,
     addUintField ''dc_input_1_power'' 165 None,
     addDecimalField ''dc_input_2_voltage'' 170 1 None,
     addUintField ''dc_input_2_power'' 172 None,
     addMany CONTROL]"

definition buildAc60Struct :: device_struct where
  "buildAc60Struct = chain
    [addUintField ''total_battery_percent'' 102 None,
     addSwapStringField ''device_type'' 110 6,
     addSerialNumberField ''serial_number'' 116,
     addDecimalField ''power_generation'' 154 1 None,
     addSwapStringField ''device_type'' 1101 6,
     addSerialNumberField ''serial_number'' 1107,
     addDecimalField ''power_generation'' 1202 1 None,
     addSwapStringField ''battery_type'' 6101 6,
     addSerialNumberField ''battery_serial_number'' 6107,
     addVersionField ''bcu_version'' 6175]"

definition buildEb3aStruct :: device_struct where
  "buildEb3aStruct = chain
    [addMany CORE,
     addDecimalField ''ac_input_voltage'' 77 1 None,
     addDecimalField ''internal_dc_input_voltage'' 86 2 None,
     addBoolField ''ac_output_on'' 3007,
     addBoolField ''dc_output_on'' 3008,
     addEnumField ''led_mode'' 3034 LedMode,
     addBoolField ''power_off'' 3060,
     addBoolField ''eco_on'' 3063,
     addEnumField ''eco_shutdown'' 3064 EcoShutdown,
     addEnumField ''charging_mode'' 3065 ChargingMode,
     addBoolField ''power_lifting_on'' 3066]"

definition buildEp500Struct :: device_struct where
  "buildEp500Struct = chain
    [addMany CORE,
     addDecimalField ''power_generation'' 41 1 None,
     addEnumField ''ac_output_mode'' 70 OutputMode,
     addDecimalField ''internal_ac_voltage'' 71 1 None,
     addDecimalField ''internal_current_one'' 72 1 None,
     addUintField ''internal_power_one'' 73 None,
     addDecimalField ''internal_ac_frequency'' 74 2 None,
     addDecimalField ''internal_current_two'' 75 1 None,
     addUintField ''internal_power_two'' 76 None,
     addDecimalField ''ac_input_voltage'' 77 1 None,
     addDecimalField ''internal_current_three'' 78 1 None,
     addUintField ''internal_power_three'' 79 None,
     addDecimalField ''ac_input_frequency'' 80 2 None,
     addDecimalField ''internal_dc_input_voltage'' 86 1 None,
     addUintField ''internal_dc_input_power'' 87 None,
     addDecimalField ''internal_dc_input_current'' 88 1 (Some (0, 15)),
     addDecimalField ''total_battery_voltage'' 92 1 None,
     addDecimalField ''pack_voltage'' 92 1 None,
     addUintField ''pack_battery_percent'' 94 None,
     addUintField ''pack_num'' 96 None,
     addDecimalArrayField ''cell_voltages'' 105 16 2,
     addMany CONTROL]"

definition buildEp600Struct :: device_struct where
  "buildEp600Struct = chain
    [addUintField ''total_battery_percent'' 102 None,
     addSwapStringField ''device_type'' 110 6,
     addSerialNumberField ''serial_number'' 116,
     addDecimalField ''power_generation'' 154 1 None,
     addSwapStringField ''device_type'' 1101 6,
     addSerialNumberField ''serial_number'' 1107,
     addDecimalField ''power_generation'' 1202 1 None,
     addUintField ''battery_range_start'' 2022 None,
     addUintField ''battery_range_end'' 2023 None,
     addUintField ''max_ac_input_power'' 2213 None,
     addUintField ''max_ac_input_current'' 2214 None,
     addUintField ''max_ac_output_power'' 2215 None,
     addUintField ''max_ac_output_current'' 2216 None,
     addSwapStringField ''battery_type'' 6101 6,
     addSerialNumberField ''battery_serial_number'' 6107,
     addVersionField ''bcu_version'' 6175,
     addVersionField ''bmu_version'' 6178,
     addVersionField ''safety_module_version'' 6181,
     addVersionField ''high_voltage_module_version'' 6184]"

lemmas struct_defs [model_defs] = chain_def CORE_def CONTROL_def
  buildAc200mStruct_def buildAc300Struct_def buildAc500Struct_def buildAc60Struct_def buildEb3aStruct_def buildEp500Struct_def buildEp600Struct_def

end
