(* ===== verification/Definitions.thy ===== *)
theory Definitions
  imports Models "HOL-Library.Code_Target_Nat"
begin

text \<open>
  The product table of \<open>devices/definition.ts\<close> and the device object built from an entry: the
  read commands of each family, its writable register ranges and its register layout.
  A command of the table is what its constructor returns; \<open>definitions_load\<close> shows that none
  of them throws when the module is loaded. The getters of \<open>BluettiDeviceModel\<close> (and of its
  base class, where the model does not override them) are functions of the device.
\<close>

subsection \<open>Writable ranges (core/types.ts)\<close>

record writable_range =
  range_start :: nat
  endExclusive :: nat

definition isAddressWritable :: "nat \<Rightarrow> writable_range list \<Rightarrow> bool" where
  "isAddressWritable address ranges =
     list_ex (\<lambda>r. address \<ge> range_start r \<and> address < endExclusive r) ranges"

subsection \<open>The table\<close>

record device_definition =
  def_type :: string
  def_packNumMax :: nat
  def_pollingCommands :: "command list"
  def_packPollingCommands :: "command list option"
  def_loggingCommands :: "command list"
  def_packLoggingCommands :: "command list option"
  def_writableRanges :: "writable_range list option"
  def_buildStruct :: device_struct

definition read_window :: "nat \<Rightarrow> nat \<Rightarrow> command" where
  "read_window a q = projr (new_ReadHoldingRegisters (Fin (of_nat a)) (Fin (of_nat q)))"

lemma read_window_ok:
  "\<lbrakk>a < 65536; 1 \<le> q; q \<le> 125\<rbrakk> \<Longrightarrow> read_window a q = ReadHoldingRegisters a q (read_frame a q)"
  by (simp add: read_window_def new_ReadHoldingRegisters_ok)

definition AC200M_definition :: device_definition where
  "AC200M_definition = \<lparr>
     def_type = ''AC200M'',
     def_packNumMax = 3,
     def_pollingCommands = [read_window 10 40, read_window 70 21, read_window 3001 61],
     def_packPollingCommands = Some [read_window 91 37],
     def_loggingCommands = [read_window 0 70, read_window 70 21, read_window 3001 61],
     def_packLoggingCommands = Some [read_window 91 119],
     def_writableRanges = Some [\<lparr>range_start = 3000, endExclusive = 3062\<rparr>],
     def_buildStruct = buildAc200mStruct\<rparr>"

definition AC300_definition :: device_definition where
  "AC300_definition = \<lparr>
     def_type = ''AC300'',
     def_packNumMax = 4,
     def_pollingCommands = [read_window 10 40, read_window 70 90, read_window 160 46,
        read_window 3001 61],
     def_packPollingCommands = Some [read_window 91 37],
     def_loggingCommands = [read_window 0 70, read_window 70 90, read_window 160 46,
        read_window 3000 62],
     def_packLoggingCommands = Some [read_window 91 119],
     def_writableRanges = Some [\<lparr>range_start = 3000, endExclusive = 3062\<rparr>],
     def_buildStruct = buildAc300Struct\<rparr>"

definition AC500_definition :: device_definition where
  "AC500_definition = \<lparr>
     def_type = ''AC500'',
     def_packNumMax = 6,
     def_pollingCommands = [read_window 10 40, read_window 70 90, read_window 160 46,
        read_window 3001 61],
     def_packPollingCommands = Some [read_window 91 37],
     def_loggingCommands = [read_window 0 70, read_window 70 90, read_window 160 46,
        read_window 3000 62],
     def_packLoggingCommands = Some [read_window 91 119],
     def_writableRanges = Some [\<lparr>range_start = 3000, endExclusive = 3062\<rparr>],
     def_buildStruct = buildAc500Struct\<rparr>"

definition AC60_definition :: device_definition where
  "AC60_definition = \<lparr>
     def_type = ''AC60'',
     def_packNumMax = 1,
     def_pollingCommands = [read_window 100 62],
     def_packPollingCommands = None,
     def_loggingCommands = [read_window 100 62, read_window 1100 51, read_window 1200 90,
        read_window 1300 31, read_window 1400 48, read_window 1500 30, read_window 2000 67,
        read_window 2200 29, read_window 6000 31, read_window 6100 100, read_window 6300 52],
     def_packLoggingCommands = None,
     def_writableRanges = None,
     def_buildStruct = buildAc60Struct\<rparr>"

definition EB3A_definition :: device_definition where
  "EB3A_definition = \<lparr>
     def_type = ''EB3A'',
     def_packNumMax = 1,
     def_pollingCommands = [read_window 10 40, read_window 70 21, read_window 3034 1,
        read_window 3060 7],
     def_packPollingCommands = None,
     def_loggingCommands = [read_window 10 53, read_window 70 66, read_window 136 74,
        read_window 3000 67],
     def_packLoggingCommands = None,
     def_writableRanges = Some [\<lparr>range_start = 3000, endExclusive = 3067\<rparr>],
     def_buildStruct = buildEb3aStruct\<rparr>"

definition EP500_definition :: device_definition where
  "EP500_definition = \<lparr>
     def_type = ''EP500'',
     def_packNumMax = 1,
     def_pollingCommands = [read_window 10 40, read_window 70 21, read_window 3001 61],
     def_packPollingCommands = Some [read_window 91 37],
     def_loggingCommands = [read_window 0 70, read_window 70 21, read_window 3001 61],
     def_packLoggingCommands = Some [read_window 91 119],
     def_writableRanges = Some [\<lparr>range_start = 3000, endExclusive = 3062\<rparr>],
     def_buildStruct = buildEp500Struct\<rparr>"

definition EP500P_definition :: device_definition where
  "EP500P_definition = \<lparr>
     def_type = ''EP500P'',
     def_packNumMax = 1,
     def_pollingCommands = [read_window 10 40, read_window 70 21, read_window 3001 61],
     def_packPollingCommands = Some [read_window 91 37],
     def_loggingCommands = [read_window 0 70, read_window 70 21, read_window 3001 61],
     def_packLoggingCommands = Some [read_window 91 119],
     def_writableRanges = Some [\<lparr>range_start = 3000, endExclusive = 3062\<rparr>],
     def_buildStruct = buildEp500Struct\<rparr>"

definition EP600_definition :: device_definition where
  "EP600_definition = \<lparr>
     def_type = ''EP600'',
     def_packNumMax = 1,
     def_pollingCommands = [read_window 100 62, read_window 2022 2],
     def_packPollingCommands = None,
     def_loggingCommands = [read_window 100 62, read_window 1100 51, read_window 1200 90,
        read_window 1300 31, read_window 1400 48, read_window 1500 30, read_window 2000 89,
        read_window 2200 41, read_window 2300 36, read_window 6000 32, read_window 6100 100,
        read_window 6300 100],
     def_packLoggingCommands = None,
     def_writableRanges = None,
     def_buildStruct = buildEp600Struct\<rparr>"

definition BLUETTI_DEFINITIONS :: "device_definition list" where
  "BLUETTI_DEFINITIONS =
    [AC200M_definition,
     AC300_definition,
     AC500_definition,
     AC60_definition,
     EB3A_definition,
     EP500_definition,
     EP500P_definition,
     EP600_definition]"

lemmas definition_defs [model_defs] = BLUETTI_DEFINITIONS_def
  AC200M_definition_def AC300_definition_def AC500_definition_def AC60_definition_def EB3A_definition_def EP500_definition_def EP500P_definition_def EP600_definition_def

text \<open>\<open>new Map(entries)\<close>: a later entry of the same key replaces the earlier one.\<close>

definition BLUETTI_DEFINITION_MAP :: "(string \<times> device_definition) list" where
  "BLUETTI_DEFINITION_MAP =
     foldl (\<lambda>m d. obj_set (def_type d) d m) [] BLUETTI_DEFINITIONS"

subsection \<open>Devices\<close>

record bluetti_device =
  dev_address :: string
  dev_type :: string
  dev_serialNumber :: string
  dev_struct :: device_struct
  dev_def :: device_definition

definition new_BluettiDeviceModel :: "string \<Rightarrow> string \<Rightarrow> device_definition \<Rightarrow> bluetti_device" where
  "new_BluettiDeviceModel address serial d =
     \<lparr>dev_address = address, dev_type = def_type d, dev_serialNumber = serial,
      dev_struct = def_buildStruct d, dev_def = d\<rparr>"

definition packNumMax :: "bluetti_device \<Rightarrow> nat" where
  "packNumMax dev = def_packNumMax (dev_def dev)"

definition pollingCommands :: "bluetti_device \<Rightarrow> command list" where
  "pollingCommands dev = def_pollingCommands (dev_def dev)"

definition packPollingCommands :: "bluetti_device \<Rightarrow> command list" where
  "packPollingCommands dev = (case def_packPollingCommands (dev_def dev) of None \<Rightarrow> [] | Some cs \<Rightarrow> cs)"

definition loggingCommands :: "bluetti_device \<Rightarrow> command list" where
  "loggingCommands dev = def_loggingCommands (dev_def dev)"

definition packLoggingCommands :: "bluetti_device \<Rightarrow> command list" where
  "packLoggingCommands dev = (case def_packLoggingCommands (dev_def dev) of None \<Rightarrow> [] | Some cs \<Rightarrow> cs)"

definition writableRanges :: "bluetti_device \<Rightarrow> writable_range list" where
  "writableRanges dev = (case def_writableRanges (dev_def dev) of None \<Rightarrow> [] | Some rs \<Rightarrow> rs)"

definition fastPollingCommands :: "bluetti_device \<Rightarrow> command list" where
  "fastPollingCommands dev = js_slice (pollingCommands dev) 0 1"

definition slowPollingCommands :: "bluetti_device \<Rightarrow> command list" where
  "slowPollingCommands dev =
     js_slice (pollingCommands dev) (int (length (fastPollingCommands dev)))
       (int (length (pollingCommands dev)))"

lemmas device_getter_defs [model_defs] = packNumMax_def pollingCommands_def packPollingCommands_def
  loggingCommands_def packLoggingCommands_def writableRanges_def

text \<open>The fast window and the rest are the whole cycle.\<close>

lemma fast_slow_append: "fastPollingCommands dev @ slowPollingCommands dev = pollingCommands dev"
proof -
  have fast: "fastPollingCommands dev = take 1 (pollingCommands dev)"
    using js_slice_prefix [of "pollingCommands dev" 1] by (simp add: fastPollingCommands_def)
  have "slowPollingCommands dev = drop (length (fastPollingCommands dev)) (pollingCommands dev)"
    by (simp add: slowPollingCommands_def js_slice_nonneg)
  then show ?thesis by (cases "pollingCommands dev") (simp_all add: fast)
qed

subsection \<open>What the table guarantees\<close>

definition all_commands :: "device_definition \<Rightarrow> command list" where
  "all_commands d = def_pollingCommands d @ (case def_packPollingCommands d of None \<Rightarrow> [] | Some cs \<Rightarrow> cs) @
     def_loggingCommands d @ (case def_packLoggingCommands d of None \<Rightarrow> [] | Some cs \<Rightarrow> cs)"

definition command_window :: "command \<Rightarrow> nat \<times> nat" where
  "command_window c = (startingAddress c, quantity c)"

lemma command_window_read [simp]: "command_window (ReadHoldingRegisters a q f) = (a, q)"
  by (simp add: command_window_def)

definition is_read :: "command \<Rightarrow> bool" where
  "is_read c = (case c of
     ReadHoldingRegisters a q f \<Rightarrow> a + q \<le> 65536 \<and> 1 \<le> q \<and> q \<le> 125 \<and> f = read_frame a q
   | _ \<Rightarrow> False)"

lemma is_read_window [simp]: "\<lbrakk>a + q \<le> 65536; 1 \<le> q; q \<le> 125\<rbrakk> \<Longrightarrow> is_read (read_window a q)"
  by (simp add: is_read_def read_window_ok)

lemma is_read_new:
  "is_read c \<Longrightarrow>
   new_ReadHoldingRegisters (Fin (of_nat (startingAddress c))) (Fin (of_nat (quantity c))) = Inr c"
  by (cases c) (simp_all add: is_read_def new_ReadHoldingRegisters_ok)

lemma is_read_constructed: "is_read c \<Longrightarrow> constructed c"
  by (rule constructed_read [OF is_read_new])

lemma table_commands: "list_all (\<lambda>d. list_all is_read (all_commands d)) BLUETTI_DEFINITIONS"
  by (simp add: definition_defs all_commands_def)

text \<open>The windows of an entry, without the frames.\<close>

definition entry_windows :: "device_definition \<Rightarrow> (nat \<times> nat) list" where
  "entry_windows d = map command_window (all_commands d)"

definition window_covers :: "nat \<times> nat \<Rightarrow> device_field \<Rightarrow> bool" where
  "window_covers w f = (fst w \<le> field_address f \<and> field_address f + field_size f \<le> fst w + snd w)"

text \<open>Inside one window no two fields share a name, and every field lies inside some window.\<close>

definition windows_fit :: "(nat \<times> nat) list \<Rightarrow> device_struct \<Rightarrow> bool" where
  "windows_fit ws st =
     (list_all (\<lambda>w. distinct (map field_name (filter (window_covers w) st))) ws \<and>
      list_all (\<lambda>f. list_ex (\<lambda>w. window_covers w f) ws) st)"

definition table_view :: "((nat \<times> nat) list \<times> device_struct) list" where
  "table_view = map (\<lambda>d. (entry_windows d, def_buildStruct d)) BLUETTI_DEFINITIONS"

lemmas window_eval = table_view_def entry_windows_def definition_defs all_commands_def read_window_ok

lemma table_view_windows: "table_view =
  [([(10, 40), (70, 21), (3001, 61), (91, 37), (0, 70), (70, 21), (3001, 61), (91, 119)], buildAc200mStruct),
   ([(10, 40), (70, 90), (160, 46), (3001, 61), (91, 37), (0, 70), (70, 90), (160, 46), (3000, 62), (91, 119)],
     buildAc300Struct),
   ([(10, 40), (70, 90), (160, 46), (3001, 61), (91, 37), (0, 70), (70, 90), (160, 46), (3000, 62), (91, 119)],
     buildAc500Struct),
   ([(100, 62), (100, 62), (1100, 51), (1200, 90), (1300, 31), (1400, 48), (1500, 30), (2000, 67),
     (2200, 29), (6000, 31), (6100, 100), (6300, 52)], buildAc60Struct),
   ([(10, 40), (70, 21), (3034, 1), (3060, 7), (10, 53), (70, 66), (136, 74), (3000, 67)], buildEb3aStruct),
   ([(10, 40), (70, 21), (3001, 61), (91, 37), (0, 70), (70, 21), (3001, 61), (91, 119)], buildEp500Struct),
   ([(10, 40), (70, 21), (3001, 61), (91, 37), (0, 70), (70, 21), (3001, 61), (91, 119)], buildEp500Struct),
   ([(100, 62), (2022, 2), (100, 62), (1100, 51), (1200, 90), (1300, 31), (1400, 48), (1500, 30), (2000, 89),
     (2200, 41), (2300, 36), (6000, 32), (6100, 100), (6300, 100)], buildEp600Struct)]"
  by (simp add: window_eval)

lemma table_windows_fit: "list_all (\<lambda>(ws, st). windows_fit ws st) table_view"
  unfolding table_view_windows by code_simp

lemma table_entry:
  assumes "d \<in> set BLUETTI_DEFINITIONS"
  shows "list_all is_read (all_commands d)" and "windows_fit (entry_windows d) (def_buildStruct d)"
  using assms table_commands table_windows_fit by (auto simp: list_all_iff table_view_def)

lemma windows_fit_covered:
  "\<lbrakk>windows_fit ws st; f \<in> set st\<rbrakk> \<Longrightarrow> \<exists>w \<in> set ws. window_covers w f"
  by (auto simp: windows_fit_def list_all_iff list_ex_iff)

lemma windows_fit_distinct:
  "\<lbrakk>windows_fit ws st; w \<in> set ws\<rbrakk> \<Longrightarrow> distinct (map field_name (filter (window_covers w) st))"
  by (auto simp: windows_fit_def list_all_iff)

subsection \<open>Properties\<close>

text \<open>
  C37: loading the product table throws nowhere (every read command in it is accepted by its
  constructor); every telemetry field a product declares lies inside at least one of the
  windows the product reads; and inside a window no two fields share a name, so parsing a
  response never overwrites one value by another.
\<close>

theorem definition_table_sound:
  "list_all (\<lambda>d.
     list_all (\<lambda>c. new_ReadHoldingRegisters (Fin (of_nat (startingAddress c))) (Fin (of_nat (quantity c))) = Inr c)
       (all_commands d) \<and>
     list_all (\<lambda>f. list_ex (\<lambda>c. window_covers (startingAddress c, quantity c) f) (all_commands d))
       (def_buildStruct d) \<and>
     list_all (\<lambda>c. distinct (map field_name
         (filter (window_covers (startingAddress c, quantity c)) (def_buildStruct d)))) (all_commands d))
   BLUETTI_DEFINITIONS"
  using table_entry is_read_new windows_fit_covered windows_fit_distinct
  by (fastforce simp: list_all_iff list_ex_iff entry_windows_def command_window_def)

end
