(* ===== verification/Device.thy ===== *)
theory Device
  imports Definitions
begin

text \<open>
  The operations of \<open>BluettiDevice\<close> (\<open>devices/device.ts\<close>): decoding a window, looking fields
  up, and building the write command of a setter, with every way it throws.
  An enum option is looked up in an object literal, so the names \<open>Object.prototype\<close> defines
  are found too, with a value that is not a number.
\<close>

subsection \<open>Operations\<close>

definition device_parse :: "bluetti_device \<Rightarrow> nat \<Rightarrow> bytes \<Rightarrow> parsed_field_map result" where
  "device_parse dev address d = struct_parse (dev_struct dev) address d"

definition hasField :: "bluetti_device \<Rightarrow> string \<Rightarrow> bool" where
  "hasField dev fieldName = list_ex (\<lambda>f. field_name f = fieldName) (dev_struct dev)"

definition hasFieldSetter :: "bluetti_device \<Rightarrow> string \<Rightarrow> bool" where
  "hasFieldSetter dev fieldName =
     list_ex (\<lambda>f. field_name f = fieldName \<and> isAddressWritable (field_address f) (writableRanges dev))
       (dev_struct dev)"

datatype setter_value = SetBool bool | SetNum jsnum | SetStr string

definition object_prototype_names :: "string list" where
  "object_prototype_names =
     [''constructor'', ''__defineGetter__'', ''__defineSetter__'', ''hasOwnProperty'',
      ''__lookupGetter__'', ''__lookupSetter__'', ''isPrototypeOf'', ''propertyIsEnumerable'',
      ''toString'', ''valueOf'', ''__proto__'', ''toLocaleString'']"

text \<open>\<open>field.enumDefinition[value]\<close>.\<close>

definition enum_lookup :: "enum_definition \<Rightarrow> string \<Rightarrow> jsnum option" where
  "enum_lookup e option_name =
     (case map_of e option_name of
        Some v \<Rightarrow> Some (Fin (of_nat v))
      | None \<Rightarrow> if option_name \<in> set object_prototype_names then Some NonNumber else None)"

fun encode_setter :: "device_field \<Rightarrow> setter_value \<Rightarrow> jsnum result" where
  "encode_setter (EnumField n a e) v =
     (case v of
        SetNum x \<Rightarrow> Inr x
      | SetStr s \<Rightarrow> (case enum_lookup e s of
            None \<Rightarrow> Inl (PlainError ''Field expects a known enum option'')
          | Some x \<Rightarrow> Inr x)
      | SetBool b \<Rightarrow> Inl (PlainError ''Field expects a known enum option''))"
| "encode_setter (BoolField n a) v =
     (case v of
        SetBool b \<Rightarrow> Inr (Fin (if b then 1 else 0))
      | _ \<Rightarrow> Inl (PlainError ''Field expects a boolean value''))"
| "encode_setter f v =
     (case v of
        SetNum x \<Rightarrow> (if is_js_integer x then Inr x
                     else Inl (PlainError ''Field expects an integer value''))
      | _ \<Rightarrow> Inl (PlainError ''Field expects an integer value''))"

definition buildSetterCommand :: "bluetti_device \<Rightarrow> string \<Rightarrow> setter_value \<Rightarrow> command result" where
  "buildSetterCommand dev fieldName v =
     (case find (\<lambda>f. field_name f = fieldName \<and>
                     isAddressWritable (field_address f) (writableRanges dev)) (dev_struct dev) of
        None \<Rightarrow> Inl (PlainError ''Field is not writable'')
      | Some f \<Rightarrow> rbind (encode_setter f v) (\<lambda>encodedValue.
                  new_WriteSingleRegister (Fin (of_nat (field_address f))) encodedValue))"

subsection \<open>Which fields the products let the user set\<close>

definition writable_entry_fields :: "device_definition \<Rightarrow> device_field list" where
  "writable_entry_fields d =
     filter (\<lambda>f. isAddressWritable (field_address f)
                  (case def_writableRanges d of None \<Rightarrow> [] | Some rs \<Rightarrow> rs)) (def_buildStruct d)"

text \<open>A field whose registers determine the value that was set.\<close>

fun settable :: "device_field \<Rightarrow> bool" where
  "settable (EnumField n a e) =
     (a < 65536 \<and> distinct (map fst e) \<and> distinct (map snd e) \<and> list_all (\<lambda>(n, v). v < 65536) e \<and> e \<noteq> [])"
| "settable (BoolField n a) = (a < 65536)"
| "settable (UintField n a r) = (a < 65536)"
| "settable _ = False"

lemma table_settable:
  "list_all (\<lambda>d. list_all settable (writable_entry_fields d)) BLUETTI_DEFINITIONS"
  by (simp add: definition_defs writable_entry_fields_def isAddressWritable_def struct_defs
      struct_builder_defs enum_defs)

lemma entry_settable:
  assumes "d \<in> set BLUETTI_DEFINITIONS" and "f \<in> set (def_buildStruct d)"
    and "isAddressWritable (field_address f) (writableRanges (new_BluettiDeviceModel a s d))"
  shows "settable f"
  using assms table_settable
  by (auto simp: list_all_iff writable_entry_fields_def writableRanges_def new_BluettiDeviceModel_def)

lemma dev_struct_new [simp]: "dev_struct (new_BluettiDeviceModel a s d) = def_buildStruct d"
  by (simp add: new_BluettiDeviceModel_def)

lemma enum_distinct_find:
  "\<lbrakk>distinct (map snd e); map_of e n = Some v\<rbrakk> \<Longrightarrow> find (\<lambda>(m, w). w = v) e = Some (n, v)"
  by (induction e) (auto split: if_splits simp: image_iff, fastforce dest: map_of_SomeD)

subsection \<open>What a setter writes\<close>

lemma find_field:
  assumes "buildSetterCommand dev n v = Inr c"
  obtains f enc where "f \<in> set (dev_struct dev)" "field_name f = n"
    "isAddressWritable (field_address f) (writableRanges dev)"
    "encode_setter f v = Inr enc" "new_WriteSingleRegister (Fin (of_nat (field_address f))) enc = Inr c"
proof -
  from assms obtain f enc where find: "find (\<lambda>f. field_name f = n \<and>
      isAddressWritable (field_address f) (writableRanges dev)) (dev_struct dev) = Some f"
    and enc: "encode_setter f v = Inr enc" "new_WriteSingleRegister (Fin (of_nat (field_address f))) enc = Inr c"
    by (auto simp: buildSetterCommand_def rbind_eq_Inr split: option.splits)
  from find have "f \<in> set (dev_struct dev)" "field_name f = n"
    "isAddressWritable (field_address f) (writableRanges dev)"
    by (auto simp: find_Some_iff)
  then show thesis using enc by (rule that)
qed

text \<open>The value the register shows after a write of \<open>v\<close>.\<close>

fun shows_value :: "device_field \<Rightarrow> setter_value \<Rightarrow> nat \<Rightarrow> bool" where
  "shows_value f (SetBool b) w = (field_value f [w] = VBool b)"
| "shows_value f (SetStr s) w = (field_value f [w] = VEnum s w)"
| "shows_value f (SetNum x) w = (x = Fin (of_nat w))"

lemma encode_shows:
  assumes "settable f" and "encode_setter f v = Inr (Fin (of_nat w))"
  shows "shows_value f v w"
proof (cases f)
  case (EnumField n a e)
  have own: "field_value f [w] = VEnum s w" if "map_of e s = Some w" for s
    using that assms(1) EnumField by (simp add: enum_distinct_find)
  show ?thesis
    using assms own EnumField
    by (cases v) (auto simp: enum_lookup_def split: option.splits if_splits)
next
  case (BoolField n a)
  then show ?thesis
    using assms by (cases v) (auto split: if_splits)
next
  case (UintField n a r)
  then show ?thesis using assms by (cases v) (auto split: if_splits)
qed (use assms in simp_all)

lemma settable_accepts:
  assumes "settable f"
  shows "\<exists>v w. encode_setter f v = Inr (Fin (of_nat w)) \<and> w < 65536"
proof (cases f)
  case (EnumField n a e)
  then show ?thesis by (intro exI [of _ "SetNum (Fin (of_nat 0))"] exI [of _ 0]) simp
next
  case (BoolField n a)
  then show ?thesis by (intro exI [of _ "SetBool False"] exI [of _ 0]) simp
next
  case (UintField n a r)
  then show ?thesis by (intro exI [of _ "SetNum (Fin (of_nat 0))"] exI [of _ 0]) simp
qed (use assms in simp_all)

lemma settable_address: "settable f \<Longrightarrow> field_address f < 65536"
  by (cases f) simp_all

lemma setter_exists:
  assumes d: "d \<in> set BLUETTI_DEFINITIONS" and dev: "dev = new_BluettiDeviceModel a s d"
  shows "hasFieldSetter dev n \<longleftrightarrow> (\<exists>v c. buildSetterCommand dev n v = Inr c)"
proof
  assume "hasFieldSetter dev n"
  then obtain f where f: "find (\<lambda>f. field_name f = n \<and>
      isAddressWritable (field_address f) (writableRanges dev)) (dev_struct dev) = Some f"
    unfolding hasFieldSetter_def list_ex_iff by (metis (mono_tags, lifting) find_None_iff not_None_eq)
  then have "f \<in> set (def_buildStruct d)" "isAddressWritable (field_address f) (writableRanges dev)"
    using dev by (auto simp: find_Some_iff)
  then have "settable f" using entry_settable [OF d] dev by simp
  then obtain v w where "encode_setter f v = Inr (Fin (of_nat w))" "w < 65536" "field_address f < 65536"
    using settable_accepts settable_address by blast
  with f show "\<exists>v c. buildSetterCommand dev n v = Inr c"
    by (intro exI [of _ v]) (simp add: buildSetterCommand_def new_WriteSingleRegister_ok)
qed (auto elim!: find_field simp: hasFieldSetter_def list_ex_iff)

subsection \<open>A polled window\<close>

lemma bytes_as_registers:
  "length p = 2 * q \<Longrightarrow> \<exists>ws. length ws = q \<and> (\<forall>w \<in> set ws. w < 65536) \<and> p = register_bytes ws"
  using even_bytes_cases [of p] by (metis dvd_triv_left nonzero_mult_div_cancel_left zero_neq_numeral)

lemma field_contribution_alt:
  "field_contribution start ws f =
     (if window_covers (start, length ws) f \<and>
         isInRange f (field_value f (take (field_size f) (drop (field_address f - start) ws)))
      then Some (field_value f (take (field_size f) (drop (field_address f - start) ws))) else None)"
  by (simp add: field_contribution_def window_covers_def Let_def)

lemma contributions_in_window:
  assumes "distinct (map field_name (filter (window_covers (start, length ws)) st))"
    and "f \<in> set st" and "window_covers (start, length ws) f"
  shows "map_of (fold (contribute start ws) st []) (field_name f) = field_contribution start ws f"
proof -
  let ?cov = "window_covers (start, length ws)"
  have skip: "fold (contribute start ws) st m = fold (contribute start ws) (filter ?cov st) m" for m
    by (induction st arbitrary: m) (auto simp: contribute_def field_contribution_alt)
  show ?thesis
    unfolding skip using assms by (intro contributions_distinct) simp_all
qed

lemma is_read_cases:
  assumes "is_read c"
  obtains a q where "c = ReadHoldingRegisters a q (read_frame a q)" "1 \<le> q" "q \<le> 125"
  using assms by (auto simp: is_read_def split: command.splits)

lemma window_decodes:
  assumes d: "d \<in> set BLUETTI_DEFINITIONS" and c: "c \<in> set (all_commands d)"
    and valid: "isValidResponse c r"
  shows "\<exists>ws m. length ws = quantity c \<and> (\<forall>w \<in> set ws. w < 65536) \<and>
     r = appendModbusCrc ([1, 3, of_nat (2 * quantity c)] @ register_bytes ws) \<and>
     struct_parse (def_buildStruct d) (startingAddress c) (parseResponse c r) = Inr m \<and>
     (\<forall>f \<in> set (def_buildStruct d). window_covers (startingAddress c, quantity c) f \<longrightarrow>
        map_of m (field_name f) = field_contribution (startingAddress c) ws f)"
proof -
  have "is_read c" using table_entry(1) [OF d] c by (simp add: list_all_iff)
  then obtain a q where cq: "c = ReadHoldingRegisters a q (read_frame a q)" "1 \<le> q" "q \<le> 125"
    by (rule is_read_cases)
  then obtain p where p: "length p = 2 * q" "r = appendModbusCrc ([1, 3, of_nat (2 * q)] @ p)"
    using valid read_valid_iff [of q a "read_frame a q" r] by auto
  then obtain ws where ws: "length ws = q" "\<forall>w \<in> set ws. w < 65536" "p = register_bytes ws"
    using bytes_as_registers by blast
  have payload: "parseResponse c r = register_bytes ws"
    using read_parse [OF p(1), of a "read_frame a q"] cq p ws by simp
  have "distinct (map field_name (filter (window_covers (a, length ws)) (def_buildStruct d)))"
    using windows_fit_distinct [OF table_entry(2) [OF d]] c cq ws by (force simp: entry_windows_def)
  then show ?thesis
    using cq p ws payload struct_parse_registers [OF ws(2), of "def_buildStruct d" a]
    by (intro exI [of _ ws] exI [of _ "fold (contribute a ws) (def_buildStruct d) []"])
       (simp add: contributions_in_window)
qed

subsection \<open>Properties\<close>

text \<open>
  From the wire to the telemetry map: for every product and every read command of its
  table, any response the command accepts carries exactly the command's registers, decoding it
  with the product's layout never throws, and every field the window covers ends up in the map
  with the value of its own registers (left out exactly when its plausibility range rejects the
  value).
\<close>

theorem valid_response_decodes:
  assumes "d \<in> set BLUETTI_DEFINITIONS" and "c \<in> set (all_commands d)" and "isValidResponse c r"
  shows "\<exists>ws m. length ws = quantity c \<and> (\<forall>w \<in> set ws. w < 65536) \<and>
     r = appendModbusCrc ([1, 3, of_nat (2 * quantity c)] @ register_bytes ws) \<and>
     device_parse (new_BluettiDeviceModel a s d) (startingAddress c) (parseResponse c r) = Inr m \<and>
     (\<forall>f \<in> set (def_buildStruct d). window_covers (startingAddress c, quantity c) f \<longrightarrow>
        map_of m (field_name f) = field_contribution (startingAddress c) ws f)"
  unfolding device_parse_def dev_struct_new by (rule window_decodes [OF assms])

lemma eb3a_led_window: "read_window 3034 1 \<in> set (all_commands EB3A_definition)"
  by (simp add: all_commands_def EB3A_definition_def)

theorem valid_response_decodes_witness:
  "\<exists>m. device_parse (new_BluettiDeviceModel [] [] EB3A_definition) 3034 [0, 4] = Inr m \<and>
       map_of m ''led_mode'' = Some (VEnum ''OFF'' 4)"
proof -
  let ?c = "ReadHoldingRegisters 3034 1 (read_frame 3034 1)"
  let ?r = "appendModbusCrc ([1, 3, of_nat (2 * 1)] @ [0, 4])"
  have d: "EB3A_definition \<in> set BLUETTI_DEFINITIONS" by (simp add: BLUETTI_DEFINITIONS_def)
  have c: "?c \<in> set (all_commands EB3A_definition)" using eb3a_led_window by (simp add: read_window_ok)
  have v: "isValidResponse ?c ?r" 
    by (rule read_valid_iff [THEN iffD2, OF _ _ exI [of _ "[0, 4]"]]) simp_all
  have f: "EnumField ''led_mode'' 3034 LedMode \<in> set (def_buildStruct EB3A_definition)"
    by (simp add: EB3A_definition_def buildEb3aStruct_def chain_def struct_builder_defs)
  have payload: "parseResponse ?c ?r = [0, 4]" using read_parse [of "[0, 4]" 1] by simp
  obtain ws m where *: "length ws = 1 \<and> (\<forall>w \<in> set ws. w < 65536)" "?r = appendModbusCrc ([1, 3, of_nat (2 * 1)] @ register_bytes ws)"
      "device_parse (new_BluettiDeviceModel [] [] EB3A_definition) 3034 (parseResponse ?c ?r) = Inr m"
      "map_of m ''led_mode'' = field_contribution 3034 ws (EnumField ''led_mode'' 3034 LedMode)"
    using valid_response_decodes [OF d c v, of "[]" "[]"] f by (fastforce simp: window_covers_def)
  from *(2) have "register_bytes ws = [0, 4]" by (simp add: crc.seal_inject)
  then have "ws = [4]" using *(1) registers_register_bytes [of ws] by (cases ws) (auto simp: hi_byte_def lo_byte_def)
  with * payload show ?thesis
    by (auto simp: field_contribution_def LedMode_def)
qed

text \<open>
  On every product, a field name has a setter exactly when \<open>buildSetterCommand\<close> accepts
  some value for it.
\<close>

theorem setter_availability:
  assumes "d \<in> set BLUETTI_DEFINITIONS"
  shows "hasFieldSetter (new_BluettiDeviceModel a s d) n \<longleftrightarrow>
    (\<exists>v c. buildSetterCommand (new_BluettiDeviceModel a s d) n v = Inr c)"
  by (rule setter_exists [OF assms refl])

theorem setter_availability_witness:
  "\<exists>v c. buildSetterCommand (new_BluettiDeviceModel [] [] EB3A_definition) ''led_mode'' v = Inr c"
proof -
  have "EB3A_definition \<in> set BLUETTI_DEFINITIONS" by (simp add: BLUETTI_DEFINITIONS_def)
  moreover have "hasFieldSetter (new_BluettiDeviceModel [] [] EB3A_definition) ''led_mode''"
    by (simp add: hasFieldSetter_def new_BluettiDeviceModel_def writableRanges_def EB3A_definition_def
        buildEb3aStruct_def chain_def struct_builder_defs isAddressWritable_def)
  ultimately show ?thesis using setter_availability by blast
qed



end
