(* ===== verification/Registry.thy ===== *)
theory Registry
  imports Device
begin

text \<open>
  \<open>devices/registry.ts\<close>: the advertisement-name pattern, with the regular expression's
  left-to-right choice among the alternatives, and the construction of the device from the
  name. \<open>BLUETTI_DEFINITION_MAP\<close> is the map of \<open>devices/definition.ts\<close>.
\<close>

subsection \<open>The pattern\<close>

definition pattern_models :: "string list" where
  "pattern_models =
     [''AC200M'', ''AC300'', ''AC500'', ''AC60'', ''EB3A'', ''EP500P'', ''EP500'', ''EP600'']"

text \<open>
  \<open>^(m1|m2|...)(\d+)$\<close>: the first alternative after which the rest of the name is a
  non-empty run of digits; the two groups.
\<close>

fun match_alternatives :: "string list \<Rightarrow> string \<Rightarrow> (string \<times> string) option" where
  "match_alternatives [] name = None"
| "match_alternatives (m # ms) name =
     (if starts_with name m \<and> drop (length m) name \<noteq> [] \<and> list_all is_digit (drop (length m) name)
      then Some (m, drop (length m) name)
      else match_alternatives ms name)"

definition DEVICE_NAME_PATTERN :: "string \<Rightarrow> (string \<times> string) option" where
  "DEVICE_NAME_PATTERN name = match_alternatives pattern_models name"

definition isSupportedBluettiName :: "string \<Rightarrow> bool" where
  "isSupportedBluettiName name = (DEVICE_NAME_PATTERN name \<noteq> None)"

definition createDeviceFromAdvertisement :: "string \<Rightarrow> string \<Rightarrow> bluetti_device result" where
  "createDeviceFromAdvertisement address name =
     (case DEVICE_NAME_PATTERN name of
        None \<Rightarrow> Inl (PlainError ''Unsupported Bluetti device name'')
      | Some (model, serialNumber) \<Rightarrow>
          (case map_of BLUETTI_DEFINITION_MAP model of
             None \<Rightarrow> Inl (PlainError ''No device factory implemented'')
           | Some d \<Rightarrow> Inr (new_BluettiDeviceModel address serialNumber d)))"

subsection \<open>Names and products\<close>

lemma match_alternatives_Some:
  "match_alternatives ms name = Some (m, s) \<Longrightarrow>
   m \<in> set ms \<and> name = m @ s \<and> s \<noteq> [] \<and> list_all is_digit s"
  by (induction ms) (auto simp: starts_with_take split: if_splits, metis append_take_drop_id)

lemma match_alternatives_None:
  "match_alternatives ms name = None \<Longrightarrow> m \<in> set ms \<Longrightarrow> s \<noteq> [] \<Longrightarrow> list_all is_digit s \<Longrightarrow> name \<noteq> m @ s"
  by (induction ms) (auto split: if_splits)

text \<open>No model name followed by a digit is a prefix of another: the groups are determined.\<close>

lemma digit_prefix_unique:
  assumes "m \<in> set pattern_models" "m' \<in> set pattern_models"
    and "m @ s = m' @ s'" "s \<noteq> []" "list_all is_digit s" "s' \<noteq> []" "list_all is_digit s'"
  shows "m = m' \<and> s = s'"
proof -
  obtain c t c' t' where "s = c # t" "s' = c' # t'" "is_digit c" "is_digit c'"
    using assms by (cases s; cases s') auto
  with assms show ?thesis
    by (auto simp: pattern_models_def is_digit_def)
qed

lemma pattern_iff:
  "DEVICE_NAME_PATTERN name = Some (m, s) \<longleftrightarrow>
   m \<in> set pattern_models \<and> name = m @ s \<and> s \<noteq> [] \<and> list_all is_digit s"
proof
  assume "DEVICE_NAME_PATTERN name = Some (m, s)"
  then show "m \<in> set pattern_models \<and> name = m @ s \<and> s \<noteq> [] \<and> list_all is_digit s"
    unfolding DEVICE_NAME_PATTERN_def by (rule match_alternatives_Some)
next
  assume *: "m \<in> set pattern_models \<and> name = m @ s \<and> s \<noteq> [] \<and> list_all is_digit s"
  then have "match_alternatives pattern_models name \<noteq> None"
    using match_alternatives_None [of pattern_models name m s] by blast
  then obtain m' s' where "match_alternatives pattern_models name = Some (m', s')"
    by (metis option.exhaust surj_pair)
  moreover from this have "m' = m \<and> s' = s"
    using match_alternatives_Some [of pattern_models name m' s'] * digit_prefix_unique by blast
  ultimately show "DEVICE_NAME_PATTERN name = Some (m, s)" by (simp add: DEVICE_NAME_PATTERN_def)
qed

lemma definition_types:
  "map def_type BLUETTI_DEFINITIONS =
     [''AC200M'', ''AC300'', ''AC500'', ''AC60'', ''EB3A'', ''EP500'', ''EP500P'', ''EP600'']"
  by (simp add: definition_defs)

lemma definition_type_models: "def_type ` set BLUETTI_DEFINITIONS = set pattern_models"
proof -
  have "def_type ` set BLUETTI_DEFINITIONS = set (map def_type BLUETTI_DEFINITIONS)" by simp
  then show ?thesis unfolding definition_types by (auto simp: pattern_models_def)
qed

lemma definition_map: "map_of BLUETTI_DEFINITION_MAP = map_of (map (\<lambda>d. (def_type d, d)) BLUETTI_DEFINITIONS)"
proof -
  let ?kv = "map (\<lambda>d. (def_type d, d)) BLUETTI_DEFINITIONS"
  have fold: "map_of (foldl (\<lambda>m d. obj_set (def_type d) d m) acc ds) =
      map_of acc ++ map_of (rev (map (\<lambda>d. (def_type d, d)) ds))" for acc and ds :: "device_definition list"
    by (induction ds arbitrary: acc) (simp_all add: map_add_assoc [symmetric] fun_eq_iff map_add_def split: option.split)
  have "distinct (map fst ?kv)"
    using definition_types by (simp add: comp_def)
  then have "map_of (rev ?kv) = map_of ?kv"
    by (subst map_of_inject_set) (simp_all add: rev_map [symmetric])
  then show ?thesis using fold [of "[]" BLUETTI_DEFINITIONS]
    by (simp add: BLUETTI_DEFINITION_MAP_def)
qed

lemma definition_lookup:
  "map_of BLUETTI_DEFINITION_MAP m = Some d \<longleftrightarrow> d \<in> set BLUETTI_DEFINITIONS \<and> def_type d = m"
proof -
  have "distinct (map fst (map (\<lambda>d. (def_type d, d)) BLUETTI_DEFINITIONS))"
    using definition_types by (simp add: comp_def)
  then show ?thesis by (auto simp: definition_map map_of_eq_Some_iff)
qed

subsection \<open>Properties\<close>

text \<open>
  An advertised name yields a device exactly when it is the type of a product of the table
  followed by a non-empty run of decimal digits; the device then is the one of that product,
  with the digits, leading zeros included, as its serial number, and the decomposition is
  unique (\<open>EP500P\<close> is never read as \<open>EP500\<close>). Every other name is rejected as unsupported, so
  the \<open>No device factory\<close> branch is unreachable.
\<close>

theorem advertisement_names:
  "(createDeviceFromAdvertisement address name = Inr dev \<longleftrightarrow>
     (\<exists>d s. d \<in> set BLUETTI_DEFINITIONS \<and> s \<noteq> [] \<and> list_all is_digit s \<and> name = def_type d @ s \<and>
            dev = new_BluettiDeviceModel address s d)) \<and>
   (isSupportedBluettiName name \<longleftrightarrow> (\<exists>dev. createDeviceFromAdvertisement address name = Inr dev)) \<and>
   (createDeviceFromAdvertisement address name = Inl e \<longrightarrow>
      e = PlainError ''Unsupported Bluetti device name'')"
proof (cases "DEVICE_NAME_PATTERN name")
  case None
  then have "\<not> (\<exists>d s. d \<in> set BLUETTI_DEFINITIONS \<and> s \<noteq> [] \<and> list_all is_digit s \<and> name = def_type d @ s)"
    using pattern_iff definition_type_models by (metis imageI option.distinct(1))
  with None show ?thesis
    by (auto simp: createDeviceFromAdvertisement_def isSupportedBluettiName_def)
next
  case (Some ms)
  then obtain m s where ms: "DEVICE_NAME_PATTERN name = Some (m, s)" by (cases ms) auto
  then have m: "m \<in> set pattern_models" "name = m @ s" "s \<noteq> []" "list_all is_digit s"
    by (simp_all add: pattern_iff)
  then obtain d where d: "d \<in> set BLUETTI_DEFINITIONS" "def_type d = m"
    using definition_type_models by (metis imageE)
  have "d' = d \<and> s' = s" if "d' \<in> set BLUETTI_DEFINITIONS" "s' \<noteq> []" "list_all is_digit s'"
      "name = def_type d' @ s'" for d' s'
  proof -
    have "def_type d' \<in> set pattern_models" using that(1) definition_type_models by blast
    then have "def_type d' = m \<and> s' = s"
      using digit_prefix_unique [of "def_type d'" m s' s] that m by simp
    moreover from this have "d' = d"
      using d that(1) definition_lookup [of m d] definition_lookup [of m d'] by simp
    ultimately show ?thesis by simp
  qed
  then have unique: "(\<exists>d s. d \<in> set BLUETTI_DEFINITIONS \<and> s \<noteq> [] \<and> list_all is_digit s \<and>
        name = def_type d @ s \<and> dev = new_BluettiDeviceModel address s d) \<longleftrightarrow>
      dev = new_BluettiDeviceModel address s d"
    using m d by blast
  have create: "createDeviceFromAdvertisement address name = Inr (new_BluettiDeviceModel address s d)"
    using ms d definition_lookup [of m d] by (simp add: createDeviceFromAdvertisement_def)
  have "isSupportedBluettiName name" by (simp add: isSupportedBluettiName_def ms)
  then show ?thesis unfolding unique create by auto
qed

theorem advertisement_names_witness:
  "(\<exists>dev. createDeviceFromAdvertisement ''24:4C'' ''EP500P0022'' = Inr dev \<and> dev_type dev = ''EP500P'' \<and>
      dev_serialNumber dev = ''0022'') \<and>
   \<not> isSupportedBluettiName ''AC500-2237000003358''"
proof -
  have "EP500P_definition \<in> set BLUETTI_DEFINITIONS" "def_type EP500P_definition = ''EP500P''"
    by (simp_all add: BLUETTI_DEFINITIONS_def EP500P_definition_def)
  then have "createDeviceFromAdvertisement ''24:4C'' ''EP500P0022'' =
      Inr (new_BluettiDeviceModel ''24:4C'' ''0022'' EP500P_definition)"
    using advertisement_names [of "''24:4C''" "''EP500P0022''"]
    by (intro advertisement_names [THEN conjunct1, THEN iffD2] exI [of _ EP500P_definition] exI [of _ "''0022''"])
       (simp add: is_digit_def)
  moreover have "\<not> isSupportedBluettiName ''AC500-2237000003358''"
    by (simp add: isSupportedBluettiName_def DEVICE_NAME_PATTERN_def pattern_models_def is_digit_def)
  ultimately show ?thesis
    by (simp add: new_BluettiDeviceModel_def EP500P_definition_def)
qed

end
