(* ===== verification/Session.thy ===== *)
theory Session
  imports Commands
begin

text \<open>
  \<open>DeviceSession\<close> (\<open>bluetooth/device-session.ts\<close>) and its helpers (\<open>session-utils.ts\<close>): one
  MODBUS exchange at a time over a notification stream.
  The fields of the class are the record \<open>session\<close>; a promise and its timer are numbers, and
  the record \<open>world\<close> adds what JavaScript keeps for the session: the outcomes of settled
  promises, the armed timers, the suspended calls of \<open>perform\<close> with their local variable and
  the point where they wait, the results of the calls that ended, the frames
  written and the number of calls of \<open>disconnect\<close> that wait for the transport.
  An \<open>event\<close> is one piece of code run between two suspension points, so that any order of
  notifications, timer, write acknowledgement and resumption is an event list.
\<close>

subsection \<open>Helpers (session-utils.ts)\<close>

definition AT_CONTROL_NAME_MESSAGE :: string where
  "AT_CONTROL_NAME_MESSAGE = ''AT+NAME?'' @ [CHR 0x0D]"
definition AT_CONTROL_ADV_MESSAGE :: string where
  "AT_CONTROL_ADV_MESSAGE = ''AT+ADV?'' @ [CHR 0x0D]"
definition UNREACHABLE_ERROR_TEXT :: string where "UNREACHABLE_ERROR_TEXT = ''unreachable''"
definition GATT_UNREACHABLE_TEXT :: string where
  "GATT_UNREACHABLE_TEXT = ''enumerate GATT services: unreachable''"
definition GATT_FAILED_UNREACHABLE_TEXT :: string where
  "GATT_FAILED_UNREACHABLE_TEXT = ''failed to enumerate GATT services: unreachable''"

definition isRetryableInitializationError :: "js_error \<Rightarrow> bool" where
  "isRetryableInitializationError e =
     (let normalized = to_lower (error_message e)
      in str_includes normalized GATT_UNREACHABLE_TEXT \<or>
         str_includes normalized GATT_FAILED_UNREACHABLE_TEXT \<or>
         str_includes normalized UNREACHABLE_ERROR_TEXT)"

definition concatBytes :: "bytes \<Rightarrow> bytes \<Rightarrow> bytes" where
  "concatBytes left right = left @ right"

definition isAsciiControlMessage :: "bytes \<Rightarrow> bool" where
  "isAsciiControlMessage d =
     (let t = ascii_text d in t = AT_CONTROL_NAME_MESSAGE \<or> t = AT_CONTROL_ADV_MESSAGE)"

subsection \<open>State\<close>

datatype session_state =
  NotConnected | Connected | Ready | PerformingCommand | CommandErrorWait | Disconnecting

record session =
  state :: session_state
  session_name :: "string option"
  currentCommand :: "command option"
  responseBuffer :: bytes
  pendingResponse :: "nat option"
  pendingTimeout :: "nat option"

text \<open>Where a call of \<open>perform\<close> is suspended: at the write, or at the response promise.\<close>

datatype call_point = AtWrite | AtResponse

record world =
  sess :: session
  settled :: "(nat \<times> bytes result) list"
  timers :: "nat list"
  calls :: "(nat \<times> command \<times> call_point) list"
  returned :: "(nat \<times> command \<times> bytes result) list"
  wire :: "bytes list"
  disconnects :: nat
  fresh :: nat

definition UNKNOWN_ERROR_CODE :: int where "UNKNOWN_ERROR_CODE = -1"

definition isReady :: "session \<Rightarrow> bool" where
  "isReady s = (state s = Ready \<or> state s = PerformingCommand)"

subsection \<open>Operations\<close>

definition set_state :: "session_state \<Rightarrow> world \<Rightarrow> world" where
  "set_state x w = w\<lparr>sess := (sess w)\<lparr>state := x\<rparr>\<rparr>"

text \<open>A promise settles once.\<close>

definition settle :: "nat \<Rightarrow> bytes result \<Rightarrow> world \<Rightarrow> world" where
  "settle p r w = (if map_of (settled w) p = None then w\<lparr>settled := (p, r) # settled w\<rparr> else w)"

definition settle_pending :: "bytes result \<Rightarrow> world \<Rightarrow> world" where
  "settle_pending r w = (case pendingResponse (sess w) of None \<Rightarrow> w | Some p \<Rightarrow> settle p r w)"

definition clearPendingState :: "world \<Rightarrow> world" where
  "clearPendingState w =
     w\<lparr>timers := (case pendingTimeout (sess w) of
                   Some t \<Rightarrow> removeAll t (timers w) | None \<Rightarrow> timers w),
       sess := (sess w)\<lparr>pendingTimeout := None, pendingResponse := None,
                        currentCommand := None, responseBuffer := []\<rparr>\<rparr>"

definition resolvePending :: "bytes \<Rightarrow> world \<Rightarrow> world" where
  "resolvePending response w = clearPendingState (settle_pending (Inr response) w)"

definition rejectPending :: "js_error \<Rightarrow> world \<Rightarrow> world" where
  "rejectPending e w = clearPendingState (settle_pending (Inl e) w)"

definition buildModbusException :: "command \<Rightarrow> bytes \<Rightarrow> js_error" where
  "buildModbusException c response =
     (let code = (case js_get response 2 of Some b \<Rightarrow> uint b | None \<Rightarrow> UNKNOWN_ERROR_CODE)
      in if code = 5 then DeviceBusyError ''MODBUS exception for function'' code
         else ModbusError ''MODBUS exception for function'' code)"

definition handleNotification :: "bytes \<Rightarrow> world \<Rightarrow> world" where
  "handleNotification d w =
     (case (pendingResponse (sess w), currentCommand (sess w)) of
        (Some p, Some c) \<Rightarrow>
          (if isAsciiControlMessage d
           then set_state Disconnecting (rejectPending
                  (BadConnectionError ''Received AT control notification instead of MODBUS response'') w)
           else (let buffer = concatBytes (responseBuffer (sess w)) d;
                     w = w\<lparr>sess := (sess w)\<lparr>responseBuffer := buffer\<rparr>\<rparr>
                 in if isExceptionResponse c buffer
                    then set_state Ready (rejectPending (buildModbusException c buffer) w)
                    else if length buffer = responseSize c
                    then (if isValidResponse c buffer
                          then set_state Ready (resolvePending buffer w)
                          else set_state CommandErrorWait
                                 (rejectPending (ParseError ''Response CRC validation failed'') w))
                    else if length buffer > responseSize c
                    then set_state CommandErrorWait
                           (rejectPending (ParseError ''Notification payload exceeded expected response size'') w)
                    else w))
      | _ \<Rightarrow> w)"

text \<open>\<open>perform\<close> up to its first suspension, at the write.\<close>

definition perform_start :: "command \<Rightarrow> world \<Rightarrow> world" where
  "perform_start c w =
     (if \<not> isReady (sess w)
      then w\<lparr>returned := (fresh w, c, Inl (BadConnectionError ''Device is not ready'')) # returned w,
             fresh := fresh w + 1\<rparr>
      else w\<lparr>sess := (sess w)\<lparr>state := PerformingCommand, currentCommand := Some c,
                              responseBuffer := [], pendingResponse := Some (fresh w),
                              pendingTimeout := Some (fresh w)\<rparr>,
             timers := fresh w # timers w,
             calls := (fresh w, c, AtWrite) # calls w,
             wire := wire w @ [toBytes c],
             fresh := fresh w + 1\<rparr>)"

definition finish_call :: "nat \<Rightarrow> command \<Rightarrow> bytes result \<Rightarrow> world \<Rightarrow> world" where
  "finish_call n c r w = w\<lparr>calls := obj_delete n (calls w), returned := (n, c, r) # returned w\<rparr>"

text \<open>The \<open>catch\<close> of the write.\<close>

definition write_failed :: "nat \<Rightarrow> command \<Rightarrow> js_error \<Rightarrow> world \<Rightarrow> world" where
  "write_failed n c e w =
     finish_call n c (Inl e)
       (clearPendingState (settle_pending (Inl e) (set_state Disconnecting w)))"

definition write_done :: "nat \<Rightarrow> command \<Rightarrow> world \<Rightarrow> world" where
  "write_done n c w = w\<lparr>calls := obj_set n (c, AtResponse) (calls w)\<rparr>"

text \<open>The rest of \<open>perform\<close>, after the response promise settled.\<close>

definition response_resumed :: "nat \<Rightarrow> command \<Rightarrow> bytes result \<Rightarrow> world \<Rightarrow> world" where
  "response_resumed n c r w =
     (case r of
        Inr response \<Rightarrow> finish_call n c r (clearPendingState (set_state Ready w))
      | Inl e \<Rightarrow> finish_call n c r (clearPendingState w))"

definition timeout_fired :: "nat \<Rightarrow> world \<Rightarrow> world" where
  "timeout_fired t w =
     rejectPending (CommandTimeoutError ''Timed out waiting for response'')
       (set_state CommandErrorWait (w\<lparr>timers := removeAll t (timers w)\<rparr>))"

definition disconnect_start :: "world \<Rightarrow> world" where
  "disconnect_start w =
     (set_state Disconnecting (clearPendingState w))\<lparr>disconnects := disconnects w + 1\<rparr>"

definition disconnect_end :: "world \<Rightarrow> world" where
  "disconnect_end w =
     w\<lparr>sess := (sess w)\<lparr>session_name := None, state := NotConnected\<rparr>,
       disconnects := disconnects w - 1\<rparr>"

subsection \<open>Events\<close>

datatype event =
    Perform command
  | WriteDone nat
  | WriteFailed nat js_error
  | Notify bytes
  | TimerFires nat
  | Resume nat
  | DisconnectStart
  | DisconnectEnd

text \<open>One event where it can happen, \<open>None\<close> where it cannot.\<close>

fun session_step :: "event \<Rightarrow> world \<Rightarrow> world option" where
  "session_step (Perform c) w = Some (perform_start c w)"
| "session_step (WriteDone n) w =
     (case map_of (calls w) n of
        Some (c, AtWrite) \<Rightarrow> Some (write_done n c w) | _ \<Rightarrow> None)"
| "session_step (WriteFailed n e) w =
     (case map_of (calls w) n of
        Some (c, AtWrite) \<Rightarrow> Some (write_failed n c e w) | _ \<Rightarrow> None)"
| "session_step (Notify d) w = Some (handleNotification d w)"
| "session_step (TimerFires t) w =
     (if t \<in> set (timers w) then Some (timeout_fired t w) else None)"
| "session_step (Resume n) w =
     (case (map_of (calls w) n, map_of (settled w) n) of
        (Some (c, AtResponse), Some r) \<Rightarrow> Some (response_resumed n c r w) | _ \<Rightarrow> None)"
| "session_step DisconnectStart w = Some (disconnect_start w)"
| "session_step DisconnectEnd w =
     (if 0 < disconnects w then Some (disconnect_end w) else None)"

fun session_run :: "event list \<Rightarrow> world \<Rightarrow> world option" where
  "session_run [] w = Some w"
| "session_run (e # es) w = (case session_step e w of None \<Rightarrow> None | Some w' \<Rightarrow> session_run es w')"

text \<open>The world of a session that has just become ready.\<close>

definition ready_world :: world where
  "ready_world =
     \<lparr>sess = \<lparr>state = Ready, session_name = None, currentCommand = None, responseBuffer = [],
              pendingResponse = None, pendingTimeout = None\<rparr>,
      settled = [], timers = [], calls = [], returned = [], wire = [], disconnects = 0, fresh = 0\<rparr>"


text \<open>The callers' discipline (the work queue's): no call starts while another is in flight.\<close>

fun serial_run :: "event list \<Rightarrow> world \<Rightarrow> world option" where
  "serial_run [] w = Some w"
| "serial_run (e # es) w =
     (if (\<exists>c. e = Perform c) \<and> calls w \<noteq> [] then None
      else (case session_step e w of None \<Rightarrow> None | Some w' \<Rightarrow> serial_run es w'))"

definition is_disconnect :: "event \<Rightarrow> bool" where
  "is_disconnect e = (e = DisconnectStart \<or> e = DisconnectEnd)"

subsection \<open>What an exchange amounts to\<close>

text \<open>
  The specification of an exchange, without the mutable fields: a new chunk either leaves the
  exchange open or ends it with a result and the state the session is left in.
\<close>

definition chunk_verdict :: "command \<Rightarrow> bytes \<Rightarrow> bytes \<Rightarrow> (bytes result \<times> session_state) option" where
  "chunk_verdict c buffer d =
     (if isAsciiControlMessage d
      then Some (Inl (BadConnectionError
             ''Received AT control notification instead of MODBUS response''), Disconnecting)
      else if isExceptionResponse c (buffer @ d)
      then Some (Inl (buildModbusException c (buffer @ d)), Ready)
      else if isValidResponse c (buffer @ d) \<and> length (buffer @ d) = responseSize c
      then Some (Inr (buffer @ d), Ready)
      else if length (buffer @ d) = responseSize c
      then Some (Inl (ParseError ''Response CRC validation failed''), CommandErrorWait)
      else if length (buffer @ d) > responseSize c
      then Some (Inl (ParseError ''Notification payload exceeded expected response size''), CommandErrorWait)
      else None)"

definition conclude :: "nat \<Rightarrow> bytes result \<Rightarrow> session_state \<Rightarrow> world \<Rightarrow> world" where
  "conclude n r st w =
     w\<lparr>settled := (n, r) # settled w, timers := [],
       sess := (sess w)\<lparr>state := st, currentCommand := None, responseBuffer := [],
                        pendingResponse := None, pendingTimeout := None\<rparr>\<rparr>"

text \<open>No exchange is open, or exactly the exchange \<open>n\<close> for \<open>c\<close>.\<close>

definition idle :: "world \<Rightarrow> bool" where
  "idle w \<longleftrightarrow> pendingResponse (sess w) = None \<and> pendingTimeout (sess w) = None \<and>
     currentCommand (sess w) = None \<and> responseBuffer (sess w) = [] \<and> timers w = []"

definition waiting :: "nat \<Rightarrow> command \<Rightarrow> world \<Rightarrow> bool" where
  "waiting n c w \<longleftrightarrow> pendingResponse (sess w) = Some n \<and> pendingTimeout (sess w) = Some n \<and>
     currentCommand (sess w) = Some c \<and> length (responseBuffer (sess w)) < responseSize c \<and>
     timers w = [n] \<and> map_of (settled w) n = None"

lemmas session_op_defs = set_state_def settle_def settle_pending_def clearPendingState_def
  resolvePending_def rejectPending_def finish_call_def

lemma idle_conclude [simp]: "idle (conclude n r st w)"
  by (simp add: idle_def conclude_def)

lemma idle_not_waiting: "idle w \<Longrightarrow> \<not> waiting n c w"
  by (simp add: idle_def waiting_def)

lemma reject_waiting: "waiting n c w \<Longrightarrow> set_state st (rejectPending e w) = conclude n (Inl e) st w"
  by (simp add: waiting_def session_op_defs conclude_def)

lemma resolve_waiting: "waiting n c w \<Longrightarrow> set_state st (resolvePending r w) = conclude n (Inr r) st w"
  by (simp add: waiting_def session_op_defs conclude_def)

lemma notify_idle: "idle w \<Longrightarrow> handleNotification d w = w"
  by (simp add: idle_def handleNotification_def)

lemma notify_waiting:
  assumes "waiting n c w"
  shows "handleNotification d w =
    (case chunk_verdict c (responseBuffer (sess w)) d of
       None \<Rightarrow> w\<lparr>sess := (sess w)\<lparr>responseBuffer := responseBuffer (sess w) @ d\<rparr>\<rparr>
     | Some (r, st) \<Rightarrow> conclude n r st w)"
  using assms
  by (auto simp: handleNotification_def chunk_verdict_def concatBytes_def Let_def waiting_def
      session_op_defs conclude_def)

lemma waiting_append:
  "\<lbrakk>waiting n c w; chunk_verdict c (responseBuffer (sess w)) d = None\<rbrakk> \<Longrightarrow>
   waiting n c (w\<lparr>sess := (sess w)\<lparr>responseBuffer := responseBuffer (sess w) @ d\<rparr>\<rparr>)"
  by (auto simp: waiting_def chunk_verdict_def split: if_splits)

lemma timeout_waiting:
  "waiting n c w \<Longrightarrow>
   timeout_fired n w = conclude n (Inl (CommandTimeoutError ''Timed out waiting for response'')) CommandErrorWait w"
  by (simp add: waiting_def timeout_fired_def session_op_defs conclude_def)

lemma write_failed_waiting:
  "waiting n c w \<Longrightarrow> write_failed n c e w = finish_call n c (Inl e) (conclude n (Inl e) Disconnecting w)"
  by (simp add: waiting_def write_failed_def session_op_defs conclude_def)

lemma write_failed_idle:
  "idle w \<Longrightarrow> write_failed n c e w = finish_call n c (Inl e) (set_state Disconnecting w)"
  by (simp add: idle_def write_failed_def session_op_defs)

lemma clear_idle: "idle w \<Longrightarrow> clearPendingState w = w"
  by (simp add: idle_def clearPendingState_def)

lemma perform_ready:
  "\<lbrakk>isReady (sess w); idle w; map_of (settled w) (fresh w) = None; constructed c\<rbrakk> \<Longrightarrow>
   waiting (fresh w) c (perform_start c w)"
  using request.size_min [of c] by (simp add: idle_def waiting_def perform_start_def)

text \<open>What a verdict says about the bytes.\<close>

lemma verdict_Inr:
  "chunk_verdict c buffer d = Some (Inr r, st) \<Longrightarrow> r = buffer @ d \<and> isValidResponse c r \<and> st = Ready"
  by (auto simp: chunk_verdict_def split: if_splits)

lemma verdict_prefix:
  assumes "constructed c" and "isValidResponse c (buffer @ d @ rest)" and "\<not> isAsciiControlMessage d"
  shows "chunk_verdict c buffer d = (if rest = [] then Some (Inr (buffer @ d), Ready) else None)"
proof -
  have whole: "isValidResponse c ((buffer @ d) @ rest)" using assms(2) by simp
  have "\<not> isExceptionResponse c (buffer @ d)"
    by (rule request.ok_prefix_not_exc [OF assms(1) whole])
  moreover have "length (buffer @ d) < responseSize c" if "rest \<noteq> []"
    by (rule request.ok_prefix_short [OF assms(1) whole that])
  moreover have "length (buffer @ d) = responseSize c \<and> isValidResponse c (buffer @ d)" if "rest = []"
    using request.ok_shape [OF assms(1) whole] whole that by simp
  ultimately show ?thesis
    using assms(3) by (cases "rest = []") (auto simp: chunk_verdict_def)
qed

subsection \<open>Invariants of a serialized session\<close>

definition sound_result :: "command \<Rightarrow> bytes result \<Rightarrow> bool" where
  "sound_result c r = (case r of Inr b \<Rightarrow> isValidResponse c b | Inl e \<Rightarrow> True)"

lemma sound_result_simps [simp]: "sound_result c (Inr b) = isValidResponse c b" "sound_result c (Inl e)"
  by (simp_all add: sound_result_def)

text \<open>A result that shows the device answered this command.\<close>

fun answered :: "bytes result \<Rightarrow> bool" where
  "answered (Inr b) = True"
| "answered (Inl (ModbusError m code)) = True"
| "answered (Inl (DeviceBusyError m code)) = True"
| "answered (Inl e) = False"

definition all_answered :: "world \<Rightarrow> bool" where
  "all_answered w = list_all (\<lambda>(n, c, r). answered r) (returned w)"

definition call_inv :: "world \<Rightarrow> bool" where
  "call_inv w \<longleftrightarrow> (calls w = [] \<and> idle w) \<or>
     (\<exists>n c pt. calls w = [(n, c, pt)] \<and> constructed c \<and> n < fresh w \<and> (waiting n c w \<or> idle w))"

definition ids_inv :: "world \<Rightarrow> bool" where
  "ids_inv w \<longleftrightarrow> (\<forall>p r. (p, r) \<in> set (settled w) \<longrightarrow> p < fresh w)"

definition result_inv :: "world \<Rightarrow> bool" where
  "result_inv w \<longleftrightarrow> (\<forall>n c r. (n, c, r) \<in> set (returned w) \<longrightarrow> sound_result c r) \<and>
     (\<forall>n c pt r. (n, c, pt) \<in> set (calls w) \<longrightarrow> map_of (settled w) n = Some r \<longrightarrow> sound_result c r)"

definition session_inv :: "world \<Rightarrow> bool" where
  "session_inv w \<longleftrightarrow> call_inv w \<and> ids_inv w \<and> result_inv w"

lemma session_inv_cases [consumes 1, case_names no_call open_call settled_call]:
  assumes "session_inv w"
  obtains "calls w = []" "idle w"
  | n c pt where "calls w = [(n, c, pt)]" "constructed c" "n < fresh w" "waiting n c w"
  | n c pt where "calls w = [(n, c, pt)]" "constructed c" "n < fresh w" "idle w"
  using assms by (auto simp: session_inv_def call_inv_def)

lemma fresh_unsettled: "ids_inv w \<Longrightarrow> map_of (settled w) (fresh w) = None"
  by (auto simp: ids_inv_def map_of_eq_None_iff)

lemma conclude_inv:
  assumes "session_inv w" and "waiting n c w" and "calls w = [(n, c, pt)]" and "sound_result c r"
  shows "session_inv (conclude n r st w)"
  using assms
  by (auto simp: session_inv_def call_inv_def ids_inv_def result_inv_def conclude_def idle_def waiting_def)

lemma finish_call_inv:
  assumes "session_inv w" and "idle w" and "calls w = [(n, c, pt)]" and "sound_result c r"
  shows "session_inv (finish_call n c r w)" "calls (finish_call n c r w) = []" "idle (finish_call n c r w)"
  using assms
  by (auto simp: session_inv_def call_inv_def ids_inv_def result_inv_def finish_call_def idle_def)

lemma set_state_inv: "session_inv w \<Longrightarrow> idle w \<Longrightarrow> session_inv (set_state st w)"
  by (auto simp: session_inv_def call_inv_def ids_inv_def result_inv_def set_state_def idle_def waiting_def)

lemma idle_set_state [simp]: "idle (set_state st w) = idle w"
  by (simp add: idle_def set_state_def)

lemma calls_simps [simp]:
  "calls (set_state st w) = calls w" "calls (conclude n r st w) = calls w"
  "returned (set_state st w) = returned w" "returned (conclude n r st w) = returned w"
  "settled (set_state st w) = settled w"
  "state (sess (set_state st w)) = st" "state (sess (conclude n r st w)) = st"
  "settled (conclude n r st w) = (n, r) # settled w"
  by (simp_all add: set_state_def conclude_def)

lemma finish_simps [simp]:
  "returned (finish_call n c r w) = (n, c, r) # returned w" "sess (finish_call n c r w) = sess w"
  by (simp_all add: finish_call_def)

lemma perform_inv:
  assumes inv: "session_inv w" and "calls w = []" and "constructed c"
  shows "session_inv (perform_start c w)"
proof (cases "isReady (sess w)")
  case True
  have idle: "idle w" and ids: "ids_inv w" using inv assms(2) by (auto simp: session_inv_def call_inv_def)
  have "waiting (fresh w) c (perform_start c w)"
    using True idle fresh_unsettled [OF ids] assms(3) by (rule perform_ready)
  moreover have "calls (perform_start c w) = [(fresh w, c, AtWrite)]"
    using True assms(2) by (simp add: perform_start_def)
  ultimately show ?thesis
    using inv assms(3) fresh_unsettled [OF ids] True
    by (auto simp: session_inv_def call_inv_def ids_inv_def result_inv_def perform_start_def)
next
  case False
  then show ?thesis
    using assms
    by (auto simp: session_inv_def call_inv_def ids_inv_def result_inv_def perform_start_def idle_def)
qed

lemma notify_inv: "session_inv w \<Longrightarrow> session_inv (handleNotification d w)"
proof (cases rule: session_inv_cases, assumption)
  assume inv: "session_inv w"
  fix n c pt
  assume call: "calls w = [(n, c, pt)]" "constructed c" "n < fresh w" "waiting n c w"
  show ?thesis
  proof (cases "chunk_verdict c (responseBuffer (sess w)) d")
    case None
    with waiting_append [OF call(4) None] inv call show ?thesis
      by (auto simp: notify_waiting [OF call(4)] session_inv_def call_inv_def ids_inv_def result_inv_def)
  next
    case (Some v)
    then obtain r st where v: "chunk_verdict c (responseBuffer (sess w)) d = Some (r, st)" by (cases v) auto
    have "sound_result c r" using v verdict_Inr by (cases r) auto
    then show ?thesis
      using conclude_inv [OF inv call(4,1)] v by (simp add: notify_waiting [OF call(4)])
  qed
qed (simp_all add: notify_idle)

lemma disconnect_inv: "session_inv w \<Longrightarrow> session_inv (disconnect_start w) \<and> session_inv (disconnect_end w)"
  by (auto simp: session_inv_def call_inv_def ids_inv_def result_inv_def disconnect_start_def
      disconnect_end_def idle_def waiting_def set_state_def clearPendingState_def)

lemma session_step_inv:
  assumes inv: "session_inv w" and step: "session_step e w = Some w'"
    and perform: "\<And>c. e = Perform c \<Longrightarrow> calls w = [] \<and> constructed c"
  shows "session_inv w'"
proof (cases e)
  case (Perform c)
  then show ?thesis using perform_inv [OF inv] perform step by auto
next
  case (WriteDone n)
  from inv show ?thesis
    using step WriteDone inv
    by (cases rule: session_inv_cases)
      (auto simp: write_done_def session_inv_def call_inv_def ids_inv_def result_inv_def idle_def
        waiting_def split: if_splits call_point.splits, blast+)
next
  case (WriteFailed n err)
  from inv show ?thesis
  proof (cases rule: session_inv_cases)
    case (open_call m c pt)
    note con = conclude_inv [OF inv open_call(4,1), of "Inl err" Disconnecting]
    show ?thesis
      using step WriteFailed open_call finish_call_inv(1) [OF con, of m c pt "Inl err"]
      by (auto simp: write_failed_waiting split: if_splits call_point.splits)
  next
    case (settled_call m c pt)
    show ?thesis
      using step WriteFailed settled_call
        finish_call_inv(1) [OF set_state_inv [OF inv settled_call(4)], of Disconnecting m c pt "Inl err"]
      by (auto simp: write_failed_idle split: if_splits call_point.splits)
  qed (use step WriteFailed in simp)
next
  case (Notify d)
  then show ?thesis using step notify_inv [OF inv] by auto
next
  case (TimerFires t)
  from inv show ?thesis
  proof (cases rule: session_inv_cases)
    case (open_call m c pt)
    then have "t = m" using step TimerFires by (auto simp: waiting_def split: if_splits)
    then show ?thesis
      using step TimerFires open_call conclude_inv [OF inv open_call(4,1)]
      by (auto simp: timeout_waiting split: if_splits)
  qed (use step TimerFires in \<open>auto simp: idle_def split: if_splits\<close>)
next
  case (Resume n)
  from inv show ?thesis
  proof (cases rule: session_inv_cases)
    case (open_call m c pt)
    then show ?thesis
      using step Resume by (auto simp: waiting_def split: if_splits option.splits call_point.splits)
  next
    case (settled_call m c pt)
    then obtain r where r: "n = m" "map_of (settled w) m = Some r" "w' = response_resumed m c r w"
      using step Resume by (auto split: if_splits option.splits call_point.splits)
    have "sound_result c r" using inv settled_call r by (auto simp: session_inv_def result_inv_def)
    then show ?thesis
      using r settled_call finish_call_inv(1) [OF inv settled_call(4,1)]
        finish_call_inv(1) [OF set_state_inv [OF inv settled_call(4)], of Ready m c pt]
      by (cases r) (simp_all add: response_resumed_def clear_idle)
  qed (use step Resume in simp)
next
  case DisconnectStart
  then show ?thesis using step disconnect_inv [OF inv] by auto
next
  case DisconnectEnd
  then show ?thesis using step disconnect_inv [OF inv] by (auto split: if_splits)
qed

definition commands_constructed :: "event list \<Rightarrow> bool" where
  "commands_constructed es = (\<forall>c. Perform c \<in> set es \<longrightarrow> constructed c)"

lemma session_run_invariant:
  assumes "serial_run es w = Some w'" and "commands_constructed es" and "P w"
    and step: "\<And>e v v'. \<lbrakk>P v; session_step e v = Some v'; e \<in> set es;
      \<And>c. e = Perform c \<Longrightarrow> calls v = [] \<and> constructed c\<rbrakk> \<Longrightarrow> P v'"
  shows "P w'"
  using assms
proof (induction es arbitrary: w)
  case (Cons e es)
  from Cons.prems(1) obtain v where v: "session_step e w = Some v" "serial_run es v = Some w'"
      "\<not> ((\<exists>c. e = Perform c) \<and> calls w \<noteq> [])"
    by (auto split: if_splits option.splits)
  have "P v"
    using Cons.prems(2,3) v by (intro Cons.prems(4) [OF _ v(1)]) (auto simp: commands_constructed_def)
  moreover have "commands_constructed es" using Cons.prems(2) by (simp add: commands_constructed_def)
  ultimately show ?case
    using Cons.IH [OF v(2)] Cons.prems(4) by (metis list.set_intros(2))
qed simp

lemma session_inv_ready [simp]: "session_inv ready_world"
  by (simp add: session_inv_def call_inv_def ids_inv_def result_inv_def ready_world_def idle_def)

lemma serial_run_inv:
  assumes "serial_run es ready_world = Some w" and "commands_constructed es"
  shows "session_inv w"
  using assms session_inv_ready by (rule session_run_invariant) (rule session_step_inv)

subsection \<open>Answered commands\<close>

text \<open>
  As long as nobody disconnects: an idle session that is ready has had every command answered,
  and an open call either waits or has been settled, in the state that its outcome left.
\<close>

definition answer_inv :: "world \<Rightarrow> bool" where
  "answer_inv w \<longleftrightarrow>
     (calls w = [] \<longrightarrow> isReady (sess w) \<longrightarrow> state (sess w) = Ready \<and> all_answered w) \<and>
     (\<forall>n c pt. calls w = [(n, c, pt)] \<longrightarrow>
        (waiting n c w \<and> state (sess w) = PerformingCommand \<and> all_answered w) \<or>
        (idle w \<and> (\<exists>r. map_of (settled w) n = Some r \<and>
           (if state (sess w) = Ready then answered r \<and> all_answered w
            else \<not> isReady (sess w) \<and> \<not> answered r))))"

lemma verdict_answered:
  "chunk_verdict c buffer d = Some (r, st) \<Longrightarrow>
   (st = Ready \<and> answered r) \<or> ((st = CommandErrorWait \<or> st = Disconnecting) \<and> \<not> answered r)"
  by (auto simp: chunk_verdict_def buildModbusException_def Let_def split: if_splits)

lemma all_answered_simps [simp]:
  "all_answered (finish_call n c r w) \<longleftrightarrow> answered r \<and> all_answered w"
  "all_answered (set_state st w) = all_answered w" "all_answered (conclude n r st w) = all_answered w"
  "all_answered (w\<lparr>sess := s\<rparr>) = all_answered w" "all_answered (w\<lparr>calls := cs\<rparr>) = all_answered w"
  by (simp_all add: all_answered_def)

lemma answer_inv_concluded:
  assumes "answer_inv w" and "calls w = [(n, c, pt)]" and "waiting n c w"
    and "(st = Ready \<and> answered r) \<or> ((st = CommandErrorWait \<or> st = Disconnecting) \<and> \<not> answered r)"
  shows "answer_inv (conclude n r st w)"
  using assms idle_not_waiting [of w n c] by (auto simp: answer_inv_def isReady_def)

lemma answer_inv_bad_end:
  "\<lbrakk>calls w' = []; \<not> isReady (sess w')\<rbrakk> \<Longrightarrow> answer_inv w'"
  by (simp add: answer_inv_def)

lemma answer_step:
  assumes inv: "session_inv w" and ans: "answer_inv w" and step: "session_step e w = Some w'"
    and perform: "\<And>c. e = Perform c \<Longrightarrow> calls w = [] \<and> constructed c"
    and disc: "\<not> is_disconnect e"
  shows "answer_inv w'"
proof (cases e)
  case (Perform c)
  have w: "w' = perform_start c w" "calls w = []" "constructed c" using step Perform perform by auto
  have idle: "idle w" and ids: "ids_inv w" using inv w by (auto simp: session_inv_def call_inv_def)
  show ?thesis
  proof (cases "isReady (sess w)")
    case True
    then have "waiting (fresh w) c w'" using perform_ready idle fresh_unsettled [OF ids] w by simp
    moreover have "all_answered w" using ans w True by (simp add: answer_inv_def)
    ultimately show ?thesis using True w by (simp add: answer_inv_def perform_start_def all_answered_def)
  next
    case False
    then show ?thesis using w by (intro answer_inv_bad_end) (simp_all add: perform_start_def)
  qed
next
  case (WriteDone n)
  have "\<And>m c cs. waiting m c (w\<lparr>calls := cs\<rparr>) = waiting m c w" "\<And>cs. idle (w\<lparr>calls := cs\<rparr>) = idle w"
    by (simp_all add: waiting_def idle_def)
  with inv ans show ?thesis
    using step WriteDone
    by (cases rule: session_inv_cases)
      (auto simp: write_done_def answer_inv_def split: if_splits call_point.splits)
next
  case (WriteFailed n err)
  from inv show ?thesis
    using step WriteFailed
    by (cases rule: session_inv_cases)
      (auto intro!: answer_inv_bad_end
        simp: write_failed_waiting write_failed_idle finish_call_def isReady_def split: if_splits call_point.splits)
next
  case (Notify d)
  from inv show ?thesis
  proof (cases rule: session_inv_cases)
    case (open_call m c pt)
    show ?thesis
    proof (cases "chunk_verdict c (responseBuffer (sess w)) d")
      case None
      with ans open_call idle_not_waiting [of w m c] waiting_append [OF open_call(4) None]
      show ?thesis using step Notify
        by (auto simp: notify_waiting [OF open_call(4)] answer_inv_def)
    next
      case (Some v)
      then show ?thesis
        using step Notify answer_inv_concluded [OF ans open_call(1,4) verdict_answered] open_call
        by (cases v) (auto simp: notify_waiting)
    qed
  qed (use step Notify ans in \<open>auto simp: notify_idle\<close>)
next
  case (TimerFires t)
  from inv show ?thesis
  proof (cases rule: session_inv_cases)
    case (open_call m c pt)
    then have "t = m" using step TimerFires by (auto simp: waiting_def split: if_splits)
    then show ?thesis
      using step TimerFires answer_inv_concluded [OF ans open_call(1,4)] open_call
      by (auto simp: timeout_waiting split: if_splits)
  qed (use step TimerFires in \<open>auto simp: idle_def split: if_splits\<close>)
next
  case (Resume n)
  from inv show ?thesis
  proof (cases rule: session_inv_cases)
    case (open_call m c pt)
    then show ?thesis
      using step Resume by (auto simp: waiting_def split: if_splits option.splits call_point.splits)
  next
    case (settled_call m c pt)
    then obtain r where r: "n = m" "map_of (settled w) m = Some r" "w' = response_resumed m c r w"
      using step Resume by (auto split: if_splits option.splits call_point.splits)
    then show ?thesis
      using ans settled_call idle_not_waiting [of w m c]
      by (cases r) (auto simp: answer_inv_def response_resumed_def clear_idle finish_call_def all_answered_def isReady_def
          split: if_splits)
  qed (use step Resume in simp)
qed (use disc in \<open>simp_all add: is_disconnect_def\<close>)

lemma answer_inv_ready [simp]: "answer_inv ready_world"
  by (simp add: answer_inv_def ready_world_def all_answered_def)

lemma serial_run_answer:
  assumes "serial_run es ready_world = Some w" and "commands_constructed es" and "\<not> list_ex is_disconnect es"
  shows "session_inv w \<and> answer_inv w"
proof (rule session_run_invariant [OF assms(1,2)])
  show "session_inv ready_world \<and> answer_inv ready_world" by simp
  fix e v v'
  assume "session_inv v \<and> answer_inv v" "session_step e v = Some v'" "e \<in> set es"
    "\<And>c. e = Perform c \<Longrightarrow> calls v = [] \<and> constructed c"
  then show "session_inv v' \<and> answer_inv v'"
    using session_step_inv answer_step assms(3) by (auto simp: list_ex_iff)
qed

subsection \<open>Reassembly, progress, stranding\<close>

lemma settle_calls:
  "settle_pending r (w\<lparr>calls := cs\<rparr>) = (settle_pending r w)\<lparr>calls := cs\<rparr>"
  "calls (settle_pending r w) = calls w"
  by (simp_all add: settle_pending_def settle_def split: option.split)

lemma clear_calls:
  "clearPendingState (w\<lparr>calls := cs\<rparr>) = (clearPendingState w)\<lparr>calls := cs\<rparr>"
  "calls (clearPendingState w) = calls w"
  "set_state st (w\<lparr>calls := cs\<rparr>) = (set_state st w)\<lparr>calls := cs\<rparr>"
  by (cases "pendingTimeout (sess w)"; simp add: clearPendingState_def set_state_def)+

lemma reject_calls:
  "rejectPending e (w\<lparr>calls := cs\<rparr>) = (rejectPending e w)\<lparr>calls := cs\<rparr>"
  "calls (rejectPending e w) = calls w"
  "resolvePending b (w\<lparr>calls := cs\<rparr>) = (resolvePending b w)\<lparr>calls := cs\<rparr>"
  "calls (resolvePending b w) = calls w"
  by (simp_all add: rejectPending_def resolvePending_def settle_calls clear_calls)

lemma sess_calls: "w\<lparr>calls := cs, sess := s\<rparr> = w\<lparr>sess := s, calls := cs\<rparr>"
  by simp

lemma notify_calls:
  "handleNotification d (w\<lparr>calls := cs\<rparr>) = (handleNotification d w)\<lparr>calls := cs\<rparr>"
  by (auto simp: handleNotification_def Let_def reject_calls clear_calls sess_calls split: option.split)

lemma notify_keeps_calls [simp]: "calls (handleNotification d w) = calls w"
  by (simp add: handleNotification_def Let_def reject_calls split: option.split)

definition deliver :: "bytes list \<Rightarrow> world \<Rightarrow> world" where
  "deliver ds w = foldl (\<lambda>w d. handleNotification d w) w ds"

lemma deliver_simps [simp]:
  "deliver [] w = w" "deliver (d # ds) w = deliver ds (handleNotification d w)"
  "deliver (ds @ es) w = deliver es (deliver ds w)"
  by (simp_all add: deliver_def)

lemma deliver_calls: "deliver ds (w\<lparr>calls := cs\<rparr>) = (deliver ds w)\<lparr>calls := cs\<rparr>" "calls (deliver ds w) = calls w"
  by (induction ds arbitrary: w) (simp_all add: notify_calls)

lemma session_run_deliver: "session_run (map Notify ds @ es) w = session_run es (deliver ds w)"
  by (induction ds arbitrary: w) simp_all

lemma deliver_idle: "idle w \<Longrightarrow> deliver ds w = w"
  by (induction ds) (simp_all add: notify_idle)

lemma deliver_response:
  assumes "waiting n c w" and "constructed c" and "isValidResponse c (responseBuffer (sess w) @ concat ds)"
    and "\<forall>d \<in> set ds. \<not> isAsciiControlMessage d" and "ds \<noteq> []"
  shows "deliver ds w = conclude n (Inr (responseBuffer (sess w) @ concat ds)) Ready w"
  using assms
proof (induction ds arbitrary: w)
  case (Cons d ds)
  let ?b = "responseBuffer (sess w)"
  have verdict: "chunk_verdict c ?b d =
      (if concat ds = [] then Some (Inr (?b @ d), Ready) else None)"
    using Cons.prems by (intro verdict_prefix) simp_all
  show ?case
  proof (cases "concat ds = []")
    case True
    then show ?thesis
      using verdict Cons.prems(1) by (simp add: notify_waiting deliver_idle del: concat_eq_Nil_conv)
  next
    case False
    let ?w = "w\<lparr>sess := (sess w)\<lparr>responseBuffer := ?b @ d\<rparr>\<rparr>"
    have "chunk_verdict c ?b d = None" using verdict False by simp
    then have w: "handleNotification d w = ?w" "waiting n c ?w"
      using Cons.prems(1) waiting_append by (simp_all add: notify_waiting)
    have "ds \<noteq> []" using False by auto
    then have "deliver ds ?w = conclude n (Inr (responseBuffer (sess ?w) @ concat ds)) Ready ?w"
      using Cons.prems by (intro Cons.IH [OF w(2)]) simp_all
    then show ?thesis using w(1) by (simp add: conclude_def)
  qed
qed simp

text \<open>After a disconnect an open call has lost its promise and its timer.\<close>

definition stranded :: "nat \<Rightarrow> command \<Rightarrow> world \<Rightarrow> bool" where
  "stranded n c w \<longleftrightarrow> calls w = [(n, c, AtResponse)] \<and> idle w \<and> map_of (settled w) n = None"

lemma disconnect_strands:
  "\<lbrakk>waiting n c w; calls w = [(n, c, AtResponse)]\<rbrakk> \<Longrightarrow> stranded n c (disconnect_start w)"
  by (simp add: waiting_def stranded_def disconnect_start_def set_state_def clearPendingState_def idle_def)

lemma stranded_step:
  "\<lbrakk>stranded n c w; session_step e w = Some w'; \<nexists>c. e = Perform c\<rbrakk> \<Longrightarrow> stranded n c w'"
  by (cases e) (auto simp: stranded_def notify_idle disconnect_start_def disconnect_end_def clear_idle
      set_state_def idle_def split: if_splits)

lemma stranded_run: "\<lbrakk>stranded n c w; serial_run es w = Some w'\<rbrakk> \<Longrightarrow> stranded n c w'"
proof (induction es arbitrary: w)
  case (Cons e es)
  have "calls w \<noteq> []" using Cons.prems(1) by (simp add: stranded_def)
  then obtain v where "session_step e w = Some v" "serial_run es v = Some w'" "\<nexists>c. e = Perform c"
    using Cons.prems(2) by (auto split: if_splits option.splits)
  with Cons.IH Cons.prems(1) stranded_step show ?case by blast
qed simp

subsection \<open>Properties\<close>

lemma sample_valid:
  "isValidResponse (ReadHoldingRegisters 10 1 (read_frame 10 1)) (appendModbusCrc [1, 3, 2, 7, 9])"
  by (rule read_valid_iff [THEN iffD2, OF _ _ exI [of _ "[7, 9]"]]) simp_all

abbreviation sample_command :: command where
  "sample_command \<equiv> ReadHoldingRegisters 10 1 (read_frame 10 1)"

abbreviation sample_response :: bytes where
  "sample_response \<equiv> appendModbusCrc [1, 3, 2, 7, 9]"

abbreviation sample_events :: "event list" where
  "sample_events \<equiv> [Perform sample_command, WriteDone 0, Notify sample_response, Resume 0]"

lemma ready_run_nil: "serial_run [] ready_world = Some ready_world" "commands_constructed []"
  by (simp_all add: commands_constructed_def)

lemma sample_not_control: "\<not> isAsciiControlMessage sample_response"
  by (simp add: isAsciiControlMessage_def AT_CONTROL_NAME_MESSAGE_def AT_CONTROL_ADV_MESSAGE_def
      ascii_text_def appendModbusCrc_residue)

lemma sample_events_ok: "commands_constructed sample_events" "\<not> list_ex is_disconnect sample_events"
  using constructed_sample by (auto simp: commands_constructed_def is_disconnect_def)

lemma sample_run:
  "\<exists>w. serial_run sample_events ready_world = Some w \<and> calls w = [] \<and> state (sess w) = Ready \<and>
       returned w = [(0, sample_command, Inr sample_response)]"
proof -
  let ?p = "(perform_start sample_command ready_world)\<lparr>calls := [(0, sample_command, AtResponse)]\<rparr>"
  have "waiting (fresh ready_world) sample_command (perform_start sample_command ready_world)"
    by (intro perform_ready constructed_sample) (simp_all add: ready_world_def isReady_def idle_def)
  then have "waiting 0 sample_command ?p" by (simp add: waiting_def ready_world_def)
  moreover have "chunk_verdict sample_command [] sample_response = Some (Inr sample_response, Ready)"
    using verdict_prefix [OF constructed_sample, of "[]" sample_response "[]"] sample_valid sample_not_control
    by simp
  moreover have "responseBuffer (sess ?p) = []" by (simp add: perform_start_def ready_world_def isReady_def)
  ultimately have "handleNotification sample_response ?p = conclude 0 (Inr sample_response) Ready ?p"
    by (simp add: notify_waiting)
  moreover have "calls (perform_start sample_command ready_world) = [(0, sample_command, AtWrite)]"
      "returned (perform_start sample_command ready_world) = []" "calls ready_world = []"
    by (simp_all add: perform_start_def ready_world_def isReady_def)
  ultimately show ?thesis
    by (simp add: write_done_def response_resumed_def finish_call_def clearPendingState_def set_state_def conclude_def)
qed

text \<open>
  C4: whatever the interleaving of notifications, write acknowledgements, timer, resumptions and
  disconnects, as long as callers wait for one call before they start the next: a call of
  \<open>perform\<close> that returns bytes returns a response that is valid for the command of that very
  call; at most one call is in flight; the buffer of an open exchange stays shorter than the
  response it expects; and when no call is in flight no timer is left armed and no promise,
  command or byte is left behind.
\<close>

theorem session_correlation:
  assumes "serial_run es ready_world = Some w" and "commands_constructed es"
  shows "((n, c, Inr r) \<in> set (returned w) \<longrightarrow> isValidResponse c r) \<and>
    length (calls w) \<le> 1 \<and>
    (currentCommand (sess w) = Some c' \<longrightarrow> length (responseBuffer (sess w)) < responseSize c') \<and>
    (calls w = [] \<longrightarrow> timers w = [] \<and> pendingResponse (sess w) = None \<and>
       currentCommand (sess w) = None \<and> responseBuffer (sess w) = [])"
proof -
  have inv: "session_inv w" using assms by (rule serial_run_inv)
  then have "(n, c, Inr r) \<in> set (returned w) \<longrightarrow> isValidResponse c r"
    by (auto simp: session_inv_def result_inv_def dest!: spec)
  with inv show ?thesis
    by (cases rule: session_inv_cases) (auto simp: idle_def waiting_def)
qed

theorem session_correlation_witness:
  "\<exists>w. serial_run sample_events ready_world = Some w \<and>
     (0, sample_command, Inr sample_response) \<in> set (returned w) \<and>
     isValidResponse sample_command sample_response \<and> timers w = []"
proof -
  obtain w where w: "serial_run sample_events ready_world = Some w" "calls w = []"
      "(0, sample_command, Inr sample_response) \<in> set (returned w)"
    using sample_run by auto
  with session_correlation [OF w(1) sample_events_ok(1)] show ?thesis by blast
qed





text \<open>
  C7: no call of \<open>perform\<close> hangs while nobody disconnects: from every reachable state with a
  call in flight the response timer (unless the exchange has been settled already), the write
  acknowledgement (unless it has come) and the resumption are possible in this order, and then
  the call has returned.
\<close>

theorem perform_terminates:
  assumes "serial_run es ready_world = Some w" and "commands_constructed es"
    and "\<not> list_ex is_disconnect es" and "calls w = [(n, c, pt)]"
  shows "\<exists>w'. session_run ((if map_of (settled w) n = None then [TimerFires n] else []) @
                          (if pt = AtWrite then [WriteDone n] else []) @ [Resume n]) w = Some w' \<and>
              calls w' = [] \<and> (\<exists>r. (n, c, r) \<in> set (returned w'))"
proof -
  have inv: "session_inv w" "answer_inv w" using serial_run_answer [OF assms(1-3)] by simp_all
  then consider "waiting n c w" | r where "idle w" "map_of (settled w) n = Some r"
    using assms(4) by (auto simp: answer_inv_def)
  then show ?thesis
  proof cases
    case 1
    then have t: "map_of (settled w) n = None" "n \<in> set (timers w)" by (simp_all add: waiting_def)
    show ?thesis
      using t assms(4) timeout_waiting [OF 1]
      by (cases pt) (auto simp: write_done_def conclude_def response_resumed_def clearPendingState_def finish_call_def)
  next
    case 2
    then show ?thesis
      using assms(4)
      by (cases pt; cases r)
        (auto simp: write_done_def response_resumed_def clearPendingState_def finish_call_def set_state_def idle_def)
  qed
qed

theorem perform_terminates_witness:
  "\<exists>w'. session_run [TimerFires 0, WriteDone 0, Resume 0] (perform_start sample_command ready_world) = Some w' \<and>
     calls w' = []"
proof -
  have run: "serial_run [Perform sample_command] ready_world = Some (perform_start sample_command ready_world)"
    by (simp add: ready_world_def)
  have calls: "calls (perform_start sample_command ready_world) = [(0, sample_command, AtWrite)]"
      "map_of (settled (perform_start sample_command ready_world)) 0 = None"
    by (simp_all add: perform_start_def ready_world_def isReady_def)
  have "commands_constructed [Perform sample_command]" "\<not> list_ex is_disconnect [Perform sample_command]"
    using constructed_sample by (simp_all add: commands_constructed_def is_disconnect_def)
  from perform_terminates [OF run this calls(1)] show ?thesis
    by (simp only: calls(2) simp_thms if_True append.simps) blast
qed

subsection \<open>Abandoned exchanges\<close>

text \<open>A session that failed stays unusable until somebody disconnects.\<close>

definition failed :: "world \<Rightarrow> bool" where
  "failed w \<longleftrightarrow> \<not> isReady (sess w) \<and> idle w \<and>
     (calls w = [] \<or> (\<exists>n c pt e. calls w = [(n, c, pt)] \<and> map_of (settled w) n = Some (Inl e)))"

lemma failed_step:
  assumes "failed w" and "session_step e w = Some w'" and "\<not> is_disconnect e"
  shows "failed w' \<and> wire w' = wire w"
proof (cases e)
  case (Perform c)
  with assms show ?thesis by (auto simp: failed_def perform_start_def idle_def)
next
  case (WriteDone n)
  with assms show ?thesis
    by (auto simp: failed_def write_done_def idle_def isReady_def split: if_splits call_point.splits)
next
  case (WriteFailed n err)
  with assms show ?thesis
    by (auto simp: failed_def write_failed_idle finish_call_def idle_def isReady_def set_state_def
        split: if_splits call_point.splits)
next
  case (Notify d)
  with assms show ?thesis by (simp add: failed_def notify_idle)
next
  case (TimerFires t)
  with assms show ?thesis by (simp add: failed_def idle_def split: if_splits)
next
  case (Resume n)
  with assms show ?thesis
    by (auto simp: failed_def response_resumed_def clear_idle finish_call_def idle_def isReady_def
        split: if_splits call_point.splits option.splits)
qed (use assms in \<open>simp_all add: is_disconnect_def\<close>)

lemma failed_run:
  "\<lbrakk>failed w; session_run es w = Some w'; \<not> list_ex is_disconnect es\<rbrakk> \<Longrightarrow> failed w' \<and> wire w' = wire w"
proof (induction es arbitrary: w)
  case (Cons e es)
  then obtain v where "session_step e w = Some v" "session_run es v = Some w'" by (auto split: option.splits)
  with Cons failed_step [OF Cons.prems(1), of e v] show ?case by auto
qed simp

text \<open>
  A timeout ends the session's usefulness: from then on, until somebody disconnects, no
  further frame is written and the session is never ready again; a call of \<open>perform\<close> fails at
  once with \<open>BadConnectionError\<close>, although the state is documented to accept a retry.
\<close>

theorem timeout_is_final:
  assumes "waiting n c w" and "calls w = [(n, c, pt)]"
    and "session_run (TimerFires n # es) w = Some w'" and "\<not> list_ex is_disconnect es"
  shows "wire w' = wire w \<and> \<not> isReady (sess w') \<and>
    returned (perform_start c' w') =
      (fresh w', c', Inl (BadConnectionError ''Device is not ready'')) # returned w'"
proof -
  have t: "n \<in> set (timers w)" using assms(1) by (simp add: waiting_def)
  have "failed (timeout_fired n w) \<and> wire (timeout_fired n w) = wire w"
    using assms(2) by (simp add: timeout_waiting [OF assms(1)] failed_def isReady_def) (simp add: conclude_def)
  then have "failed w' \<and> wire w' = wire w"
    using failed_run [of "timeout_fired n w" es w'] assms(3,4) t by simp
  then show ?thesis by (simp add: failed_def perform_start_def)
qed

lemma sample_waiting:
  "waiting 0 sample_command (perform_start sample_command ready_world)"
  "calls (perform_start sample_command ready_world) = [(0, sample_command, AtWrite)]"
proof -
  have "waiting (fresh ready_world) sample_command (perform_start sample_command ready_world)"
    by (intro perform_ready constructed_sample) (simp_all add: ready_world_def isReady_def idle_def)
  then show "waiting 0 sample_command (perform_start sample_command ready_world)"
    by (simp add: ready_world_def)
qed (simp add: perform_start_def ready_world_def isReady_def)

theorem timeout_is_final_witness:
  "\<exists>w'. session_run [TimerFires 0, WriteDone 0, Resume 0] (perform_start sample_command ready_world) = Some w' \<and>
     \<not> isReady (sess w')"
proof -
  let ?w = "perform_start sample_command ready_world"
  have "0 \<in> set (timers ?w)" using sample_waiting(1) by (simp add: waiting_def)
  then have "\<exists>w'. session_run [TimerFires 0, WriteDone 0, Resume 0] ?w = Some w'"
    using sample_waiting(2) timeout_waiting [OF sample_waiting(1)]
    by (simp add: write_done_def conclude_def)
  then obtain w' where w': "session_run (TimerFires 0 # [WriteDone 0, Resume 0]) ?w = Some w'" by blast
  then show ?thesis
    using timeout_is_final [OF sample_waiting w'] by (auto simp: is_disconnect_def simp del: session_run.simps)
qed

text \<open>
  \<open>disconnect\<close> strands the exchange it interrupts: the pending response is dropped, not
  rejected, and its timer is cleared, so once the write has been acknowledged the interrupted
  call of \<open>perform\<close> never returns, whatever happens afterwards.
\<close>

theorem disconnect_strands_call:
  assumes "waiting n c w" and "calls w = [(n, c, AtResponse)]"
    and "serial_run (DisconnectStart # es) w = Some w'"
  shows "calls w' = [(n, c, AtResponse)] \<and> map_of (settled w') n = None \<and> timers w' = []"
proof -
  have "stranded n c (disconnect_start w)" using assms(1,2) by (rule disconnect_strands)
  then have "stranded n c w'" using stranded_run assms(3) by simp
  then show ?thesis by (simp add: stranded_def idle_def)
qed

theorem disconnect_strands_call_witness:
  "\<exists>w'. serial_run [DisconnectStart, DisconnectEnd, Notify sample_response]
       (write_done 0 sample_command (perform_start sample_command ready_world)) = Some w' \<and>
     calls w' = [(0, sample_command, AtResponse)] \<and> timers w' = []"
proof -
  let ?w = "write_done 0 sample_command (perform_start sample_command ready_world)"
  have w: "waiting 0 sample_command ?w" "calls ?w = [(0, sample_command, AtResponse)]"
    using sample_waiting by (simp_all add: waiting_def write_done_def)
  obtain w' where w': "serial_run (DisconnectStart # [DisconnectEnd, Notify sample_response]) ?w = Some w'"
    by (auto simp: disconnect_start_def set_state_def)
  show ?thesis using disconnect_strands_call [OF w w'] w' by blast
qed

end
