(* ===== verification/Transport.thy ===== *)
theory Transport
  imports Session
begin

text \<open>
  \<open>BluetoothTransport\<close> (\<open>bluetooth/transport.ts\<close>) and its two implementations: the in-memory
  transport of \<open>mock-transport.ts\<close> and the native-helper transport of \<open>helper-transport.ts\<close>.
  A transport object is a handle into the state \<open>'e\<close> that holds all of them, so that several
  transports can share one helper client; an operation returns its outcome and the new state.
  The helper client is a parameter (a record of its operations on a state of its own): nothing
  is assumed about what it answers. A callback is the number of the session that registered it.
  The locale \<open>bluetooth_transport\<close> is the documented contract, which sessions rely on.
\<close>

record 'e transport_ops =
  op_connect :: "nat \<Rightarrow> string \<Rightarrow> 'e \<Rightarrow> unit result \<times> 'e"
  op_disconnect :: "nat \<Rightarrow> 'e \<Rightarrow> unit result \<times> 'e"
  op_read :: "nat \<Rightarrow> string \<Rightarrow> 'e \<Rightarrow> bytes result \<times> 'e"
  op_write :: "nat \<Rightarrow> string \<Rightarrow> bytes \<Rightarrow> 'e \<Rightarrow> unit result \<times> 'e"
  op_subscribe :: "nat \<Rightarrow> string \<Rightarrow> nat \<Rightarrow> 'e \<Rightarrow> unit result \<times> 'e"

subsection \<open>The contract\<close>

text \<open>
  \<open>opened e h\<close>: transport \<open>h\<close> owns a connection; \<open>target e h u\<close>: the callback a notification of
  characteristic \<open>u\<close> on \<open>h\<close> reaches. Disconnecting removes the connection and every callback,
  whatever the outcome, and no operation touches another transport.
\<close>

locale bluetooth_transport =
  fixes ops :: "'e transport_ops" and opened :: "'e \<Rightarrow> nat \<Rightarrow> bool"
    and target :: "'e \<Rightarrow> nat \<Rightarrow> string \<Rightarrow> nat option"
  assumes connect_opens: "op_connect ops h a e = (Inr u, e') \<Longrightarrow> opened e' h"
    and disconnect_closes: "op_disconnect ops h e = (r, e') \<Longrightarrow> \<not> opened e' h \<and> target e' h uuid = None"
    and read_keeps: "op_read ops h uuid e = (rb, e') \<Longrightarrow> opened e' h = opened e h"
    and subscribe_targets: "\<lbrakk>opened e h; op_subscribe ops h uuid cb e = (Inr u, e')\<rbrakk> \<Longrightarrow>
      opened e' h \<and> target e' h uuid = Some cb"
    and connect_local: "\<lbrakk>op_connect ops h a e = (ru, e'); k \<noteq> h\<rbrakk> \<Longrightarrow>
      opened e' k = opened e k \<and> target e' k uuid = target e k uuid"
    and disconnect_local: "\<lbrakk>op_disconnect ops h e = (ru, e'); k \<noteq> h\<rbrakk> \<Longrightarrow>
      opened e' k = opened e k \<and> target e' k uuid = target e k uuid"
    and read_local: "\<lbrakk>op_read ops h v e = (rb, e'); k \<noteq> h\<rbrakk> \<Longrightarrow>
      opened e' k = opened e k \<and> target e' k uuid = target e k uuid"
    and subscribe_local: "\<lbrakk>op_subscribe ops h v cb e = (ru, e'); k \<noteq> h\<rbrakk> \<Longrightarrow>
      opened e' k = opened e k \<and> target e' k uuid = target e k uuid"

subsection \<open>The in-memory transport (mock-transport.ts)\<close>

record mock_transport =
  characteristics :: "(string \<times> bytes) list"
  mock_subscribers :: "(string \<times> nat) list"
  mock_writes :: "bytes list"
  connectedAddress :: "string option"

type_synonym mock_env = "nat \<Rightarrow> mock_transport"

definition mock_normalizeUuid :: "string \<Rightarrow> string" where
  "mock_normalizeUuid uuid = to_lower (filter (\<lambda>c. c \<noteq> CHR ''-'') uuid)"

definition new_MockBluetoothTransport :: "(string \<times> bytes) list \<Rightarrow> bytes list \<Rightarrow> mock_transport" where
  "new_MockBluetoothTransport seed writes =
     \<lparr>characteristics = foldl (\<lambda>m (uuid, v). obj_set (mock_normalizeUuid uuid) v m) [] seed,
      mock_subscribers = [], mock_writes = writes, connectedAddress = None\<rparr>"

definition mock_not_connected :: js_error where
  "mock_not_connected = PlainError ''Mock Bluetooth transport is not connected''"

definition mock_connect :: "nat \<Rightarrow> string \<Rightarrow> mock_env \<Rightarrow> unit result \<times> mock_env" where
  "mock_connect h address e = (Inr (), e(h := (e h)\<lparr>connectedAddress := Some address\<rparr>))"

definition mock_disconnect :: "nat \<Rightarrow> mock_env \<Rightarrow> unit result \<times> mock_env" where
  "mock_disconnect h e = (Inr (), e(h := (e h)\<lparr>connectedAddress := None, mock_subscribers := []\<rparr>))"

definition mock_readCharacteristic :: "nat \<Rightarrow> string \<Rightarrow> mock_env \<Rightarrow> bytes result \<times> mock_env" where
  "mock_readCharacteristic h uuid e =
     (if connectedAddress (e h) = None then (Inl mock_not_connected, e)
      else (case map_of (characteristics (e h)) (mock_normalizeUuid uuid) of
              None \<Rightarrow> (Inl (PlainError ''No mock characteristic value registered''), e)
            | Some v \<Rightarrow> (Inr v, e)))"

definition mock_writeCharacteristic ::
  "nat \<Rightarrow> string \<Rightarrow> bytes \<Rightarrow> mock_env \<Rightarrow> unit result \<times> mock_env" where
  "mock_writeCharacteristic h uuid d e =
     (if connectedAddress (e h) = None then (Inl mock_not_connected, e)
      else (Inr (), e(h := (e h)\<lparr>mock_writes := mock_writes (e h) @ [d]\<rparr>)))"

definition mock_subscribe :: "nat \<Rightarrow> string \<Rightarrow> nat \<Rightarrow> mock_env \<Rightarrow> unit result \<times> mock_env" where
  "mock_subscribe h uuid onData e =
     (if connectedAddress (e h) = None then (Inl mock_not_connected, e)
      else (Inr (), e(h := (e h)\<lparr>mock_subscribers :=
              obj_set (mock_normalizeUuid uuid) onData (mock_subscribers (e h))\<rparr>)))"

text \<open>\<open>emit\<close> returns the callback that gets the bytes.\<close>

definition mock_emit :: "nat \<Rightarrow> string \<Rightarrow> bytes \<Rightarrow> mock_env \<Rightarrow> (nat \<times> bytes) result" where
  "mock_emit h uuid d e =
     (if connectedAddress (e h) = None then Inl mock_not_connected
      else (case map_of (mock_subscribers (e h)) (mock_normalizeUuid uuid) of
              None \<Rightarrow> Inl (PlainError ''No mock subscriber registered'')
            | Some subscriber \<Rightarrow> Inr (subscriber, d)))"

definition mock_ops :: "mock_env transport_ops" where
  "mock_ops = \<lparr>op_connect = mock_connect, op_disconnect = mock_disconnect,
     op_read = mock_readCharacteristic, op_write = mock_writeCharacteristic,
     op_subscribe = mock_subscribe\<rparr>"

lemmas mock_defs = mock_ops_def mock_connect_def mock_disconnect_def mock_readCharacteristic_def
  mock_writeCharacteristic_def mock_subscribe_def

definition mock_opened :: "mock_env \<Rightarrow> nat \<Rightarrow> bool" where
  "mock_opened e h = (connectedAddress (e h) \<noteq> None)"

definition mock_target :: "mock_env \<Rightarrow> nat \<Rightarrow> string \<Rightarrow> nat option" where
  "mock_target e h uuid = (case mock_emit h uuid [] e of Inl _ \<Rightarrow> None | Inr (cb, _) \<Rightarrow> Some cb)"

interpretation mock: bluetooth_transport mock_ops mock_opened mock_target
  by unfold_locales
    (auto simp: mock_defs mock_opened_def mock_target_def mock_emit_def split: if_splits option.splits)

subsection \<open>The native-helper transport (helper-transport.ts)\<close>

text \<open>
  The operations of \<open>WindowsHelperClient\<close> the transport calls; \<open>hc_onNotification\<close> registers the
  transport's listener and may throw.
\<close>

record 'c helper_ops =
  hc_connect :: "string \<Rightarrow> 'c \<Rightarrow> string result \<times> 'c"
  hc_disconnect :: "string \<Rightarrow> 'c \<Rightarrow> unit result \<times> 'c"
  hc_read :: "string \<Rightarrow> string \<Rightarrow> 'c \<Rightarrow> bytes result \<times> 'c"
  hc_write :: "string \<Rightarrow> string \<Rightarrow> bytes \<Rightarrow> 'c \<Rightarrow> unit result \<times> 'c"
  hc_subscribe :: "string \<Rightarrow> string \<Rightarrow> 'c \<Rightarrow> unit result \<times> 'c"
  hc_onNotification :: "nat \<Rightarrow> 'c \<Rightarrow> unit result \<times> 'c"
  hc_unsubscribe :: "nat \<Rightarrow> 'c \<Rightarrow> 'c"

record helper_transport =
  sessionId :: "string option"
  listening :: bool
  subscribers :: "(string \<times> nat) list"

record 'c helper_env =
  client :: 'c
  transports :: "nat \<Rightarrow> helper_transport"
  created :: nat

definition new_WindowsHelperTransport :: helper_transport where
  "new_WindowsHelperTransport = \<lparr>sessionId = None, listening = False, subscribers = []\<rparr>"

definition helper_create :: "'c helper_env \<Rightarrow> nat \<times> 'c helper_env" where
  "helper_create e =
     (created e, e\<lparr>transports := (transports e)(created e := new_WindowsHelperTransport),
                   created := created e + 1\<rparr>)"

definition set_transport :: "nat \<Rightarrow> helper_transport \<Rightarrow> 'c helper_env \<Rightarrow> 'c helper_env" where
  "set_transport h t e = e\<lparr>transports := (transports e)(h := t)\<rparr>"

definition normalizeUuid :: "string \<Rightarrow> string" where
  "normalizeUuid uuid = to_lower uuid"

definition helper_connect ::
  "'c helper_ops \<Rightarrow> nat \<Rightarrow> string \<Rightarrow> 'c helper_env \<Rightarrow> unit result \<times> 'c helper_env" where
  "helper_connect hc h address e =
     (if sessionId (transports e h) \<noteq> None
      then (Inl (PlainError ''Helper transport is already connected''), e)
      else (case hc_connect hc address (client e) of
              (Inl err, c) \<Rightarrow> (Inl err, e\<lparr>client := c\<rparr>)
            | (Inr sid, c) \<Rightarrow>
                (let t = (transports e h)\<lparr>sessionId := Some sid\<rparr>
                 in case hc_onNotification hc h c of
                      (Inr _, c) \<Rightarrow> (Inr (), set_transport h (t\<lparr>listening := True\<rparr>) (e\<lparr>client := c\<rparr>))
                    | (Inl err, c) \<Rightarrow>
                        (case hc_disconnect hc sid c of
                           (_, c) \<Rightarrow> (Inl err, set_transport h (t\<lparr>sessionId := None\<rparr>) (e\<lparr>client := c\<rparr>))))))"

definition helper_disconnect ::
  "'c helper_ops \<Rightarrow> nat \<Rightarrow> 'c helper_env \<Rightarrow> unit result \<times> 'c helper_env" where
  "helper_disconnect hc h e =
     (let sid = sessionId (transports e h);
          c = (if listening (transports e h) then hc_unsubscribe hc h (client e) else client e);
          e = set_transport h \<lparr>sessionId = None, listening = False, subscribers = []\<rparr> (e\<lparr>client := c\<rparr>)
      in case sid of
           None \<Rightarrow> (Inr (), e)
         | Some s \<Rightarrow> (case hc_disconnect hc s (client e) of (r, c) \<Rightarrow> (r, e\<lparr>client := c\<rparr>)))"

definition requireSessionId :: "nat \<Rightarrow> 'c helper_env \<Rightarrow> string result" where
  "requireSessionId h e =
     (case sessionId (transports e h) of
        None \<Rightarrow> Inl (PlainError ''Helper transport is not connected'') | Some s \<Rightarrow> Inr s)"

definition helper_readCharacteristic ::
  "'c helper_ops \<Rightarrow> nat \<Rightarrow> string \<Rightarrow> 'c helper_env \<Rightarrow> bytes result \<times> 'c helper_env" where
  "helper_readCharacteristic hc h uuid e =
     (case requireSessionId h e of
        Inl err \<Rightarrow> (Inl err, e)
      | Inr s \<Rightarrow> (case hc_read hc s uuid (client e) of (r, c) \<Rightarrow> (r, e\<lparr>client := c\<rparr>)))"

definition helper_writeCharacteristic ::
  "'c helper_ops \<Rightarrow> nat \<Rightarrow> string \<Rightarrow> bytes \<Rightarrow> 'c helper_env \<Rightarrow> unit result \<times> 'c helper_env" where
  "helper_writeCharacteristic hc h uuid d e =
     (case requireSessionId h e of
        Inl err \<Rightarrow> (Inl err, e)
      | Inr s \<Rightarrow> (case hc_write hc s uuid d (client e) of (r, c) \<Rightarrow> (r, e\<lparr>client := c\<rparr>)))"

text \<open>The callback is registered before the request and put back when it fails.\<close>

definition helper_subscribe ::
  "'c helper_ops \<Rightarrow> nat \<Rightarrow> string \<Rightarrow> nat \<Rightarrow> 'c helper_env \<Rightarrow> unit result \<times> 'c helper_env" where
  "helper_subscribe hc h uuid onData e =
     (let key = normalizeUuid uuid;
          previous = map_of (subscribers (transports e h)) key;
          e = set_transport h ((transports e h)\<lparr>subscribers :=
                obj_set key onData (subscribers (transports e h))\<rparr>) e;
          outcome = (case requireSessionId h e of
             Inl err \<Rightarrow> (Inl err, e)
           | Inr s \<Rightarrow> (case hc_subscribe hc s uuid (client e) of (r, c) \<Rightarrow> (r, e\<lparr>client := c\<rparr>)))
      in case outcome of
           (Inr _, e) \<Rightarrow> (Inr (), e)
         | (Inl err, e) \<Rightarrow>
             (Inl err, set_transport h ((transports e h)\<lparr>subscribers :=
                (case previous of
                   None \<Rightarrow> obj_delete key (subscribers (transports e h))
                 | Some cb \<Rightarrow> obj_set key cb (subscribers (transports e h)))\<rparr>) e))"

text \<open>The listener: a notification event of the helper, filtered by session and characteristic.\<close>

definition helper_route :: "'c helper_env \<Rightarrow> nat \<Rightarrow> string \<Rightarrow> string \<Rightarrow> nat option" where
  "helper_route e h event_session event_uuid =
     (if \<not> listening (transports e h) then None
      else if Some event_session \<noteq> sessionId (transports e h) then None
      else map_of (subscribers (transports e h)) (normalizeUuid event_uuid))"

definition helper_transport_ops :: "'c helper_ops \<Rightarrow> 'c helper_env transport_ops" where
  "helper_transport_ops hc = \<lparr>op_connect = helper_connect hc, op_disconnect = helper_disconnect hc,
     op_read = helper_readCharacteristic hc, op_write = helper_writeCharacteristic hc,
     op_subscribe = helper_subscribe hc\<rparr>"

lemmas helper_defs = helper_transport_ops_def helper_connect_def helper_disconnect_def
  helper_readCharacteristic_def helper_writeCharacteristic_def helper_subscribe_def
  requireSessionId_def set_transport_def

definition helper_opened :: "'c helper_env \<Rightarrow> nat \<Rightarrow> bool" where
  "helper_opened e h = (sessionId (transports e h) \<noteq> None \<and> listening (transports e h))"

definition helper_target :: "'c helper_env \<Rightarrow> nat \<Rightarrow> string \<Rightarrow> nat option" where
  "helper_target e h uuid =
     (case sessionId (transports e h) of None \<Rightarrow> None | Some s \<Rightarrow> helper_route e h s uuid)"

interpretation helper: bluetooth_transport "helper_transport_ops hc" helper_opened helper_target
  for hc :: "'c helper_ops"
  by unfold_locales
    (auto simp: helper_defs helper_opened_def helper_target_def helper_route_def Let_def
      split: if_splits option.splits sum.splits prod.splits)

end
