(* ===== verification/Connect.thy ===== *)
theory Connect
  imports Transport
begin

text \<open>
  Opening and closing a session (\<open>connectAndInitialize\<close> and \<open>disconnect\<close> of
  \<open>bluetooth/device-session.ts\<close>) over a transport: the retry loop with its delay, the order
  connect, read name, subscribe, and the cleanup after a failed attempt. The loop is a recursion
  on the attempt number; the last component of its state counts the milliseconds slept.
\<close>

definition CONNECT_RETRY_COUNT :: nat where "CONNECT_RETRY_COUNT = 3"
definition CONNECT_RETRY_DELAY_MS :: nat where "CONNECT_RETRY_DELAY_MS = 1000"
definition WRITE_UUID :: string where "WRITE_UUID = ''0000ff02-0000-1000-8000-00805f9b34fb''"
definition NOTIFY_UUID :: string where "NOTIFY_UUID = ''0000ff01-0000-1000-8000-00805f9b34fb''"
definition DEVICE_NAME_UUID :: string where
  "DEVICE_NAME_UUID = ''00002a00-0000-1000-8000-00805f9b34fb''"

definition new_DeviceSession :: world where
  "new_DeviceSession = ready_world\<lparr>sess := (sess ready_world)\<lparr>state := NotConnected\<rparr>\<rparr>"

definition set_name :: "string option \<Rightarrow> world \<Rightarrow> world" where
  "set_name n w = w\<lparr>sess := (sess w)\<lparr>session_name := n\<rparr>\<rparr>"

subsection \<open>Operations\<close>

text \<open>The body of the \<open>try\<close>.\<close>

definition try_initialize ::
  "'e transport_ops \<Rightarrow> nat \<Rightarrow> string \<Rightarrow> world \<times> 'e \<Rightarrow> unit result \<times> world \<times> 'e" where
  "try_initialize ops h address = (\<lambda>(w, e).
     (case op_connect ops h address e of
        (Inl err, e) \<Rightarrow> (Inl err, w, e)
      | (Inr _, e) \<Rightarrow>
          (let w = set_state Connected w
           in case op_read ops h DEVICE_NAME_UUID e of
                (Inl err, e) \<Rightarrow> (Inl err, w, e)
              | (Inr rawName, e) \<Rightarrow>
                  (let w = set_name (Some (ascii_text rawName)) w
                   in case op_subscribe ops h NOTIFY_UUID h e of
                        (Inl err, e) \<Rightarrow> (Inl err, w, e)
                      | (Inr _, e) \<Rightarrow> (Inr (), set_state Ready w, e)))))"

text \<open>The state of the loop: the session, the transports, the time slept.\<close>

function connect_loop ::
  "'e transport_ops \<Rightarrow> nat \<Rightarrow> string \<Rightarrow> nat \<Rightarrow> js_error option \<Rightarrow> world \<times> 'e \<times> nat
     \<Rightarrow> unit result \<times> world \<times> 'e \<times> nat" where
  "connect_loop ops h address attempt lastError (w, e, slept) =
     (if attempt < CONNECT_RETRY_COUNT
      then (case try_initialize ops h address (w, e) of
              (Inr _, w, e) \<Rightarrow> (Inr (), w, e, slept)
            | (Inl err, w, e) \<Rightarrow>
                (let w = set_name None (set_state NotConnected (clearPendingState w));
                     e = snd (op_disconnect ops h e)
                 in if attempt < CONNECT_RETRY_COUNT - 1 \<and> isRetryableInitializationError err
                    then connect_loop ops h address (attempt + 1) (Some err)
                           (w, e, slept + CONNECT_RETRY_DELAY_MS)
                    else (Inl err, w, e, slept)))
      else (Inl (case lastError of Some err \<Rightarrow> err
                 | None \<Rightarrow> PlainError ''Failed to initialize Bluetooth session''), w, e, slept))"
  by pat_completeness auto
termination by (relation "measure (\<lambda>(_, _, _, attempt, _, _). CONNECT_RETRY_COUNT - attempt)") auto

declare connect_loop.simps [simp del]

definition connectAndInitialize ::
  "'e transport_ops \<Rightarrow> nat \<Rightarrow> string \<Rightarrow> world \<times> 'e \<Rightarrow> unit result \<times> world \<times> 'e \<times> nat" where
  "connectAndInitialize ops h address = (\<lambda>(w, e). connect_loop ops h address 0 None (w, e, 0))"

definition session_disconnect ::
  "'e transport_ops \<Rightarrow> nat \<Rightarrow> world \<times> 'e \<Rightarrow> unit result \<times> world \<times> 'e" where
  "session_disconnect ops h = (\<lambda>(w, e).
     (case op_disconnect ops h e of (r, e) \<Rightarrow> (r, disconnect_end (disconnect_start w), e)))"

subsection \<open>What the contract gives\<close>

definition link_closed :: "('e \<Rightarrow> nat \<Rightarrow> bool) \<Rightarrow> ('e \<Rightarrow> nat \<Rightarrow> string \<Rightarrow> nat option) \<Rightarrow> nat \<Rightarrow> world \<times> 'e \<Rightarrow> bool" where
  "link_closed opened target h = (\<lambda>(w, e). state (sess w) = NotConnected \<and> session_name (sess w) = None \<and>
     \<not> opened e h \<and> (\<forall>uuid. target e h uuid = None))"

definition link_ready :: "('e \<Rightarrow> nat \<Rightarrow> bool) \<Rightarrow> ('e \<Rightarrow> nat \<Rightarrow> string \<Rightarrow> nat option) \<Rightarrow> nat \<Rightarrow> world \<times> 'e \<Rightarrow> bool" where
  "link_ready opened target h = (\<lambda>(w, e). state (sess w) = Ready \<and> session_name (sess w) \<noteq> None \<and>
     opened e h \<and> target e h NOTIFY_UUID = Some h)"

context bluetooth_transport
begin

lemma try_initialize_ready:
  assumes "try_initialize ops h a (w, e) = (Inr u, w', e')"
  shows "link_ready opened target h (w', e')"
proof -
  obtain e1 e2 raw where steps: "op_connect ops h a e = (Inr (), e1)"
      "op_read ops h DEVICE_NAME_UUID e1 = (Inr raw, e2)" "op_subscribe ops h NOTIFY_UUID h e2 = (Inr (), e')"
    and w': "w' = set_state Ready (set_name (Some (ascii_text raw)) (set_state Connected w))"
    using assms by (auto simp: try_initialize_def Let_def split: prod.splits sum.splits)
  have "opened e2 h" using connect_opens [OF steps(1)] read_keeps [OF steps(2)] by simp
  then have "opened e' h \<and> target e' h NOTIFY_UUID = Some h" using subscribe_targets steps(3) by blast
  then show ?thesis by (simp add: link_ready_def w' set_state_def set_name_def)
qed

lemma try_initialize_local:
  assumes "try_initialize ops h a (w, e) = (ru, w', e')" and "k \<noteq> h"
  shows "opened e' k = opened e k \<and> target e' k uuid = target e k uuid"
proof -
  obtain r1 e1 where c: "op_connect ops h a e = (r1, e1)" by (metis surj_pair)
  obtain r2 e2 where r: "op_read ops h DEVICE_NAME_UUID e1 = (r2, e2)" by (metis surj_pair)
  obtain r3 e3 where s: "op_subscribe ops h NOTIFY_UUID h e2 = (r3, e3)" by (metis surj_pair)
  have "e' = e1 \<or> e' = e2 \<or> e' = e3"
    using assms(1) c r s by (auto simp: try_initialize_def Let_def split: sum.splits)
  then show ?thesis
    using connect_local [OF c assms(2)] read_local [OF r assms(2)] subscribe_local [OF s assms(2)] by auto
qed

lemma connect_loop_outcome:
  "\<lbrakk>connect_loop ops h a attempt lastError (w, e, slept) = (ru, w', e', slept');
    attempt < CONNECT_RETRY_COUNT\<rbrakk> \<Longrightarrow>
   (case ru of Inr _ \<Rightarrow> link_ready opened target h (w', e') | Inl _ \<Rightarrow> link_closed opened target h (w', e')) \<and>
   (k \<noteq> h \<longrightarrow> opened e' k = opened e k \<and> target e' k uuid = target e k uuid)"
proof (induction "CONNECT_RETRY_COUNT - attempt" arbitrary: attempt lastError w e slept rule: less_induct)
  case less
  obtain r1 w1 e1 where tr: "try_initialize ops h a (w, e) = (r1, w1, e1)" by (metis surj_pair)
  note run = less.prems(1) [unfolded connect_loop.simps [of ops h a attempt]]
  show ?case
  proof (cases r1)
    case (Inr u)
    then show ?thesis
      using tr run less.prems(2) try_initialize_ready [of h a w e u] try_initialize_local [OF tr] by auto
  next
    case (Inl err)
    obtain r2 e2 where disc: "op_disconnect ops h e1 = (r2, e2)" by (metis surj_pair)
    have away: "k \<noteq> h \<longrightarrow> opened e2 k = opened e k \<and> target e2 k uuid = target e k uuid"
      using try_initialize_local [OF tr] disconnect_local [OF disc] by auto
    let ?w = "set_name None (set_state NotConnected (clearPendingState w1))"
    show ?thesis
    proof (cases "attempt < CONNECT_RETRY_COUNT - 1 \<and> isRetryableInitializationError err")
      case True
      then have again: "connect_loop ops h a (attempt + 1) (Some err) (?w, e2, slept + CONNECT_RETRY_DELAY_MS) =
          (ru, w', e', slept')"
        using run less.prems(2) tr Inl disc by (simp add: Let_def)
      have "attempt + 1 < CONNECT_RETRY_COUNT" using True by auto
      with less.hyps [OF _ again this] away less.prems(2) show ?thesis by auto
    next
      case False
      then have "ru = Inl err \<and> w' = ?w \<and> e' = e2"
        using run less.prems(2) tr Inl disc by (auto simp: Let_def)
      then show ?thesis
        using away disconnect_closes [OF disc]
        by (auto simp: link_closed_def set_name_def set_state_def)
    qed
  qed
qed

lemma connectAndInitialize_outcome:
  assumes "connectAndInitialize ops h a (w, e) = (ru, w', e', slept)"
  shows "case ru of Inr _ \<Rightarrow> link_ready opened target h (w', e') | Inl _ \<Rightarrow> link_closed opened target h (w', e')"
    and "k \<noteq> h \<Longrightarrow> opened e' k = opened e k \<and> target e' k uuid = target e k uuid"
  using connect_loop_outcome [of h a 0 None w e 0] assms
  by (simp_all add: connectAndInitialize_def CONNECT_RETRY_COUNT_def)

lemma session_disconnect_closes:
  assumes "session_disconnect ops h (w, e) = (ru, w', e')"
  shows "link_closed opened target h (w', e')"
    and "k \<noteq> h \<Longrightarrow> opened e' k = opened e k \<and> target e' k uuid = target e k uuid"
proof -
  obtain r2 e2 where disc: "op_disconnect ops h e = (r2, e2)" by (metis surj_pair)
  with assms have eq: "e' = e2" "w' = disconnect_end (disconnect_start w)"
    by (simp_all add: session_disconnect_def)
  show "link_closed opened target h (w', e')"
    using disconnect_closes [OF disc] by (simp add: eq link_closed_def disconnect_end_def)
  show "k \<noteq> h \<Longrightarrow> opened e' k = opened e k \<and> target e' k uuid = target e k uuid"
    using disconnect_local [OF disc] by (simp add: eq)
qed

end

subsection \<open>Retries\<close>

text \<open>Lower-casing a message removes every upper-case letter, so it never contains \<open>GATT\<close>.\<close>

lemma lower_char_not_G: "lower_char c \<noteq> CHR ''G''"
proof
  assume eq: "lower_char c = CHR ''G''"
  let ?n = "of_char c :: nat"
  show False
  proof (cases "65 \<le> ?n \<and> ?n \<le> 90")
    case True
    have "(of_char (char_of (?n + 32) :: char) :: nat) = ?n + 32"
      using True by (simp add: of_char_mod_256 del: char_of_nat)
    moreover have "(of_char (char_of (?n + 32) :: char) :: nat) = 71"
      using True eq by (simp add: lower_char_def)
    ultimately show False using True by linarith
  next
    case False
    then have "c = CHR ''G''" using eq by (auto simp: lower_char_def)
    with False show False by simp
  qed
qed

lemma gatt_never_included:
  "\<not> str_includes (to_lower m) GATT_UNREACHABLE_TEXT" "\<not> str_includes (to_lower m) GATT_FAILED_UNREACHABLE_TEXT"
proof -
  have "CHR ''G'' \<notin> set (to_lower m)" 
    unfolding to_lower_def set_map using lower_char_not_G by (metis imageE)
  then show "\<not> str_includes (to_lower m) GATT_UNREACHABLE_TEXT" "\<not> str_includes (to_lower m) GATT_FAILED_UNREACHABLE_TEXT"
    by (auto simp: str_includes_iff GATT_UNREACHABLE_TEXT_def GATT_FAILED_UNREACHABLE_TEXT_def)
qed

lemma retryable_iff: "isRetryableInitializationError err \<longleftrightarrow>
    str_includes (to_lower (error_message err)) ''unreachable''"
  by (simp add: isRetryableInitializationError_def gatt_never_included UNREACHABLE_ERROR_TEXT_def)

lemma connect_loop_retries:
  "\<lbrakk>connect_loop ops h a attempt lastError (w, e, slept) = (ru, w', e', slept');
    attempt < CONNECT_RETRY_COUNT\<rbrakk> \<Longrightarrow>
   (\<exists>n. slept' = slept + n * CONNECT_RETRY_DELAY_MS \<and> attempt + n < CONNECT_RETRY_COUNT \<and>
     (\<forall>err. ru = Inl err \<longrightarrow> isRetryableInitializationError err \<longrightarrow> attempt + n + 1 = CONNECT_RETRY_COUNT))"
proof (induction "CONNECT_RETRY_COUNT - attempt" arbitrary: attempt lastError w e slept rule: less_induct)
  case less
  obtain r1 w1 e1 where tr: "try_initialize ops h a (w, e) = (r1, w1, e1)" by (metis surj_pair)
  note run = less.prems(1) [unfolded connect_loop.simps [of ops h a attempt]]
  show ?case
  proof (cases "\<exists>err. r1 = Inl err \<and> attempt < CONNECT_RETRY_COUNT - 1 \<and> isRetryableInitializationError err")
    case True
    then obtain err where err: "r1 = Inl err" "attempt < CONNECT_RETRY_COUNT - 1" "isRetryableInitializationError err"
      by blast
    let ?w = "set_name None (set_state NotConnected (clearPendingState w1))"
    have again: "connect_loop ops h a (attempt + 1) (Some err) (?w, snd (op_disconnect ops h e1), slept + CONNECT_RETRY_DELAY_MS) =
        (ru, w', e', slept')"
      using run less.prems(2) tr err by (simp add: Let_def)
    have "attempt + 1 < CONNECT_RETRY_COUNT" using err by auto
    moreover have "CONNECT_RETRY_COUNT - (attempt + 1) < CONNECT_RETRY_COUNT - attempt" using less.prems(2) by simp
    ultimately obtain n where n: "slept' = slept + CONNECT_RETRY_DELAY_MS + n * CONNECT_RETRY_DELAY_MS"
        "attempt + 1 + n < CONNECT_RETRY_COUNT"
        "\<forall>err. ru = Inl err \<longrightarrow> isRetryableInitializationError err \<longrightarrow> attempt + 1 + n + 1 = CONNECT_RETRY_COUNT"
      using less.hyps [OF _ again] by blast
    then show ?thesis by (intro exI [of _ "Suc n"]) simp
  next
    case False
    then have "slept' = slept \<and> (\<forall>err. ru = Inl err \<longrightarrow> r1 = Inl err)"
      using run less.prems(2) tr by (auto simp: Let_def split: sum.splits)
    with False less.prems(2) show ?thesis by (intro exI [of _ 0]) auto
  qed
qed

subsection \<open>Properties\<close>

text \<open>
  C38: opening a session over the native-helper transport, whatever the helper answers, ends in
  one of two states: initialized (ready, named, connected, and a notification of the response
  characteristic reaches this session) or closed (not connected, no name, the transport
  without connection and without any callback), also when the cleanup after a failed attempt
  fails itself; other transports of the same helper are untouched.
\<close>

theorem initialization_outcome:
  assumes "connectAndInitialize (helper_transport_ops hc) h address (w, e) = (outcome, w', e', slept)"
  shows "(case outcome of
       Inr _ \<Rightarrow> state (sess w') = Ready \<and> session_name (sess w') \<noteq> None \<and> helper_opened e' h \<and>
                helper_target e' h NOTIFY_UUID = Some h
     | Inl _ \<Rightarrow> state (sess w') = NotConnected \<and> session_name (sess w') = None \<and> \<not> helper_opened e' h \<and>
                helper_target e' h uuid = None) \<and>
    (k \<noteq> h \<longrightarrow> helper_opened e' k = helper_opened e k \<and> helper_target e' k uuid = helper_target e k uuid)"
  using helper.connectAndInitialize_outcome(1) [OF assms] helper.connectAndInitialize_outcome(2) [OF assms, of k uuid]
  by (auto simp: link_ready_def link_closed_def split: sum.splits)

text \<open>A helper whose only device is unreachable.\<close>

definition unreachable_helper :: "unit helper_ops" where
  "unreachable_helper = \<lparr>hc_connect = (\<lambda>a c. (Inl (PlainError ''GATT: Unreachable''), c)),
     hc_disconnect = (\<lambda>s c. (Inr (), c)), hc_read = (\<lambda>s u c. (Inr [], c)),
     hc_write = (\<lambda>s u d c. (Inr (), c)), hc_subscribe = (\<lambda>s u c. (Inr (), c)),
     hc_onNotification = (\<lambda>h c. (Inr (), c)), hc_unsubscribe = (\<lambda>h c. c)\<rparr>"

text \<open>A helper that answers every request.\<close>

definition willing_helper :: "unit helper_ops" where
  "willing_helper = unreachable_helper\<lparr>hc_connect := (\<lambda>a c. (Inr a, c))\<rparr>"

definition empty_helper_env :: "unit helper_env" where
  "empty_helper_env = \<lparr>client = (), transports = (\<lambda>h. new_WindowsHelperTransport), created = 0\<rparr>"

lemma willing_initialization:
  "\<exists>w' e'. connectAndInitialize (helper_transport_ops willing_helper) 0 ''AA'' (new_DeviceSession, empty_helper_env) =
     (Inr (), w', e', 0)"
  by (simp add: connectAndInitialize_def connect_loop.simps CONNECT_RETRY_COUNT_def try_initialize_def helper_defs
      willing_helper_def unreachable_helper_def empty_helper_env_def new_WindowsHelperTransport_def Let_def)

theorem initialization_outcome_witness:
  "\<exists>w' e'. connectAndInitialize (helper_transport_ops willing_helper) 0 ''AA'' (new_DeviceSession, empty_helper_env) =
     (Inr (), w', e', 0) \<and> state (sess w') = Ready \<and> helper_target e' 0 NOTIFY_UUID = Some 0"
proof -
  obtain w' e' where run: "connectAndInitialize (helper_transport_ops willing_helper) 0 ''AA''
      (new_DeviceSession, empty_helper_env) = (Inr (), w', e', 0)"
    using willing_initialization by blast
  then show ?thesis using initialization_outcome [OF run] by auto
qed

text \<open>
  Initialization makes at most three attempts, sleeping one second between them, and a
  failure that is reported early, before the third attempt, is one whose message does not say
  \<open>unreachable\<close>; that word alone decides (letter case ignored): the two longer texts the code
  compares with contain capital letters and never occur in a lower-cased message.
\<close>

theorem initialization_retries:
  assumes "connectAndInitialize ops h address (w, e) = (outcome, w', e', slept)"
  shows "slept \<in> {0, 1000, 2000} \<and>
    (outcome = Inl err \<and> str_includes (to_lower (error_message err)) ''unreachable'' \<longrightarrow> slept = 2000) \<and>
    (isRetryableInitializationError err' \<longleftrightarrow> str_includes (to_lower (error_message err')) ''unreachable'') \<and>
    \<not> str_includes (to_lower m) GATT_UNREACHABLE_TEXT"
proof -
  obtain n where n: "slept = n * 1000" "n < 3"
      "\<forall>err. outcome = Inl err \<longrightarrow> isRetryableInitializationError err \<longrightarrow> n + 1 = 3"
    using connect_loop_retries [of ops h address 0 None w e 0] assms
    by (auto simp: connectAndInitialize_def CONNECT_RETRY_COUNT_def CONNECT_RETRY_DELAY_MS_def)
  then have "n = 0 \<or> n = 1 \<or> n = 2" by auto
  with n show ?thesis by (auto simp: retryable_iff gatt_never_included)
qed

theorem initialization_retries_witness:
  "\<exists>w' e'. connectAndInitialize (helper_transport_ops unreachable_helper) 0 ''AA''
     (new_DeviceSession, empty_helper_env) = (Inl (PlainError ''GATT: Unreachable''), w', e', 2000)"
proof -
  obtain ru w' e' s where run: "connectAndInitialize (helper_transport_ops unreachable_helper) 0 ''AA''
      (new_DeviceSession, empty_helper_env) = (ru, w', e', s)" by (metis surj_pair)
  have first: "try_initialize (helper_transport_ops unreachable_helper) 0 ''AA'' (v, empty_helper_env) =
      (Inl (PlainError ''GATT: Unreachable''), v, empty_helper_env)" for v
    by (simp add: try_initialize_def helper_defs unreachable_helper_def empty_helper_env_def
        new_WindowsHelperTransport_def)
  have disc: "snd (op_disconnect (helper_transport_ops unreachable_helper) 0 empty_helper_env) = empty_helper_env"
    by (simp add: helper_defs unreachable_helper_def empty_helper_env_def new_WindowsHelperTransport_def Let_def fun_eq_iff)
  have ru: "ru = Inl (PlainError ''GATT: Unreachable'')"
    using run by (auto simp: connectAndInitialize_def connect_loop.simps first disc CONNECT_RETRY_COUNT_def
        Let_def split: if_splits)
  moreover have "str_includes (to_lower (error_message (PlainError ''GATT: Unreachable''))) ''unreachable''"
    by code_simp
  ultimately have "s = 2000"
    using initialization_retries [OF run, where err = "PlainError ''GATT: Unreachable''"] by blast
  with run ru show ?thesis by blast
qed

end
