(* ===== verification/Manager.thy ===== *)
theory Manager
  imports Connect
begin

text \<open>
  \<open>MultiDeviceManager\<close> (\<open>bluetooth/manager.ts\<close>): the active session of every address, over a
  transport factory. The \<open>Map\<close> is an association list in insertion order; every operation
  awaits its parts one after another, so it is a function of the manager's state, which holds
  the state of all transports too. The locale \<open>transport_factory\<close> adds to the transport
  contract what the factory of \<open>helper-transport.ts\<close> promises: a new, unconnected transport.
\<close>

record device_session =
  s_handle :: nat
  s_world :: world

record 'e manager =
  sessions :: "(string \<times> device_session) list"
  env :: 'e

subsection \<open>Operations\<close>

text \<open>\<open>new DeviceSession(address, factory.create())\<close> and its initialization.\<close>

definition open_session ::
  "'e transport_ops \<Rightarrow> ('e \<Rightarrow> nat \<times> 'e) \<Rightarrow> string \<Rightarrow> 'e \<Rightarrow> device_session result \<times> 'e" where
  "open_session ops create address e =
     (case create e of
        (h, e) \<Rightarrow> (case connectAndInitialize ops h address (new_DeviceSession, e) of
                    (Inr _, w, e, _) \<Rightarrow> (Inr \<lparr>s_handle = h, s_world = w\<rparr>, e)
                  | (Inl err, w, e, _) \<Rightarrow> (Inl err, e)))"

fun connect_addresses ::
  "'e transport_ops \<Rightarrow> ('e \<Rightarrow> nat \<times> 'e) \<Rightarrow> string list \<Rightarrow> 'e manager \<Rightarrow> unit result \<times> 'e manager" where
  "connect_addresses ops create [] m = (Inr (), m)"
| "connect_addresses ops create (a # rest) m =
     (if map_of (sessions m) a \<noteq> None then connect_addresses ops create rest m
      else (case open_session ops create a (env m) of
              (Inl err, e) \<Rightarrow> (Inl err, m\<lparr>env := e\<rparr>)
            | (Inr s, e) \<Rightarrow>
                connect_addresses ops create rest (m\<lparr>sessions := obj_set a s (sessions m), env := e\<rparr>)))"

definition manager_isReady :: "'e manager \<Rightarrow> string \<Rightarrow> bool" where
  "manager_isReady m address =
     (case map_of (sessions m) address of None \<Rightarrow> False | Some s \<Rightarrow> isReady (sess (s_world s)))"

definition getName :: "'e manager \<Rightarrow> string \<Rightarrow> string result" where
  "getName m address =
     (case map_of (sessions m) address of
        None \<Rightarrow> Inl (PlainError ''No connected device name'')
      | Some s \<Rightarrow> (case session_name (sess (s_world s)) of
                    None \<Rightarrow> Inl (PlainError ''No connected device name'') | Some n \<Rightarrow> Inr n))"

definition getSession :: "'e manager \<Rightarrow> string \<Rightarrow> device_session result" where
  "getSession m address =
     (case map_of (sessions m) address of
        None \<Rightarrow> Inl (PlainError ''No active session'') | Some s \<Rightarrow> Inr s)"

definition reconnect ::
  "'e transport_ops \<Rightarrow> ('e \<Rightarrow> nat \<times> 'e) \<Rightarrow> string \<Rightarrow> 'e manager \<Rightarrow> unit result \<times> 'e manager" where
  "reconnect ops create address m =
     (let m = (case map_of (sessions m) address of
                 None \<Rightarrow> m
               | Some existing \<Rightarrow>
                   (case session_disconnect ops (s_handle existing) (s_world existing, env m) of
                      (_, w, e) \<Rightarrow> m\<lparr>sessions := obj_delete address (sessions m), env := e\<rparr>))
      in case open_session ops create address (env m) of
           (Inl err, e) \<Rightarrow> (Inl err, m\<lparr>env := e\<rparr>)
         | (Inr s, e) \<Rightarrow> (Inr (), m\<lparr>sessions := obj_set address s (sessions m), env := e\<rparr>))"

fun disconnect_entries ::
  "'e transport_ops \<Rightarrow> (string \<times> device_session) list \<Rightarrow> 'e manager \<Rightarrow> js_error list \<Rightarrow> js_error list \<times> 'e manager" where
  "disconnect_entries ops [] m failures = (failures, m)"
| "disconnect_entries ops ((address, s) # rest) m failures =
     (case session_disconnect ops (s_handle s) (s_world s, env m) of
        (r, w, e) \<Rightarrow>
          disconnect_entries ops rest (m\<lparr>sessions := obj_delete address (sessions m), env := e\<rparr>)
            (case r of Inl err \<Rightarrow> failures @ [err] | Inr _ \<Rightarrow> failures))"

definition disconnectAll :: "'e transport_ops \<Rightarrow> 'e manager \<Rightarrow> unit result \<times> 'e manager" where
  "disconnectAll ops m =
     (case disconnect_entries ops (sessions m) m [] of
        (failures, m) \<Rightarrow>
          (if failures \<noteq> []
           then Inl (AggregateError failures ''Failed to disconnect one or more Bluetooth sessions'')
           else Inr (), m))"

text \<open>A manager's life: any sequence of its operations, results ignored.\<close>

datatype manager_op = ConnectAll | Reconnect string | DisconnectAll

fun manager_step ::
  "'e transport_ops \<Rightarrow> ('e \<Rightarrow> nat \<times> 'e) \<Rightarrow> string list \<Rightarrow> 'e manager \<Rightarrow> manager_op \<Rightarrow> 'e manager" where
  "manager_step ops create addresses m ConnectAll = snd (connect_addresses ops create addresses m)"
| "manager_step ops create addresses m (Reconnect a) = snd (reconnect ops create a m)"
| "manager_step ops create addresses m DisconnectAll = snd (disconnectAll ops m)"

definition manager_run ::
  "'e transport_ops \<Rightarrow> ('e \<Rightarrow> nat \<times> 'e) \<Rightarrow> string list \<Rightarrow> manager_op list \<Rightarrow> 'e manager \<Rightarrow> 'e manager" where
  "manager_run ops create addresses os m = foldl (manager_step ops create addresses) m os"

subsection \<open>The factory contract\<close>

locale transport_factory = bluetooth_transport ops opened target
  for ops :: "'e transport_ops" and opened :: "'e \<Rightarrow> nat \<Rightarrow> bool"
    and target :: "'e \<Rightarrow> nat \<Rightarrow> string \<Rightarrow> nat option" +
  fixes create :: "'e \<Rightarrow> nat \<times> 'e" and known :: "'e \<Rightarrow> nat \<Rightarrow> bool"
  assumes create_fresh: "create e = (h, e') \<Longrightarrow> \<not> known e h \<and> known e' h"
    and create_keeps: "create e = (h, e') \<Longrightarrow> (known e k \<longrightarrow> known e' k) \<and> (opened e' k \<longrightarrow> k \<noteq> h \<and> opened e k)"
    and connect_known: "\<lbrakk>op_connect ops h a e = (ru, e'); known e k\<rbrakk> \<Longrightarrow> known e' k"
    and disconnect_known: "\<lbrakk>op_disconnect ops h e = (ru, e'); known e k\<rbrakk> \<Longrightarrow> known e' k"
    and read_known: "\<lbrakk>op_read ops h v e = (rb, e'); known e k\<rbrakk> \<Longrightarrow> known e' k"
    and subscribe_known: "\<lbrakk>op_subscribe ops h v cb e = (ru, e'); known e k\<rbrakk> \<Longrightarrow> known e' k"
begin

lemma try_initialize_known:
  assumes "try_initialize ops h a (w, e) = (ru, w', e')" and "known e k"
  shows "known e' k"
proof -
  obtain r1 e1 where c: "op_connect ops h a e = (r1, e1)" by (metis surj_pair)
  obtain r2 e2 where r: "op_read ops h DEVICE_NAME_UUID e1 = (r2, e2)" by (metis surj_pair)
  obtain r3 e3 where s: "op_subscribe ops h NOTIFY_UUID h e2 = (r3, e3)" by (metis surj_pair)
  have "e' = e1 \<or> e' = e2 \<or> e' = e3"
    using assms(1) c r s by (auto simp: try_initialize_def Let_def split: sum.splits)
  then show ?thesis
    using connect_known [OF c] read_known [OF r] subscribe_known [OF s] assms(2) by blast
qed

lemma connect_loop_known:
  "\<lbrakk>connect_loop ops h a attempt lastError (w, e, slept) = (ru, w', e', slept'); known e k\<rbrakk> \<Longrightarrow> known e' k"
proof (induction "CONNECT_RETRY_COUNT - attempt" arbitrary: attempt lastError w e slept rule: less_induct)
  case less
  obtain r1 w1 e1 where tr: "try_initialize ops h a (w, e) = (r1, w1, e1)" by (metis surj_pair)
  obtain r2 e2 where disc: "op_disconnect ops h e1 = (r2, e2)" by (metis surj_pair)
  have k: "known e1 k" "known e2 k"
    using try_initialize_known [OF tr less.prems(2)] disconnect_known [OF disc] by simp_all
  note run = less.prems(1) [unfolded connect_loop.simps [of ops h a attempt]]
  let ?w = "set_name None (set_state NotConnected (clearPendingState w1))"
  consider "e' = e \<or> e' = e1 \<or> e' = e2"
    | err where "attempt < CONNECT_RETRY_COUNT"
        "connect_loop ops h a (attempt + 1) (Some err) (?w, e2, slept + CONNECT_RETRY_DELAY_MS) = (ru, w', e', slept')"
    using run tr disc by (auto simp: Let_def split: if_splits sum.splits)
  then show ?case
  proof cases
    case 1
    then show ?thesis using k less.prems(2) by auto
  next
    case (2 err)
    have "CONNECT_RETRY_COUNT - (attempt + 1) < CONNECT_RETRY_COUNT - attempt" using 2(1) by simp
    from less.hyps [OF this 2(2) k(2)] show ?thesis .
  qed
qed

end

text \<open>Every open transport belongs to a session of the map, and sessions do not share transports.\<close>

definition session_handles :: "'e manager \<Rightarrow> nat list" where
  "session_handles m = map (\<lambda>(a, s). s_handle s) (sessions m)"

definition manager_inv :: "('e \<Rightarrow> nat \<Rightarrow> bool) \<Rightarrow> ('e \<Rightarrow> nat \<Rightarrow> bool) \<Rightarrow> 'e manager \<Rightarrow> bool" where
  "manager_inv opened known m \<longleftrightarrow>
     distinct (map fst (sessions m)) \<and> distinct (session_handles m) \<and>
     (\<forall>h \<in> set (session_handles m). known (env m) h) \<and>
     (\<forall>h. opened (env m) h \<longrightarrow> h \<in> set (session_handles m))"

lemma obj_set_absent: "map_of ps k = None \<Longrightarrow> obj_set k v ps = ps @ [(k, v)]"
  by (induction ps) auto

lemma obj_delete_filter: "obj_delete k ps = filter (\<lambda>(k', v). k \<noteq> k') ps"
  by (simp add: AList.delete_eq case_prod_unfold)

lemma distinct_key_unique:
  "\<lbrakk>distinct (map fst ps); map_of ps a = Some s; (a, s') \<in> set ps\<rbrakk> \<Longrightarrow> s' = s"
  using map_of_eq_Some_iff [of ps a s'] by simp

lemma manager_inv_remove:
  assumes inv: "manager_inv opened known m" and s: "map_of (sessions m) a = Some s"
    and closed: "\<not> opened e' (s_handle s)" and away: "\<And>k. opened e' k \<Longrightarrow> opened (env m) k"
    and kn: "\<And>k. known (env m) k \<Longrightarrow> known e' k"
  shows "manager_inv opened known (m\<lparr>sessions := obj_delete a (sessions m), env := e'\<rparr>)"
proof -
  let ?ps = "sessions m" and ?h = "\<lambda>(a :: string, s). s_handle s"
  have sub: "set (map ?h (obj_delete a ?ps)) \<subseteq> set (map ?h ?ps)" by (auto simp: obj_delete_filter)
  have keep: "h \<in> set (map ?h (obj_delete a ?ps))" if "h \<in> set (map ?h ?ps)" "h \<noteq> s_handle s" for h
  proof -
    from that obtain b t where bt: "(b, t) \<in> set ?ps" "h = s_handle t" by auto
    have "b \<noteq> a"
    proof
      assume "b = a"
      then have "t = s" using distinct_key_unique [OF _ s] bt(1) inv by (simp add: manager_inv_def)
      with bt that(2) show False by simp
    qed
    with bt show ?thesis by (force simp: obj_delete_filter)
  qed
  have "distinct (map fst (obj_delete a ?ps)) \<and> distinct (map ?h (obj_delete a ?ps))"
    using inv by (simp add: manager_inv_def session_handles_def obj_delete_filter distinct_map_filter)
  moreover have "h \<in> set (map ?h (obj_delete a ?ps))" if "opened e' h" for h
    using keep [of h] away [OF that] closed that inv by (auto simp: manager_inv_def session_handles_def)
  moreover have "known e' h" if "h \<in> set (map ?h (obj_delete a ?ps))" for h
  proof -
    have "h \<in> set (session_handles m)" using sub that by (auto simp: session_handles_def)
    then show ?thesis using inv kn by (simp add: manager_inv_def)
  qed
  ultimately show ?thesis by (simp add: manager_inv_def session_handles_def)
qed

lemma manager_inv_add:
  assumes inv: "manager_inv opened known m" and a: "map_of (sessions m) a = None"
    and fresh: "\<not> known (env m) (s_handle s)" "known e' (s_handle s)"
    and away: "\<And>k. k \<noteq> s_handle s \<Longrightarrow> opened e' k \<Longrightarrow> opened (env m) k"
    and kn: "\<And>k. known (env m) k \<Longrightarrow> known e' k"
  shows "manager_inv opened known (m\<lparr>sessions := obj_set a s (sessions m), env := e'\<rparr>)"
proof -
  have "a \<notin> set (map fst (sessions m))" using a by (simp add: map_of_eq_None_iff)
  moreover have "s_handle s \<notin> set (session_handles m)" using inv fresh(1) by (auto simp: manager_inv_def)
  ultimately show ?thesis
    using inv fresh(2) away kn
    by (auto simp: manager_inv_def session_handles_def obj_set_absent [OF a])
qed

lemma manager_inv_env:
  assumes "manager_inv opened known m" and "\<And>k. opened e' k \<Longrightarrow> opened (env m) k"
    and "\<And>k. known (env m) k \<Longrightarrow> known e' k"
  shows "manager_inv opened known (m\<lparr>env := e'\<rparr>)"
  using assms by (auto simp: manager_inv_def session_handles_def)

context transport_factory
begin

lemma open_session_facts:
  assumes "open_session ops create a e = (rs, e')"
  shows "known e k \<Longrightarrow> known e' k"
    and "rs = Inl err \<Longrightarrow> opened e' k \<Longrightarrow> opened e k"
    and "rs = Inr s \<Longrightarrow> \<not> known e (s_handle s) \<and> known e' (s_handle s) \<and>
          link_ready opened target (s_handle s) (s_world s, e') \<and>
          (k \<noteq> s_handle s \<longrightarrow> opened e' k \<longrightarrow> opened e k)"
proof -
  obtain h e1 where cr: "create e = (h, e1)" by (metis surj_pair)
  obtain ru w2 e2 slept where init: "connectAndInitialize ops h a (new_DeviceSession, e1) = (ru, w2, e2, slept)"
    by (metis surj_pair)
  have eq: "e' = e2" "rs = (case ru of Inl err \<Rightarrow> Inl err | Inr _ \<Rightarrow> Inr \<lparr>s_handle = h, s_world = w2\<rparr>)"
    using assms cr init by (simp_all add: open_session_def split: sum.splits)
  have kn: "known e1 j \<Longrightarrow> known e2 j" for j
    using connect_loop_known [of h a 0 None new_DeviceSession e1 0] init by (simp add: connectAndInitialize_def)
  show "known e k \<Longrightarrow> known e' k" using create_keeps [OF cr] kn eq by simp
  note out = connectAndInitialize_outcome [OF init]
  show "rs = Inl err \<Longrightarrow> opened e' k \<Longrightarrow> opened e k"
    using out(1) out(2) [of k] create_keeps [OF cr, of k] eq
    by (cases "k = h"; cases ru) (auto simp: link_closed_def)
  show "rs = Inr s \<Longrightarrow> \<not> known e (s_handle s) \<and> known e' (s_handle s) \<and>
          link_ready opened target (s_handle s) (s_world s, e') \<and>
          (k \<noteq> s_handle s \<longrightarrow> opened e' k \<longrightarrow> opened e k)"
    using out(1) out(2) [of k] create_keeps [OF cr, of k] create_fresh [OF cr] kn eq
    by (cases ru) auto
qed

lemma session_disconnect_facts:
  assumes "session_disconnect ops h (w, e) = (ru, w', e')"
  shows "known e k \<Longrightarrow> known e' k" and "\<not> opened e' h" and "opened e' k \<Longrightarrow> opened e k"
proof -
  obtain r2 e2 where disc: "op_disconnect ops h e = (r2, e2)" by (metis surj_pair)
  with assms have "e' = e2" by (simp add: session_disconnect_def)
  then show "known e k \<Longrightarrow> known e' k" using disconnect_known [OF disc] by simp
  note closed = session_disconnect_closes [OF assms]
  from closed(1) show "\<not> opened e' h" by (simp add: link_closed_def)
  with closed(2) [of k] show "opened e' k \<Longrightarrow> opened e k" by (cases "k = h") auto
qed

lemma connect_addresses_inv:
  "manager_inv opened known m \<Longrightarrow> manager_inv opened known (snd (connect_addresses ops create as m))"
proof (induction as arbitrary: m)
  case (Cons a as)
  show ?case
  proof (cases "map_of (sessions m) a")
    case None
    obtain rs e' where op: "open_session ops create a (env m) = (rs, e')" by (metis surj_pair)
    note f = open_session_facts [OF op]
    show ?thesis
    proof (cases rs)
      case (Inl err)
      then show ?thesis using None op manager_inv_env [OF Cons.prems] f(1,2) by auto
    next
      case (Inr s)
      then have "manager_inv opened known (m\<lparr>sessions := obj_set a s (sessions m), env := e'\<rparr>)"
        using f by (intro manager_inv_add [OF Cons.prems None]) auto
      then show ?thesis using None op Inr Cons.IH by simp
    qed
  qed (use Cons in simp)
qed simp

lemma reconnect_inv:
  assumes inv: "manager_inv opened known m"
  shows "manager_inv opened known (snd (reconnect ops create a m))"
proof -
  define m1 where "m1 = (case map_of (sessions m) a of None \<Rightarrow> m
     | Some s \<Rightarrow> (case session_disconnect ops (s_handle s) (s_world s, env m) of
          (_, w, e) \<Rightarrow> m\<lparr>sessions := obj_delete a (sessions m), env := e\<rparr>))"
  have m1: "manager_inv opened known m1 \<and> map_of (sessions m1) a = None"
  proof (cases "map_of (sessions m) a")
    case (Some s)
    obtain ru w e where d: "session_disconnect ops (s_handle s) (s_world s, env m) = (ru, w, e)" by (metis surj_pair)
    have "manager_inv opened known (m\<lparr>sessions := obj_delete a (sessions m), env := e\<rparr>)"
      using session_disconnect_facts [OF d] by (intro manager_inv_remove [OF inv Some]) auto
    then show ?thesis by (simp add: m1_def Some d)
  qed (use inv m1_def in simp)
  obtain rs e' where op: "open_session ops create a (env m1) = (rs, e')" by (metis surj_pair)
  note f = open_session_facts [OF op]
  have run: "snd (reconnect ops create a m) =
      (case rs of Inl err \<Rightarrow> m1\<lparr>env := e'\<rparr> | Inr s \<Rightarrow> m1\<lparr>sessions := obj_set a s (sessions m1), env := e'\<rparr>)"
    unfolding reconnect_def m1_def [symmetric] by (simp add: op Let_def split: sum.split)
  show ?thesis
  proof (cases rs)
    case (Inl err)
    then show ?thesis using run manager_inv_env [OF conjunct1 [OF m1]] f(1,2) by auto
  next
    case (Inr s)
    then show ?thesis
      using run f by (auto intro!: manager_inv_add [OF conjunct1 [OF m1] conjunct2 [OF m1]])
  qed
qed

lemma disconnect_entries_inv:
  "\<lbrakk>manager_inv opened known m; sessions m = ps\<rbrakk> \<Longrightarrow>
   manager_inv opened known (snd (disconnect_entries ops ps m fs)) \<and>
   sessions (snd (disconnect_entries ops ps m fs)) = [] \<and>
   (fst (disconnect_entries ops ps m fs) = [] \<longrightarrow> fs = [])"
proof (induction ps arbitrary: m fs)
  case (Cons p ps)
  obtain a s where p: "p = (a, s)" by (cases p)
  obtain ru w e where d: "session_disconnect ops (s_handle s) (s_world s, env m) = (ru, w, e)" by (metis surj_pair)
  have s: "map_of (sessions m) a = Some s" using Cons.prems(2) p by simp
  let ?m = "m\<lparr>sessions := obj_delete a (sessions m), env := e\<rparr>"
  have inv: "manager_inv opened known ?m"
    using session_disconnect_facts [OF d] by (intro manager_inv_remove [OF Cons.prems(1) s]) auto
  have "a \<notin> set (map fst ps)" using Cons.prems p by (auto simp: manager_inv_def)
  then have "filter (\<lambda>(k, v). a \<noteq> k) ps = ps" by (force simp: filter_id_conv)
  then have "sessions ?m = ps" using Cons.prems(2) p by (simp add: obj_delete_filter)
  with Cons.IH [OF inv this] show ?case using p d by (auto split: sum.split)
qed simp

lemma disconnectAll_inv:
  assumes "manager_inv opened known m"
  shows "manager_inv opened known (snd (disconnectAll ops m)) \<and> sessions (snd (disconnectAll ops m)) = []"
  using disconnect_entries_inv [OF assms refl, of "[]"] by (simp add: disconnectAll_def split_beta)

lemma manager_run_inv:
  "manager_inv opened known m \<Longrightarrow> manager_inv opened known (manager_run ops create addresses os m)"
proof (induction os arbitrary: m)
  case (Cons x os)
  have "manager_inv opened known (manager_step ops create addresses m x)"
    using Cons.prems connect_addresses_inv reconnect_inv disconnectAll_inv by (cases x) auto
  then show ?case using Cons.IH by (simp add: manager_run_def)
qed (simp add: manager_run_def)

end

interpretation factory: transport_factory "helper_transport_ops hc" helper_opened helper_target
    helper_create "\<lambda>e h. h < created e"
  for hc :: "'c helper_ops"
  by unfold_locales
    (auto simp: helper_create_def helper_defs helper_opened_def new_WindowsHelperTransport_def Let_def
      split: if_splits option.splits sum.splits prod.splits)

subsection \<open>Replacing a session\<close>

context transport_factory
begin

lemma reconnect_outcome:
  assumes inv: "distinct (map fst (sessions m))" and run: "reconnect ops create a m = (ru, m')"
  shows "(case ru of Inr _ \<Rightarrow> manager_isReady m' a \<and> (\<exists>n. getName m' a = Inr n)
                    | Inl _ \<Rightarrow> map_of (sessions m') a = None)"
    and "b \<noteq> a \<Longrightarrow> map_of (sessions m') b = map_of (sessions m) b"
proof -
  define m1 where "m1 = (case map_of (sessions m) a of None \<Rightarrow> m
     | Some s \<Rightarrow> (case session_disconnect ops (s_handle s) (s_world s, env m) of
          (_, w, e) \<Rightarrow> m\<lparr>sessions := obj_delete a (sessions m), env := e\<rparr>))"
  have m1: "map_of (sessions m1) a = None" "b \<noteq> a \<Longrightarrow> map_of (sessions m1) b = map_of (sessions m) b" for b
    by (auto simp: m1_def split: option.split prod.split)
  obtain rs e' where op: "open_session ops create a (env m1) = (rs, e')" by (metis surj_pair)
  have m': "(ru, m') = (case rs of Inl err \<Rightarrow> (Inl err, m1\<lparr>env := e'\<rparr>)
      | Inr s \<Rightarrow> (Inr (), m1\<lparr>sessions := obj_set a s (sessions m1), env := e'\<rparr>))"
    using run unfolding reconnect_def m1_def [symmetric] by (simp add: op Let_def split: sum.splits)
  show "b \<noteq> a \<Longrightarrow> map_of (sessions m') b = map_of (sessions m) b"
    using m' m1 by (cases rs) auto
  show "(case ru of Inr _ \<Rightarrow> manager_isReady m' a \<and> (\<exists>n. getName m' a = Inr n)
                  | Inl _ \<Rightarrow> map_of (sessions m') a = None)"
  proof (cases rs)
    case (Inl err)
    then show ?thesis using m' m1(1) by simp
  next
    case (Inr s)
    have "link_ready opened target (s_handle s) (s_world s, e')"
      using open_session_facts(3) [OF op Inr] by simp
    then show ?thesis
      using m' Inr by (auto simp: link_ready_def manager_isReady_def getName_def isReady_def)
  qed
qed

end

subsection \<open>Properties\<close>

definition new_manager :: "'c \<Rightarrow> 'c helper_env manager" where
  "new_manager c = \<lparr>sessions = [],
     env = \<lparr>client = c, transports = (\<lambda>h. new_WindowsHelperTransport), created = 0\<rparr>\<rparr>"

lemma new_manager_inv: "manager_inv helper_opened (\<lambda>e h. h < created e) (new_manager c)"
  by (simp add: new_manager_def manager_inv_def session_handles_def helper_opened_def new_WindowsHelperTransport_def)



text \<open>
  \<open>disconnectAll\<close> always cleans up: whatever happened before and however many disconnects
  fail, it ends with an empty session map and no connection open; failures are reported once,
  as one \<open>AggregateError\<close> with at least one error.
\<close>

theorem disconnectAll_releases_everything:
  assumes "m = manager_run (helper_transport_ops hc) helper_create addresses os (new_manager c)"
    and "disconnectAll (helper_transport_ops hc) m = (outcome, m')"
  shows "sessions m' = [] \<and> \<not> helper_opened (env m') h \<and>
    (outcome = Inr () \<or> (\<exists>es msg. es \<noteq> [] \<and> outcome = Inl (AggregateError es msg)))"
proof -
  have "manager_inv helper_opened (\<lambda>e h. h < created e) m"
    unfolding assms(1) by (rule factory.manager_run_inv [OF new_manager_inv])
  then have "manager_inv helper_opened (\<lambda>e h. h < created e) m' \<and> sessions m' = []"
    using factory.disconnectAll_inv assms(2) by (metis snd_conv)
  moreover have "outcome = Inr () \<or> (\<exists>es msg. es \<noteq> [] \<and> outcome = Inl (AggregateError es msg))"
    using assms(2) by (auto simp: disconnectAll_def split: prod.splits if_splits)
  ultimately show ?thesis by (auto simp: manager_inv_def session_handles_def)
qed

theorem disconnectAll_releases_everything_witness:
  "\<exists>m'. disconnectAll (helper_transport_ops willing_helper)
      (manager_run (helper_transport_ops willing_helper) helper_create [''A''] [ConnectAll] (new_manager ())) =
      (Inr (), m') \<and> sessions m' = []"
proof -
  let ?m = "manager_run (helper_transport_ops willing_helper) helper_create [''A''] [ConnectAll] (new_manager ())"
  obtain ru m' where run: "disconnectAll (helper_transport_ops willing_helper) ?m = (ru, m')" by (metis surj_pair)
  have "fst (disconnectAll (helper_transport_ops willing_helper) ?m) = Inr ()"
    by (simp add: manager_run_def new_manager_def helper_create_def open_session_def connectAndInitialize_def
        connect_loop.simps CONNECT_RETRY_COUNT_def try_initialize_def helper_defs willing_helper_def
        unreachable_helper_def new_WindowsHelperTransport_def Let_def disconnectAll_def session_disconnect_def)
  with run disconnectAll_releases_everything [OF refl run] show ?thesis by auto
qed

text \<open>
  \<open>reconnect\<close> either installs a ready, named session for the address or leaves the address
  without a session (so that \<open>getSession\<close> throws and \<open>isReady\<close> is false); the sessions of the
  other addresses are kept.
\<close>

theorem reconnect_all_or_nothing:
  assumes "m = manager_run (helper_transport_ops hc) helper_create addresses os (new_manager c)"
    and "reconnect (helper_transport_ops hc) helper_create a m = (outcome, m')"
  shows "(case outcome of
       Inr _ \<Rightarrow> manager_isReady m' a \<and> (\<exists>n. getName m' a = Inr n)
     | Inl _ \<Rightarrow> getSession m' a = Inl (PlainError ''No active session'') \<and> \<not> manager_isReady m' a) \<and>
    (b \<noteq> a \<longrightarrow> getSession m' b = getSession m b)"
proof -
  have "manager_inv helper_opened (\<lambda>e h. h < created e) m"
    unfolding assms(1) by (rule factory.manager_run_inv [OF new_manager_inv])
  then have d: "distinct (map fst (sessions m))" by (simp add: manager_inv_def)
  note out = factory.reconnect_outcome [OF d assms(2)]
  from out(1) out(2) [of b] show ?thesis
    by (auto simp: getSession_def manager_isReady_def split: sum.splits)
qed

theorem reconnect_all_or_nothing_witness:
  "\<exists>m'. reconnect (helper_transport_ops willing_helper) helper_create ''A''
      (manager_run (helper_transport_ops willing_helper) helper_create [] [] (new_manager ())) = (Inr (), m') \<and>
     manager_isReady m' ''A''"
proof -
  let ?m = "manager_run (helper_transport_ops willing_helper) helper_create [] [] (new_manager ())"
  obtain ru m' where run: "reconnect (helper_transport_ops willing_helper) helper_create ''A'' ?m = (ru, m')"
    by (metis surj_pair)
  have "fst (reconnect (helper_transport_ops willing_helper) helper_create ''A'' ?m) = Inr ()"
    by (simp add: manager_run_def reconnect_def new_manager_def helper_create_def open_session_def connectAndInitialize_def
        connect_loop.simps CONNECT_RETRY_COUNT_def try_initialize_def helper_defs willing_helper_def
        unreachable_helper_def new_WindowsHelperTransport_def Let_def)
  with run reconnect_all_or_nothing [OF refl run, where b = "[]"] show ?thesis by auto
qed

end
