(* ===== verification/Queue.thy ===== *)
theory Queue
  imports Prelude
begin

text \<open>
  \<open>DeviceWorkQueue\<close> (\<open>app/device-queue.ts\<close>): the promise-chain mutex that serializes the work on
  one Bluetooth address, and the interruptible sleep.
  The \<open>n\<close>-th call of \<open>enqueue\<close> is job \<open>n\<close>: \<open>job_prev\<close> is its variable \<open>previous\<close> (\<open>None\<close> for
  the resolved promise), its phase says whether it awaits \<open>previous\<close>, runs its work, or has
  called \<open>release\<close>; the promise \<open>queued\<close> of a job resolves when \<open>previous\<close> has and the job has
  released. The locale \<open>fifo_mutex\<close> is what callers get: one job at a time, in order.
\<close>

subsection \<open>State\<close>

datatype job_phase = Waiting | Running | Finished

record job =
  job_address :: string
  job_prev :: "nat option"
  job_phase :: job_phase

record work_queue =
  stopRequested :: bool
  sleepWaiters :: "nat list"
  next_waiter :: nat
  deviceQueues :: "(string \<times> nat) list"
  jobs :: "job list"

definition new_DeviceWorkQueue :: work_queue where
  "new_DeviceWorkQueue = \<lparr>stopRequested = False, sleepWaiters = [], next_waiter = 0,
     deviceQueues = [], jobs = []\<rparr>"

definition phase_of :: "work_queue \<Rightarrow> nat \<Rightarrow> job_phase" where
  "phase_of q k = job_phase (jobs q ! k)"

definition address_of :: "work_queue \<Rightarrow> nat \<Rightarrow> string" where
  "address_of q k = job_address (jobs q ! k)"

text \<open>Whether the promise \<open>queued\<close> of job \<open>k\<close> is resolved.\<close>

function queued_resolved :: "job list \<Rightarrow> nat \<Rightarrow> bool" where
  "queued_resolved js k =
     (k < length js \<and> job_phase (js ! k) = Finished \<and>
      (case job_prev (js ! k) of None \<Rightarrow> True | Some p \<Rightarrow> if p < k then queued_resolved js p else False))"
  by pat_completeness auto
termination by (relation "measure snd") auto

declare queued_resolved.simps [simp del]

subsection \<open>Operations\<close>

text \<open>\<open>enqueue\<close> up to \<open>await previous\<close>.\<close>

definition enqueue :: "string \<Rightarrow> work_queue \<Rightarrow> work_queue" where
  "enqueue address q =
     q\<lparr>jobs := jobs q @ [\<lparr>job_address = address, job_prev = map_of (deviceQueues q) address,
                           job_phase = Waiting\<rparr>],
       deviceQueues := obj_set address (length (jobs q)) (deviceQueues q)\<rparr>"

definition set_phase :: "nat \<Rightarrow> job_phase \<Rightarrow> work_queue \<Rightarrow> work_queue" where
  "set_phase k ph q = q\<lparr>jobs := (jobs q)[k := (jobs q ! k)\<lparr>job_phase := ph\<rparr>]\<rparr>"

text \<open>\<open>await previous\<close> resumes; the work starts.\<close>

definition start_job :: "nat \<Rightarrow> work_queue \<Rightarrow> work_queue option" where
  "start_job k q =
     (if k < length (jobs q) \<and> phase_of q k = Waiting \<and>
         (case job_prev (jobs q ! k) of None \<Rightarrow> True | Some p \<Rightarrow> queued_resolved (jobs q) p)
      then Some (set_phase k Running q) else None)"

text \<open>The \<open>finally\<close> block, whether the work returned or threw.\<close>

definition finish_job :: "nat \<Rightarrow> work_queue \<Rightarrow> work_queue option" where
  "finish_job k q =
     (if k < length (jobs q) \<and> phase_of q k = Running
      then (let q' = set_phase k Finished q; a = address_of q k
            in Some (if map_of (deviceQueues q') a = Some k
                     then q'\<lparr>deviceQueues := obj_delete a (deviceQueues q')\<rparr> else q'))
      else None)"

definition queue_stop :: "work_queue \<Rightarrow> work_queue" where
  "queue_stop q = q\<lparr>stopRequested := True, sleepWaiters := []\<rparr>"

definition queue_reset :: "work_queue \<Rightarrow> work_queue" where
  "queue_reset q = q\<lparr>stopRequested := False\<rparr>"

text \<open>\<open>sleep\<close>: returns at once, or a waiter that a timer or \<open>stop\<close> wakes.\<close>

definition queue_sleep :: "int \<Rightarrow> work_queue \<Rightarrow> work_queue" where
  "queue_sleep ms q =
     (if stopRequested q \<or> ms \<le> 0 then q
      else q\<lparr>sleepWaiters := sleepWaiters q @ [next_waiter q], next_waiter := next_waiter q + 1\<rparr>)"

definition sleep_done :: "nat \<Rightarrow> work_queue \<Rightarrow> work_queue option" where
  "sleep_done t q =
     (if t \<in> set (sleepWaiters q) then Some (q\<lparr>sleepWaiters := removeAll t (sleepWaiters q)\<rparr>) else None)"

datatype queue_event =
    Enqueue string | StartJob nat | FinishJob nat | Stop | Reset | Sleep int | Wake nat

fun queue_step :: "queue_event \<Rightarrow> work_queue \<Rightarrow> work_queue option" where
  "queue_step (Enqueue a) q = Some (enqueue a q)"
| "queue_step (StartJob k) q = start_job k q"
| "queue_step (FinishJob k) q = finish_job k q"
| "queue_step Stop q = Some (queue_stop q)"
| "queue_step Reset q = Some (queue_reset q)"
| "queue_step (Sleep ms) q = Some (queue_sleep ms q)"
| "queue_step (Wake t) q = sleep_done t q"

inductive queue_reachable :: "work_queue \<Rightarrow> bool" where
  initial: "queue_reachable new_DeviceWorkQueue"
| step: "\<lbrakk>queue_reachable q; queue_step e q = Some q'\<rbrakk> \<Longrightarrow> queue_reachable q'"

subsection \<open>The invariant\<close>

text \<open>All jobs of the same address before job \<open>k\<close> have finished.\<close>

definition earlier_finished :: "work_queue \<Rightarrow> nat \<Rightarrow> bool" where
  "earlier_finished q k \<longleftrightarrow> (\<forall>j < k. address_of q j = address_of q k \<longrightarrow> phase_of q j = Finished)"

definition prev_inv :: "work_queue \<Rightarrow> bool" where
  "prev_inv q \<longleftrightarrow> (\<forall>k < length (jobs q).
     case job_prev (jobs q ! k) of
       None \<Rightarrow> earlier_finished q k
     | Some p \<Rightarrow> p < k \<and> address_of q p = address_of q k \<and>
                 (\<forall>j. p < j \<longrightarrow> j < k \<longrightarrow> address_of q j \<noteq> address_of q k))"

definition order_inv :: "work_queue \<Rightarrow> bool" where
  "order_inv q \<longleftrightarrow> (\<forall>k < length (jobs q). phase_of q k \<noteq> Waiting \<longrightarrow> earlier_finished q k)"

definition map_inv :: "work_queue \<Rightarrow> bool" where
  "map_inv q \<longleftrightarrow> (\<forall>a. case map_of (deviceQueues q) a of
       None \<Rightarrow> (\<forall>j < length (jobs q). address_of q j = a \<longrightarrow> phase_of q j = Finished)
     | Some n \<Rightarrow> n < length (jobs q) \<and> address_of q n = a \<and> phase_of q n \<noteq> Finished \<and>
                 (\<forall>j. n < j \<longrightarrow> j < length (jobs q) \<longrightarrow> address_of q j \<noteq> a))"

definition queue_inv :: "work_queue \<Rightarrow> bool" where
  "queue_inv q \<longleftrightarrow> prev_inv q \<and> order_inv q \<and> map_inv q \<and> (stopRequested q \<longrightarrow> sleepWaiters q = [])"

lemma set_phase_simps [simp]:
  "length (jobs (set_phase k ph q)) = length (jobs q)"
  "deviceQueues (set_phase k ph q) = deviceQueues q"
  "stopRequested (set_phase k ph q) = stopRequested q" "sleepWaiters (set_phase k ph q) = sleepWaiters q"
  by (simp_all add: set_phase_def)

lemma set_phase_nth:
  assumes "k < length (jobs q)"
  shows "address_of (set_phase k ph q) j = address_of q j"
    and "job_prev (jobs (set_phase k ph q) ! j) = job_prev (jobs q ! j)"
    and "phase_of (set_phase k ph q) j = (if j = k then ph else phase_of q j)"
  using assms by (cases "j = k"; simp add: set_phase_def address_of_def phase_of_def)+

text \<open>The three job conditions depend on the jobs and the map only.\<close>

lemma job_inv_cong:
  assumes "jobs q' = jobs q" and "deviceQueues q' = deviceQueues q"
  shows "prev_inv q' = prev_inv q" "order_inv q' = order_inv q" "map_inv q' = map_inv q"
proof -
  have "phase_of q' = phase_of q" "address_of q' = address_of q"
    using assms(1) by (simp_all add: fun_eq_iff phase_of_def address_of_def)
  moreover from this have "earlier_finished q' = earlier_finished q"
    by (simp add: fun_eq_iff earlier_finished_def)
  ultimately show "prev_inv q' = prev_inv q" "order_inv q' = order_inv q" "map_inv q' = map_inv q"
    using assms by (simp_all add: prev_inv_def order_inv_def map_inv_def cong: option.case_cong)
qed

text \<open>The condition of the map for one address.\<close>

definition map_entry_ok :: "work_queue \<Rightarrow> string \<Rightarrow> bool" where
  "map_entry_ok q a \<longleftrightarrow> (case map_of (deviceQueues q) a of
       None \<Rightarrow> (\<forall>j < length (jobs q). address_of q j = a \<longrightarrow> phase_of q j = Finished)
     | Some n \<Rightarrow> n < length (jobs q) \<and> address_of q n = a \<and> phase_of q n \<noteq> Finished \<and>
                 (\<forall>j. n < j \<longrightarrow> j < length (jobs q) \<longrightarrow> address_of q j \<noteq> a))"

lemma map_inv_iff: "map_inv q \<longleftrightarrow> (\<forall>a. map_entry_ok q a)"
  by (simp add: map_inv_def map_entry_ok_def)

lemma map_entry_None:
  "map_of (deviceQueues q) a = None \<Longrightarrow>
   map_entry_ok q a = (\<forall>j < length (jobs q). address_of q j = a \<longrightarrow> phase_of q j = Finished)"
  by (simp add: map_entry_ok_def)

lemma map_entry_Some:
  "map_of (deviceQueues q) a = Some n \<Longrightarrow>
   map_entry_ok q a \<longleftrightarrow> n < length (jobs q) \<and> address_of q n = a \<and> phase_of q n \<noteq> Finished \<and>
     (\<forall>j. n < j \<longrightarrow> j < length (jobs q) \<longrightarrow> address_of q j \<noteq> a)"
  by (simp add: map_entry_ok_def)

lemma resolved_chain:
  assumes inv: "queue_inv q" and k: "k < length (jobs q)" and fin: "phase_of q k = Finished"
  shows "queued_resolved (jobs q) k"
  using k fin
proof (induction k rule: less_induct)
  case (less k)
  have "order_inv q" "prev_inv q" using inv by (simp_all add: queue_inv_def)
  then have earlier: "earlier_finished q k" and prev: "case job_prev (jobs q ! k) of None \<Rightarrow> True
      | Some p \<Rightarrow> p < k \<and> address_of q p = address_of q k"
    using less.prems by (auto simp: order_inv_def prev_inv_def split: option.splits)
  show ?case
  proof (cases "job_prev (jobs q ! k)")
    case None
    then show ?thesis using less.prems by (subst queued_resolved.simps) (simp add: phase_of_def)
  next
    case (Some p)
    then have p: "p < k" "phase_of q p = Finished" using earlier prev by (auto simp: earlier_finished_def)
    then have "queued_resolved (jobs q) p" using less.IH less.prems(1) by simp
    then show ?thesis
      using less.prems Some p by (subst queued_resolved.simps) (simp add: phase_of_def)
  qed
qed

lemma resolved_finished: "queued_resolved (jobs q) k \<Longrightarrow> k < length (jobs q) \<and> phase_of q k = Finished"
  by (subst (asm) queued_resolved.simps) (simp add: phase_of_def)

text \<open>A job may start exactly when every earlier job of its address has finished.\<close>

lemma can_start_iff:
  assumes inv: "queue_inv q" and k: "k < length (jobs q)" and wait: "phase_of q k = Waiting"
  shows "start_job k q \<noteq> None \<longleftrightarrow> earlier_finished q k"
proof -
  have prev: "case job_prev (jobs q ! k) of None \<Rightarrow> earlier_finished q k
     | Some p \<Rightarrow> p < k \<and> address_of q p = address_of q k \<and>
                 (\<forall>j. p < j \<longrightarrow> j < k \<longrightarrow> address_of q j \<noteq> address_of q k)"
    using inv k by (simp add: queue_inv_def prev_inv_def)
  show ?thesis
  proof (cases "job_prev (jobs q ! k)")
    case None
    then show ?thesis using prev k wait by (simp add: start_job_def)
  next
    case (Some p)
    then have p: "p < k" "address_of q p = address_of q k"
        "\<And>j. \<lbrakk>p < j; j < k\<rbrakk> \<Longrightarrow> address_of q j \<noteq> address_of q k"
      using prev by auto
    have "start_job k q \<noteq> None \<longleftrightarrow> queued_resolved (jobs q) p"
      using Some k wait by (simp add: start_job_def)
    also have "\<dots> \<longleftrightarrow> phase_of q p = Finished"
      using resolved_chain [OF inv] resolved_finished p(1) k by (metis less_trans)
    also have "\<dots> \<longleftrightarrow> earlier_finished q k"
    proof
      assume fin: "phase_of q p = Finished"
      then have "earlier_finished q p"
        using inv p(1) k by (auto simp: queue_inv_def order_inv_def)
      then show "earlier_finished q k"
        using fin p by (metis earlier_finished_def linorder_neqE_nat)
    qed (use p in \<open>simp add: earlier_finished_def\<close>)
    finally show ?thesis .
  qed
qed

lemma enqueue_simps [simp]:
  "length (jobs (enqueue a q)) = Suc (length (jobs q))"
  "j < length (jobs q) \<Longrightarrow> address_of (enqueue a q) j = address_of q j"
  "address_of (enqueue a q) (length (jobs q)) = a"
  "j < length (jobs q) \<Longrightarrow> phase_of (enqueue a q) j = phase_of q j"
  "phase_of (enqueue a q) (length (jobs q)) = Waiting"
  "j < length (jobs q) \<Longrightarrow> job_prev (jobs (enqueue a q) ! j) = job_prev (jobs q ! j)"
  "job_prev (jobs (enqueue a q) ! length (jobs q)) = map_of (deviceQueues q) a"
  "map_of (deviceQueues (enqueue a q)) b = (if b = a then Some (length (jobs q)) else map_of (deviceQueues q) b)"
  by (simp_all add: enqueue_def address_of_def phase_of_def nth_append)

lemma enqueue_earlier [simp]:
  "k < length (jobs q) \<Longrightarrow> earlier_finished (enqueue a q) k = earlier_finished q k"
  by (simp add: earlier_finished_def)

lemma enqueue_inv:
  assumes inv: "queue_inv q"
  shows "queue_inv (enqueue a q)"
proof -
  let ?n = "length (jobs q)"
  have map: "case map_of (deviceQueues q) a of
       None \<Rightarrow> (\<forall>j < ?n. address_of q j = a \<longrightarrow> phase_of q j = Finished)
     | Some n \<Rightarrow> n < ?n \<and> address_of q n = a \<and> (\<forall>j. n < j \<longrightarrow> j < ?n \<longrightarrow> address_of q j \<noteq> a)"
    using inv by (auto simp: queue_inv_def map_inv_def split: option.splits dest: spec [of _ a])
  have "prev_inv (enqueue a q)"
    unfolding prev_inv_def
  proof (intro allI impI)
    fix k assume "k < length (jobs (enqueue a q))"
    then consider "k < ?n" | "k = ?n" by fastforce
    then show "case job_prev (jobs (enqueue a q) ! k) of None \<Rightarrow> earlier_finished (enqueue a q) k
       | Some p \<Rightarrow> p < k \<and> address_of (enqueue a q) p = address_of (enqueue a q) k \<and>
           (\<forall>j. p < j \<longrightarrow> j < k \<longrightarrow> address_of (enqueue a q) j \<noteq> address_of (enqueue a q) k)"
    proof cases
      case 1
      then show ?thesis using inv by (auto simp: queue_inv_def prev_inv_def split: option.splits)
    next
      case 2
      then show ?thesis using map by (cases "map_of (deviceQueues q) a") (simp_all add: earlier_finished_def)
    qed
  qed
  moreover have "order_inv (enqueue a q)"
    using inv by (auto simp: queue_inv_def order_inv_def less_Suc_eq)
  moreover have "map_entry_ok (enqueue a q) b" for b
  proof -
    have old: "map_entry_ok q b" using inv by (simp add: queue_inv_def map_inv_iff)
    show ?thesis
    proof (cases "b = a")
      case True
      then show ?thesis using map_entry_Some [of "enqueue a q" b ?n] by auto
    next
      case False
      show ?thesis
      proof (cases "map_of (deviceQueues q) b")
        case None
        then show ?thesis
          using False old map_entry_None [of q b] map_entry_None [of "enqueue a q" b]
          by (auto simp: less_Suc_eq)
      next
        case (Some n)
        then show ?thesis
          using False old map_entry_Some [of q b n] map_entry_Some [of "enqueue a q" b n]
          by (auto simp: less_Suc_eq)
      qed
    qed
  qed
  ultimately show ?thesis using inv by (simp add: queue_inv_def map_inv_iff) (simp add: enqueue_def)
qed

text \<open>A job whose predecessors have finished moves on: from waiting to running, or to its end.\<close>

lemma advance_inv:
  assumes inv: "queue_inv q" and k: "k < length (jobs q)" "phase_of q k \<noteq> Finished"
    and first: "earlier_finished q k"
    and same: "length (jobs q') = length (jobs q)" "\<And>j. address_of q' j = address_of q j"
      "\<And>j. job_prev (jobs q' ! j) = job_prev (jobs q ! j)"
      "\<And>j. phase_of q' j = (if j = k then ph else phase_of q j)"
  shows "prev_inv q'" and "order_inv q'"
proof -
  have mono: "earlier_finished q' j" if "earlier_finished q j" for j
    using that k(2) by (auto simp: earlier_finished_def same)
  show "prev_inv q'"
    unfolding prev_inv_def
  proof (intro allI impI)
    fix j assume "j < length (jobs q')"
    then have "case job_prev (jobs q ! j) of None \<Rightarrow> earlier_finished q j
       | Some p \<Rightarrow> p < j \<and> address_of q p = address_of q j \<and>
           (\<forall>i. p < i \<longrightarrow> i < j \<longrightarrow> address_of q i \<noteq> address_of q j)"
      using inv same(1) by (simp add: queue_inv_def prev_inv_def)
    then show "case job_prev (jobs q' ! j) of None \<Rightarrow> earlier_finished q' j
       | Some p \<Rightarrow> p < j \<and> address_of q' p = address_of q' j \<and>
           (\<forall>i. p < i \<longrightarrow> i < j \<longrightarrow> address_of q' i \<noteq> address_of q' j)"
      using mono by (cases "job_prev (jobs q ! j)") (simp_all add: same)
  qed
  show "order_inv q'"
    using inv mono first by (auto simp: queue_inv_def order_inv_def same)
qed

lemma start_inv:
  assumes inv: "queue_inv q" and start: "start_job k q = Some q'"
  shows "queue_inv q'"
proof -
  have k: "k < length (jobs q)" "phase_of q k = Waiting" and q': "q' = set_phase k Running q"
    using start by (auto simp: start_job_def split: if_splits)
  note same = set_phase_nth [OF k(1), of Running]
  have first: "earlier_finished q k" using can_start_iff [OF inv k] start by simp
  have "prev_inv q'" "order_inv q'"
    using advance_inv [OF inv k(1) _ first, of q' Running] k(2) by (simp_all add: q' same)
  moreover have "map_entry_ok q' b" for b
  proof -
    have "map_entry_ok q b" using inv by (simp add: queue_inv_def map_inv_iff)
    then show ?thesis
      using k by (auto simp: map_entry_ok_def q' same split: option.splits)
  qed
  ultimately show ?thesis using inv by (simp add: queue_inv_def map_inv_iff) (simp add: q')
qed

lemma finish_inv:
  assumes inv: "queue_inv q" and fin: "finish_job k q = Some q'"
  shows "queue_inv q'"
proof -
  let ?a = "address_of q k"
  have k: "k < length (jobs q)" "phase_of q k = Running"
    and q': "q' = (if map_of (deviceQueues q) ?a = Some k
               then (set_phase k Finished q)\<lparr>deviceQueues := obj_delete ?a (deviceQueues q)\<rparr>
               else set_phase k Finished q)"
    using fin by (auto simp: finish_job_def Let_def split: if_splits)
  have first: "earlier_finished q k" using inv k by (simp add: queue_inv_def order_inv_def)
  have js: "jobs q' = jobs (set_phase k Finished q)" by (simp add: q')
  then have same: "length (jobs q') = length (jobs q)" "address_of q' j = address_of q j"
      "job_prev (jobs q' ! j) = job_prev (jobs q ! j)"
      "phase_of q' j = (if j = k then Finished else phase_of q j)" for j
    using set_phase_nth [OF k(1), of Finished j] by (simp_all add: address_of_def phase_of_def)
  have "prev_inv q'" "order_inv q'"
    using advance_inv [OF inv k(1) _ first same] k(2) by simp_all
  moreover have "map_entry_ok q' b" for b
  proof -
    have old: "map_entry_ok q b" using inv by (simp add: queue_inv_def map_inv_iff)
    have dq: "map_of (deviceQueues q') b =
        (if b = ?a \<and> map_of (deviceQueues q) ?a = Some k then None else map_of (deviceQueues q) b)"
      by (simp add: q')
    show ?thesis
    proof (cases "b = ?a \<and> map_of (deviceQueues q) ?a = Some k")
      case True
      then have "\<forall>j. k < j \<longrightarrow> j < length (jobs q) \<longrightarrow> address_of q j \<noteq> b"
        using old map_entry_Some [of q b k] by simp
      then have "phase_of q' j = Finished" if "j < length (jobs q)" "address_of q j = b" for j
        using that True first by (cases j k rule: linorder_cases) (auto simp: same earlier_finished_def)
      then show ?thesis using True dq map_entry_None [of q' b] by (simp add: same)
    next
      case False
      then have "map_of (deviceQueues q') b = map_of (deviceQueues q) b" using dq by simp
      then show ?thesis
        using old False by (cases "map_of (deviceQueues q) b") (auto simp: map_entry_ok_def same)
    qed
  qed
  ultimately show ?thesis using inv by (simp add: queue_inv_def map_inv_iff) (simp add: q')
qed

lemma queue_inv_frame:
  assumes "queue_inv q" and "jobs q' = jobs q" and "deviceQueues q' = deviceQueues q"
    and "stopRequested q' \<longrightarrow> sleepWaiters q' = []"
  shows "queue_inv q'"
  using assms job_inv_cong [OF assms(2,3)] by (simp add: queue_inv_def)

lemma queue_reachable_inv: "queue_reachable q \<Longrightarrow> queue_inv q"
proof (induction rule: queue_reachable.induct)
  case initial
  show ?case
    by (simp add: queue_inv_def prev_inv_def order_inv_def map_inv_def new_DeviceWorkQueue_def)
next
  case (step q e q')
  have stop: "stopRequested q \<longrightarrow> sleepWaiters q = []" using step.IH by (simp add: queue_inv_def)
  show ?case
  proof (cases e)
    case (Enqueue a)
    then show ?thesis using step enqueue_inv by auto
  next
    case (StartJob k)
    then show ?thesis using step start_inv by simp
  next
    case (FinishJob k)
    then show ?thesis using step finish_inv by simp
  next
    case Stop
    then show ?thesis using step by (auto simp: queue_stop_def intro!: queue_inv_frame [OF step.IH])
  next
    case Reset
    then show ?thesis using step by (auto simp: queue_reset_def intro!: queue_inv_frame [OF step.IH])
  next
    case (Sleep ms)
    then show ?thesis using step by (auto simp: queue_sleep_def intro!: queue_inv_frame [OF step.IH] split: if_splits)
  next
    case (Wake t)
    then show ?thesis using step stop by (auto simp: sleep_done_def split: if_splits intro!: queue_inv_frame [OF step.IH])
  qed
qed

subsection \<open>The interface: a first-come, first-served mutex\<close>

locale fifo_mutex =
  fixes reach :: "'q \<Rightarrow> bool" and count :: "'q \<Rightarrow> nat" and owner :: "'q \<Rightarrow> nat \<Rightarrow> 'a"
    and started :: "'q \<Rightarrow> nat \<Rightarrow> bool" and ended :: "'q \<Rightarrow> nat \<Rightarrow> bool"
  assumes in_order: "\<lbrakk>reach q; i < j; j < count q; owner q i = owner q j; started q j\<rbrakk> \<Longrightarrow> ended q i"
begin

definition inside :: "'q \<Rightarrow> nat \<Rightarrow> bool" where
  "inside q k \<longleftrightarrow> k < count q \<and> started q k \<and> \<not> ended q k"

lemma exclusive: "\<lbrakk>reach q; inside q i; inside q j; owner q i = owner q j\<rbrakk> \<Longrightarrow> i = j"
  using in_order by (metis inside_def linorder_neqE_nat)

lemma no_overtaking: "\<lbrakk>reach q; i < j; j < count q; owner q i = owner q j; \<not> ended q i\<rbrakk> \<Longrightarrow> \<not> started q j"
  using in_order by blast

end

interpretation mutex: fifo_mutex queue_reachable "\<lambda>q. length (jobs q)" address_of
    "\<lambda>q k. phase_of q k \<noteq> Waiting" "\<lambda>q k. phase_of q k = Finished"
  by unfold_locales
    (use queue_reachable_inv in \<open>force simp: queue_inv_def order_inv_def earlier_finished_def\<close>)

subsection \<open>Properties\<close>

text \<open>
  C10: in every reachable state of the work queue at most one job per Bluetooth address runs,
  jobs of an address start in the order they were enqueued (none has started while an earlier
  one is unfinished), and the map holds an entry for an address exactly while a job of it is
  unfinished, so finished addresses leave nothing behind.
\<close>

theorem queue_mutual_exclusion:
  assumes "queue_reachable q"
  shows "(i < length (jobs q) \<and> j < length (jobs q) \<and> address_of q i = address_of q j \<and>
      phase_of q i = Running \<and> phase_of q j = Running \<longrightarrow> i = j) \<and>
    (i < j \<and> j < length (jobs q) \<and> address_of q i = address_of q j \<and> phase_of q i \<noteq> Finished \<longrightarrow>
      phase_of q j = Waiting) \<and>
    (map_of (deviceQueues q) a \<noteq> None \<longleftrightarrow>
      (\<exists>k < length (jobs q). address_of q k = a \<and> phase_of q k \<noteq> Finished))"
proof -
  have "map_entry_ok q a" using queue_reachable_inv [OF assms] by (simp add: queue_inv_def map_inv_iff)
  then have "map_of (deviceQueues q) a \<noteq> None \<longleftrightarrow>
      (\<exists>k < length (jobs q). address_of q k = a \<and> phase_of q k \<noteq> Finished)"
    by (auto simp: map_entry_ok_def split: option.splits)
  moreover have "\<lbrakk>i < length (jobs q); j < length (jobs q); address_of q i = address_of q j;
      phase_of q i = Running; phase_of q j = Running\<rbrakk> \<Longrightarrow> i = j"
    using mutex.exclusive [OF assms, of i j] by (simp add: mutex.inside_def)
  ultimately show ?thesis using mutex.no_overtaking [OF assms, of i j] by blast
qed

definition sample_queue :: work_queue where
  "sample_queue = set_phase 0 Running (enqueue ''A'' (enqueue ''A'' new_DeviceWorkQueue))"

lemma sample_queue_reachable: "queue_reachable sample_queue"
proof -
  let ?q = "enqueue ''A'' (enqueue ''A'' new_DeviceWorkQueue)"
  have "queue_reachable (enqueue a q)" if "queue_reachable q" for a q
    by (rule queue_reachable.step [OF that, of "Enqueue a"]) simp
  then have "queue_reachable ?q" using queue_reachable.initial by blast
  moreover have "queue_step (StartJob 0) ?q = Some sample_queue"
    by (simp add: start_job_def sample_queue_def new_DeviceWorkQueue_def enqueue_def phase_of_def)
  ultimately show ?thesis by (rule queue_reachable.step)
qed

theorem queue_mutual_exclusion_witness:
  "phase_of sample_queue 1 = Waiting \<and> map_of (deviceQueues sample_queue) ''A'' \<noteq> None"
proof -
  have "length (jobs sample_queue) = 2" "address_of sample_queue 0 = ''A''" "address_of sample_queue 1 = ''A''"
    "phase_of sample_queue 0 = Running"
    by (simp_all add: sample_queue_def new_DeviceWorkQueue_def enqueue_def address_of_def phase_of_def set_phase_def)
  then show ?thesis
    using queue_mutual_exclusion [OF sample_queue_reachable, of 0 1 "''A''"] by force
qed

text \<open>
  The queue never deadlocks: while a job is unfinished, some job of the same address
  enqueued no later can take a step, either start or, if it runs, finish; and once \<open>stop\<close> has
  been called no sleeper is left waiting until the next \<open>reset\<close>.
\<close>

theorem queue_progress:
  assumes "queue_reachable q"
  shows "(k < length (jobs q) \<and> phase_of q k \<noteq> Finished \<longrightarrow>
      (\<exists>j \<le> k. address_of q j = address_of q k \<and>
         (queue_step (StartJob j) q \<noteq> None \<or> queue_step (FinishJob j) q \<noteq> None))) \<and>
    (stopRequested q \<longrightarrow> sleepWaiters q = [])"
proof -
  have inv: "queue_inv q" using assms by (rule queue_reachable_inv)
  have "\<exists>j \<le> k. address_of q j = address_of q k \<and>
      (queue_step (StartJob j) q \<noteq> None \<or> queue_step (FinishJob j) q \<noteq> None)"
    if k: "k < length (jobs q)" "phase_of q k \<noteq> Finished"
  proof -
    define j where "j = (LEAST j. address_of q j = address_of q k \<and> phase_of q j \<noteq> Finished)"
    have j: "address_of q j = address_of q k" "phase_of q j \<noteq> Finished" "j \<le> k"
      using LeastI [of "\<lambda>j. address_of q j = address_of q k \<and> phase_of q j \<noteq> Finished" k]
        Least_le [of "\<lambda>j. address_of q j = address_of q k \<and> phase_of q j \<noteq> Finished" k] k
      by (simp_all add: j_def)
    have "earlier_finished q j"
      unfolding earlier_finished_def using not_less_Least j(1) by (auto simp: j_def)
    then show ?thesis
      using j k can_start_iff [OF inv, of j]
      by (intro exI [of _ j]) (cases "phase_of q j"; auto simp: finish_job_def Let_def)
  qed
  then show ?thesis using inv by (simp add: queue_inv_def)
qed

theorem queue_progress_witness:
  "\<exists>j \<le> 1. queue_step (StartJob j) sample_queue \<noteq> None \<or> queue_step (FinishJob j) sample_queue \<noteq> None"
proof -
  have "1 < length (jobs sample_queue)" "phase_of sample_queue 1 \<noteq> Finished"
    by (simp_all add: sample_queue_def new_DeviceWorkQueue_def enqueue_def phase_of_def set_phase_def)
  with queue_progress [OF sample_queue_reachable, of 1] show ?thesis by blast
qed

end
