(* ===== verification/PollingState.thy ===== *)
theory PollingState
  imports JsNumber
begin

text \<open>
  \<open>app/polling-state.ts\<close>: the polling options with their defaults, the per-device schedule and
  its adaptive backoff, and the telemetry counters. Times and intervals are integers of
  milliseconds; an ISO timestamp is the millisecond it renders.
\<close>

subsection \<open>Options\<close>

record polling_options =
  opt_fastIntervalMs :: int
  opt_fullIntervalMs :: int
  opt_commandDelayMs :: int
  opt_busyPenaltyMs :: int
  opt_recoveryStepMs :: int
  opt_maxFastIntervalMs :: int
  opt_maxFullIntervalMs :: int
  opt_maxCommandDelayMs :: int

text \<open>The options object a caller passes: any field may be missing.\<close>

record partial_options =
  par_fastIntervalMs :: "int option"
  par_fullIntervalMs :: "int option"
  par_commandDelayMs :: "int option"
  par_busyPenaltyMs :: "int option"
  par_recoveryStepMs :: "int option"
  par_maxFastIntervalMs :: "int option"
  par_maxFullIntervalMs :: "int option"
  par_maxCommandDelayMs :: "int option"

definition DEFAULT_POLLING_OPTIONS :: polling_options where
  "DEFAULT_POLLING_OPTIONS = \<lparr>opt_fastIntervalMs = 2500, opt_fullIntervalMs = 15000,
     opt_commandDelayMs = 150, opt_busyPenaltyMs = 750, opt_recoveryStepMs = 50,
     opt_maxFastIntervalMs = 8000, opt_maxFullIntervalMs = 45000, opt_maxCommandDelayMs = 750\<rparr>"

definition TELEMETRY_SUMMARY_INTERVAL_MS :: int where "TELEMETRY_SUMMARY_INTERVAL_MS = 60000"
definition BUSY_WARNING_INTERVAL_MS :: int where "BUSY_WARNING_INTERVAL_MS = 60000"
definition STARTUP_RETRY_DELAY_MS :: int where "STARTUP_RETRY_DELAY_MS = 5000"

datatype interval_or_options = Interval int | Options partial_options

definition given :: "'a option \<Rightarrow> 'a \<Rightarrow> 'a" where
  "given x d = (case x of None \<Rightarrow> d | Some v \<Rightarrow> v)"

fun normalizePollingOptions :: "interval_or_options \<Rightarrow> polling_options" where
  "normalizePollingOptions (Interval i) =
     (if i \<le> 0 then DEFAULT_POLLING_OPTIONS
      else DEFAULT_POLLING_OPTIONS\<lparr>opt_fastIntervalMs := i,
             opt_fullIntervalMs := max (i * 4) (opt_fullIntervalMs DEFAULT_POLLING_OPTIONS)\<rparr>)"
| "normalizePollingOptions (Options p) =
     (let d = DEFAULT_POLLING_OPTIONS
      in \<lparr>opt_fastIntervalMs = given (par_fastIntervalMs p) (opt_fastIntervalMs d),
          opt_fullIntervalMs = given (par_fullIntervalMs p) (opt_fullIntervalMs d),
          opt_commandDelayMs = given (par_commandDelayMs p) (opt_commandDelayMs d),
          opt_busyPenaltyMs = given (par_busyPenaltyMs p) (opt_busyPenaltyMs d),
          opt_recoveryStepMs = given (par_recoveryStepMs p) (opt_recoveryStepMs d),
          opt_maxFastIntervalMs = given (par_maxFastIntervalMs p) (opt_maxFastIntervalMs d),
          opt_maxFullIntervalMs = given (par_maxFullIntervalMs p) (opt_maxFullIntervalMs d),
          opt_maxCommandDelayMs = given (par_maxCommandDelayMs p) (opt_maxCommandDelayMs d)\<rparr>)"

subsection \<open>The schedule\<close>

record polling_state =
  nextFastPollAt :: int
  nextFullPollAt :: int
  fastIntervalMs :: int
  fullIntervalMs :: int
  commandDelayMs :: int

definition createDevicePollingState :: "polling_options \<Rightarrow> polling_state" where
  "createDevicePollingState opts = \<lparr>nextFastPollAt = 0, nextFullPollAt = 0,
     fastIntervalMs = opt_fastIntervalMs opts,
     fullIntervalMs = max (opt_fullIntervalMs opts) (opt_fastIntervalMs opts),
     commandDelayMs = opt_commandDelayMs opts\<rparr>"

definition scheduleNextPoll :: "int \<Rightarrow> polling_state \<Rightarrow> polling_state" where
  "scheduleNextPoll now s = s\<lparr>nextFastPollAt := now + fastIntervalMs s,
                              nextFullPollAt := now + fullIntervalMs s\<rparr>"

definition applyBusyBackoff :: "polling_options \<Rightarrow> polling_state \<Rightarrow> polling_state" where
  "applyBusyBackoff opts s = s\<lparr>
     fastIntervalMs := min (fastIntervalMs s + opt_busyPenaltyMs opts) (opt_maxFastIntervalMs opts),
     fullIntervalMs := min (fullIntervalMs s + opt_busyPenaltyMs opts * 2) (opt_maxFullIntervalMs opts),
     commandDelayMs := min (commandDelayMs s + opt_recoveryStepMs opts) (opt_maxCommandDelayMs opts)\<rparr>"

definition recoverPollingState :: "polling_options \<Rightarrow> polling_state \<Rightarrow> polling_state" where
  "recoverPollingState opts s = s\<lparr>
     fastIntervalMs := max (opt_fastIntervalMs opts) (fastIntervalMs s - opt_recoveryStepMs opts),
     fullIntervalMs := max (opt_fullIntervalMs opts) (fullIntervalMs s - opt_recoveryStepMs opts * 2),
     commandDelayMs := max (opt_commandDelayMs opts) (commandDelayMs s - opt_recoveryStepMs opts)\<rparr>"

subsection \<open>Telemetry\<close>

datatype command_result = Ok | ExpectedError | Busy | ConnectionError

record device_telemetry =
  cycleCount :: nat
  fastCycleCount :: nat
  fullCycleCount :: nat
  successfulCommandCount :: nat
  expectedErrorCount :: nat
  busyErrorCount :: nat
  commandWriteCount :: nat
  parserPublishCount :: nat
  totalCycleDurationMs :: int
  totalCommandDurationMs :: int
  maxCycleDurationMs :: int
  maxCommandDurationMs :: int
  lastCycleStartedAt :: "int option"
  lastCycleCompletedAt :: "int option"
  lastBusyAt :: "int option"
  lastErrorAt :: "int option"
  lastBusyWarningAtMs :: int
  suppressedBusyWarningCount :: nat
  lastSummaryAtMs :: int

definition createDeviceTelemetry :: device_telemetry where
  "createDeviceTelemetry = \<lparr>cycleCount = 0, fastCycleCount = 0, fullCycleCount = 0,
     successfulCommandCount = 0, expectedErrorCount = 0, busyErrorCount = 0, commandWriteCount = 0,
     parserPublishCount = 0, totalCycleDurationMs = 0, totalCommandDurationMs = 0,
     maxCycleDurationMs = 0, maxCommandDurationMs = 0, lastCycleStartedAt = None,
     lastCycleCompletedAt = None, lastBusyAt = None, lastErrorAt = None, lastBusyWarningAtMs = 0,
     suppressedBusyWarningCount = 0, lastSummaryAtMs = 0\<rparr>"

text \<open>\<open>Math.round(total / count)\<close>, with no division for an empty count.\<close>

definition double_div :: "int \<Rightarrow> nat \<Rightarrow> rat" where
  "double_div n d = (if n < 0 then - double_of (nat (- n)) d else double_of (nat n) d)"

definition rounded_average :: "int \<Rightarrow> nat \<Rightarrow> int" where
  "rounded_average sum_ms count = (if count = 0 then 0 else \<lfloor>double_div sum_ms count + 1 / 2\<rfloor>)"

datatype summary_value = Count int | Stamp "int option"

definition summarizeTelemetry :: "device_telemetry \<Rightarrow> (string \<times> summary_value) list" where
  "summarizeTelemetry t =
     [(''cycleCount'', Count (int (cycleCount t))),
      (''fastCycleCount'', Count (int (fastCycleCount t))),
      (''fullCycleCount'', Count (int (fullCycleCount t))),
      (''successfulCommandCount'', Count (int (successfulCommandCount t))),
      (''expectedErrorCount'', Count (int (expectedErrorCount t))),
      (''busyErrorCount'', Count (int (busyErrorCount t))),
      (''commandWriteCount'', Count (int (commandWriteCount t))),
      (''parserPublishCount'', Count (int (parserPublishCount t))),
      (''averageCycleDurationMs'', Count (rounded_average (totalCycleDurationMs t) (cycleCount t))),
      (''averageCommandDurationMs'',
         Count (rounded_average (totalCommandDurationMs t) (successfulCommandCount t))),
      (''maxCycleDurationMs'', Count (maxCycleDurationMs t)),
      (''maxCommandDurationMs'', Count (maxCommandDurationMs t)),
      (''lastCycleStartedAt'', Stamp (lastCycleStartedAt t)),
      (''lastCycleCompletedAt'', Stamp (lastCycleCompletedAt t)),
      (''lastBusyAt'', Stamp (lastBusyAt t)),
      (''lastErrorAt'', Stamp (lastErrorAt t))]"

subsection \<open>The envelope of the backoff\<close>

text \<open>Options whose limits are consistent, as the defaults are.\<close>

definition coherent :: "polling_options \<Rightarrow> bool" where
  "coherent opts \<longleftrightarrow> opt_fastIntervalMs opts \<le> opt_maxFastIntervalMs opts \<and>
     opt_fastIntervalMs opts \<le> opt_fullIntervalMs opts \<and>
     opt_fullIntervalMs opts \<le> opt_maxFullIntervalMs opts \<and>
     opt_commandDelayMs opts \<le> opt_maxCommandDelayMs opts \<and>
     0 \<le> opt_busyPenaltyMs opts \<and> 0 \<le> opt_recoveryStepMs opts"

definition within_envelope :: "polling_options \<Rightarrow> polling_state \<Rightarrow> bool" where
  "within_envelope opts s \<longleftrightarrow>
     opt_fastIntervalMs opts \<le> fastIntervalMs s \<and> fastIntervalMs s \<le> opt_maxFastIntervalMs opts \<and>
     opt_fullIntervalMs opts \<le> fullIntervalMs s \<and> fullIntervalMs s \<le> opt_maxFullIntervalMs opts \<and>
     opt_commandDelayMs opts \<le> commandDelayMs s \<and> commandDelayMs s \<le> opt_maxCommandDelayMs opts"

text \<open>The adjustments a run makes, in any order.\<close>

datatype adjustment = Backoff | Recover | Schedule int

fun adjust :: "polling_options \<Rightarrow> adjustment \<Rightarrow> polling_state \<Rightarrow> polling_state" where
  "adjust opts Backoff s = applyBusyBackoff opts s"
| "adjust opts Recover s = recoverPollingState opts s"
| "adjust opts (Schedule now) s = scheduleNextPoll now s"

lemmas polling_defs = createDevicePollingState_def scheduleNextPoll_def applyBusyBackoff_def
  recoverPollingState_def

lemma create_within: "coherent opts \<Longrightarrow> within_envelope opts (createDevicePollingState opts)"
  by (auto simp: coherent_def within_envelope_def polling_defs)

lemma adjust_within: "\<lbrakk>coherent opts; within_envelope opts s\<rbrakk> \<Longrightarrow> within_envelope opts (adjust opts a s)"
  by (cases a) (auto simp: coherent_def within_envelope_def polling_defs)

lemma adjusts_within:
  "\<lbrakk>coherent opts; within_envelope opts s\<rbrakk> \<Longrightarrow> within_envelope opts (fold (adjust opts) as s)"
  by (induction as arbitrary: s) (simp_all add: adjust_within)

text \<open>How far a state is above the configured intervals.\<close>

definition excess :: "polling_options \<Rightarrow> polling_state \<Rightarrow> nat" where
  "excess opts s = nat (fastIntervalMs s - opt_fastIntervalMs opts) + nat (fullIntervalMs s - opt_fullIntervalMs opts) +
     nat (commandDelayMs s - opt_commandDelayMs opts)"

definition at_rest :: "polling_options \<Rightarrow> polling_state \<Rightarrow> bool" where
  "at_rest opts s \<longleftrightarrow> fastIntervalMs s = opt_fastIntervalMs opts \<and> fullIntervalMs s = opt_fullIntervalMs opts \<and>
     commandDelayMs s = opt_commandDelayMs opts"

lemma recover_decreases:
  "\<lbrakk>within_envelope opts s; 0 < opt_recoveryStepMs opts; \<not> at_rest opts s\<rbrakk> \<Longrightarrow>
   excess opts (recoverPollingState opts s) < excess opts s"
  by (auto simp: within_envelope_def at_rest_def excess_def recoverPollingState_def max_def)

lemma recover_rests:
  assumes "coherent opts" and "0 < opt_recoveryStepMs opts"
  shows "within_envelope opts s \<Longrightarrow> \<exists>k. k \<le> excess opts s \<and> at_rest opts ((recoverPollingState opts ^^ k) s)"
proof (induction "excess opts s" arbitrary: s rule: less_induct)
  case less
  show ?case
  proof (cases "at_rest opts s")
    case True
    then show ?thesis by (intro exI [of _ 0]) simp
  next
    case False
    let ?s = "recoverPollingState opts s"
    have lt: "excess opts ?s < excess opts s" using recover_decreases less.prems assms(2) False by blast
    have "within_envelope opts ?s" using adjust_within [of opts s Recover] assms(1) less.prems by simp
    then obtain k where "k \<le> excess opts ?s" "at_rest opts ((recoverPollingState opts ^^ k) ?s)"
      using less.hyps [OF lt] by blast
    then show ?thesis using lt by (intro exI [of _ "Suc k"]) (simp add: funpow_Suc_right del: funpow.simps)
  qed
qed

subsection \<open>Properties\<close>

text \<open>
  With coherent options, whatever the sequence of busy responses, successes and reconnects,
  the adaptive intervals and the command delay stay between their configured values and their
  limits; a busy response never shortens them and a success never lengthens them.
\<close>

theorem polling_envelope:
  assumes "coherent opts"
  shows "within_envelope opts (fold (adjust opts) as (createDevicePollingState opts)) \<and>
    (within_envelope opts s \<longrightarrow>
       fastIntervalMs s \<le> fastIntervalMs (applyBusyBackoff opts s) \<and>
       fullIntervalMs s \<le> fullIntervalMs (applyBusyBackoff opts s) \<and>
       commandDelayMs s \<le> commandDelayMs (applyBusyBackoff opts s) \<and>
       fastIntervalMs (recoverPollingState opts s) \<le> fastIntervalMs s \<and>
       fullIntervalMs (recoverPollingState opts s) \<le> fullIntervalMs s \<and>
       commandDelayMs (recoverPollingState opts s) \<le> commandDelayMs s)"
  using adjusts_within [OF assms create_within [OF assms]] assms
  by (auto simp: coherent_def within_envelope_def polling_defs)

theorem polling_envelope_witness:
  "coherent DEFAULT_POLLING_OPTIONS \<and>
   within_envelope DEFAULT_POLLING_OPTIONS
     (fold (adjust DEFAULT_POLLING_OPTIONS) [Backoff, Backoff, Recover] (createDevicePollingState DEFAULT_POLLING_OPTIONS))"
proof -
  have "coherent DEFAULT_POLLING_OPTIONS" by (simp add: coherent_def DEFAULT_POLLING_OPTIONS_def)
  then show ?thesis using polling_envelope by blast
qed

text \<open>
  Backoff wears off: with a positive recovery step, from any state within the limits a
  bounded number of successful cycles (at most the total excess in milliseconds) brings the
  intervals and the delay back to their configured values.
\<close>

theorem polling_recovers:
  assumes "coherent opts" and "0 < opt_recoveryStepMs opts" and "within_envelope opts s"
  shows "\<exists>k \<le> excess opts s. fastIntervalMs ((recoverPollingState opts ^^ k) s) = opt_fastIntervalMs opts \<and>
    fullIntervalMs ((recoverPollingState opts ^^ k) s) = opt_fullIntervalMs opts \<and>
    commandDelayMs ((recoverPollingState opts ^^ k) s) = opt_commandDelayMs opts"
  using recover_rests [OF assms] by (auto simp: at_rest_def)

theorem polling_recovers_witness:
  "\<exists>k. fastIntervalMs ((recoverPollingState DEFAULT_POLLING_OPTIONS ^^ k)
      (applyBusyBackoff DEFAULT_POLLING_OPTIONS (createDevicePollingState DEFAULT_POLLING_OPTIONS))) = 2500"
proof -
  let ?opts = DEFAULT_POLLING_OPTIONS
  have "coherent ?opts" "0 < opt_recoveryStepMs ?opts"
    "within_envelope ?opts (applyBusyBackoff ?opts (createDevicePollingState ?opts))"
    by (simp_all add: coherent_def DEFAULT_POLLING_OPTIONS_def within_envelope_def polling_defs)
  from polling_recovers [OF this] show ?thesis by (auto simp: DEFAULT_POLLING_OPTIONS_def)
qed

text \<open>
  With a plain interval above eight seconds the backoff works backwards: the limits keep
  their defaults, so one busy response makes the device be polled more often, not less; and
  when only a fast interval above the default full interval is configured, one success takes
  the full interval below the fast interval that the initial state had raised it to.
\<close>

theorem backoff_shortens_long_intervals:
  "(8000 < i \<longrightarrow>
     fastIntervalMs (applyBusyBackoff (normalizePollingOptions (Interval i))
       (createDevicePollingState (normalizePollingOptions (Interval i)))) = 8000 \<and>
     fastIntervalMs (createDevicePollingState (normalizePollingOptions (Interval i))) = i) \<and>
   (15000 < f \<longrightarrow> (let p = normalizePollingOptions (Options \<lparr>par_fastIntervalMs = Some f, par_fullIntervalMs = None,
        par_commandDelayMs = None, par_busyPenaltyMs = None, par_recoveryStepMs = None,
        par_maxFastIntervalMs = Some (2 * f), par_maxFullIntervalMs = None, par_maxCommandDelayMs = None\<rparr>);
      s = createDevicePollingState p
     in fullIntervalMs s = f \<and> fullIntervalMs (recoverPollingState p s) < fastIntervalMs (recoverPollingState p s)))"
  by (auto simp: polling_defs DEFAULT_POLLING_OPTIONS_def given_def Let_def)

theorem backoff_shortens_long_intervals_witness:
  "fastIntervalMs (applyBusyBackoff (normalizePollingOptions (Interval 30000))
     (createDevicePollingState (normalizePollingOptions (Interval 30000)))) = 8000"
  using backoff_shortens_long_intervals [of 30000 0] by simp

end
