(* ===== verification/Executor.thy ===== *)
theory Executor
  imports Device PollingState
begin

text \<open>
  \<open>DeviceCommandRunner\<close> (\<open>app/device-executor.ts\<close>): command sets and pack selection for one
  device, with the classification of errors.
  The surroundings answer the \<open>n\<close>-th interaction, whatever it is: the outcome of whether the
  manager has a session for the address (\<open>Manager.getSession\<close> throws otherwise), of performing a command on it through the work
  queue, of publishing a parser message and of reconnecting, the clock, and whether a stop was
  requested by then. The state is the log of the interactions so far (its length numbers the
  next one) with the telemetry; the surroundings are arbitrary, so what is shown for all of them
  holds for every behaviour of devices, brokers and operators.
  A thrown error that the code does not classify is the \<open>Inl\<close> of a result.
\<close>

definition MIN_PACK_SWITCH_DELAY_MS :: int where "MIN_PACK_SWITCH_DELAY_MS = 500"

subsection \<open>The surroundings\<close>

datatype effect =
    DoPerform string command
  | DoPublish parsed_field_map
  | DoSleep int
  | DoClock
  | DoReconnect string
  | DoConnectAll
  | DoLog string
  | DoBusyWarning string nat
  | DoSummary "(string \<times> summary_value) list"

record surroundings =
  o_session :: "nat \<Rightarrow> bool"
  o_perform :: "nat \<Rightarrow> command \<Rightarrow> bytes result"
  o_publish :: "nat \<Rightarrow> unit result"
  o_clock :: "nat \<Rightarrow> int"
  o_reconnect :: "nat \<Rightarrow> unit result"
  o_connectAll :: "nat \<Rightarrow> unit result"
  o_stop :: "nat \<Rightarrow> bool"

record run_state =
  effects :: "effect list"
  telemetry :: device_telemetry

definition tick :: "run_state \<Rightarrow> nat" where
  "tick s = length (effects s)"

definition emit :: "effect \<Rightarrow> run_state \<Rightarrow> run_state" where
  "emit x s = s\<lparr>effects := effects s @ [x]\<rparr>"

definition perform_command ::
  "surroundings \<Rightarrow> string \<Rightarrow> command \<Rightarrow> run_state \<Rightarrow> bytes result \<times> run_state" where
  "perform_command w address c s = (o_perform w (tick s) c, emit (DoPerform address c) s)"

text \<open>\<open>manager.getSession(address)\<close>, then \<open>session.perform(command)\<close>.\<close>

definition session_perform ::
  "surroundings \<Rightarrow> string \<Rightarrow> command \<Rightarrow> run_state \<Rightarrow> bytes result \<times> run_state" where
  "session_perform w address c s =
     (if o_session w (tick s) then perform_command w address c s
      else (Inl (PlainError ''No active session''), s))"

definition publish :: "surroundings \<Rightarrow> parsed_field_map \<Rightarrow> run_state \<Rightarrow> unit result \<times> run_state" where
  "publish w parsed s = (o_publish w (tick s), emit (DoPublish parsed) s)"

definition read_clock :: "surroundings \<Rightarrow> run_state \<Rightarrow> int \<times> run_state" where
  "read_clock w s = (o_clock w (tick s), emit DoClock s)"

definition do_sleep :: "int \<Rightarrow> run_state \<Rightarrow> run_state" where
  "do_sleep ms s = emit (DoSleep ms) s"

definition stop_requested :: "surroundings \<Rightarrow> run_state \<Rightarrow> bool" where
  "stop_requested w s = o_stop w (tick s)"

definition update_telemetry :: "(device_telemetry \<Rightarrow> device_telemetry) \<Rightarrow> run_state \<Rightarrow> run_state" where
  "update_telemetry f s = s\<lparr>telemetry := f (telemetry s)\<rparr>"

subsection \<open>One command\<close>

text \<open>Which error classes become which outcome; \<open>None\<close>: the error is thrown on.\<close>

fun classify_error :: "js_error \<Rightarrow> command_result option" where
  "classify_error (DeviceBusyError m c) = Some Busy"
| "classify_error (BadConnectionError m) = Some ConnectionError"
| "classify_error (CommandTimeoutError m) = Some ExpectedError"
| "classify_error (ModbusError m c) = Some ExpectedError"
| "classify_error (ParseError m) = Some ExpectedError"
| "classify_error (RangeError m) = None"
| "classify_error (PlainError m) = None"
| "classify_error (AggregateError es m) = None"

text \<open>The work that is enqueued: perform, decode, publish when something was decoded.\<close>

definition read_work ::
  "surroundings \<Rightarrow> string \<Rightarrow> bluetti_device \<Rightarrow> command \<Rightarrow> run_state \<Rightarrow> unit result \<times> run_state" where
  "read_work w address dev c s =
     (case session_perform w address c s of
        (Inl e, s) \<Rightarrow> (Inl e, s)
      | (Inr response, s) \<Rightarrow>
          (case device_parse dev (startingAddress c) (parseResponse c response) of
             Inl e \<Rightarrow> (Inl e, s)
           | Inr parsed \<Rightarrow>
               (if parsed \<noteq> []
                then publish w parsed
                       (update_telemetry (\<lambda>t. t\<lparr>parserPublishCount := parserPublishCount t + 1\<rparr>) s)
                else (Inr (), s))))"

text \<open>The \<open>catch\<close>, with the two timestamps.\<close>

definition read_caught :: "surroundings \<Rightarrow> js_error \<Rightarrow> run_state \<Rightarrow> command_result result \<times> run_state" where
  "read_caught w e s =
     (case classify_error e of
        Some Busy \<Rightarrow>
          (case read_clock w s of (now, s) \<Rightarrow>
             (Inr Busy, update_telemetry (\<lambda>t. t\<lparr>lastBusyAt := Some now\<rparr>) s))
      | Some r \<Rightarrow>
          (case read_clock w s of (now, s) \<Rightarrow>
             (Inr r, update_telemetry (\<lambda>t. t\<lparr>expectedErrorCount := expectedErrorCount t + 1,
                                            lastErrorAt := Some now\<rparr>) s))
      | None \<Rightarrow> (Inl e, s))"

definition executeReadCommand ::
  "surroundings \<Rightarrow> string \<Rightarrow> bluetti_device \<Rightarrow> command \<Rightarrow> run_state \<Rightarrow> command_result result \<times> run_state" where
  "executeReadCommand w address dev c s =
     (case read_clock w s of (startedAt, s) \<Rightarrow>
      (case (case read_work w address dev c s of
               (Inr _, s) \<Rightarrow>
                 (Inr Ok, update_telemetry (\<lambda>t. t\<lparr>successfulCommandCount := successfulCommandCount t + 1\<rparr>) s)
             | (Inl e, s) \<Rightarrow> read_caught w e s) of
         (outcome, s) \<Rightarrow>
           (case read_clock w s of (now, s) \<Rightarrow>
              (outcome, update_telemetry
                 (\<lambda>t. t\<lparr>totalCommandDurationMs := totalCommandDurationMs t + (now - startedAt),
                        maxCommandDurationMs := max (maxCommandDurationMs t) (now - startedAt)\<rparr>) s))))"

subsection \<open>Command sets\<close>

fun command_set_loop ::
  "surroundings \<Rightarrow> string \<Rightarrow> bluetti_device \<Rightarrow> command list \<Rightarrow> int \<Rightarrow> bool \<Rightarrow> run_state
     \<Rightarrow> command_result result \<times> run_state" where
  "command_set_loop w address dev [] delay sawExpectedError s =
     (Inr (if sawExpectedError then ExpectedError else Ok), s)"
| "command_set_loop w address dev (c # rest) delay sawExpectedError s =
     (if stop_requested w s
      then (Inr (if sawExpectedError then ExpectedError else Ok), s)
      else (case executeReadCommand w address dev c s of
              (Inl e, s) \<Rightarrow> (Inl e, s)
            | (Inr r, s) \<Rightarrow>
                (if r = Busy \<or> r = ConnectionError then (Inr r, s)
                 else command_set_loop w address dev rest delay (sawExpectedError \<or> r = ExpectedError)
                        (if rest \<noteq> [] \<and> 0 < delay then do_sleep delay s else s))))"

definition runCommandSet ::
  "surroundings \<Rightarrow> string \<Rightarrow> bluetti_device \<Rightarrow> command list \<Rightarrow> polling_state \<Rightarrow> run_state
     \<Rightarrow> command_result result \<times> run_state" where
  "runCommandSet w address dev commands ps s =
     (if commands = [] then (Inr Ok, s)
      else command_set_loop w address dev commands (commandDelayMs ps) False s)"

subsection \<open>Battery packs\<close>

definition trySelectPack ::
  "surroundings \<Rightarrow> string \<Rightarrow> bluetti_device \<Rightarrow> nat \<Rightarrow> polling_state \<Rightarrow> run_state
     \<Rightarrow> command_result result \<times> run_state" where
  "trySelectPack w address dev pack ps s =
     (case (case buildSetterCommand dev ''pack_num'' (SetNum (Fin (of_nat pack))) of
              Inl e \<Rightarrow> (Inl e, s)
            | Inr setter \<Rightarrow> session_perform w address setter s) of
        (Inr _, s) \<Rightarrow> (Inr Ok, do_sleep (max MIN_PACK_SWITCH_DELAY_MS (commandDelayMs ps)) s)
      | (Inl e, s) \<Rightarrow> ((case classify_error e of Some r \<Rightarrow> Inr r | None \<Rightarrow> Inl e), s))"

text \<open>The loop over the packs that remain.\<close>

fun pack_loop ::
  "surroundings \<Rightarrow> string \<Rightarrow> bluetti_device \<Rightarrow> nat list \<Rightarrow> polling_state \<Rightarrow> run_state
     \<Rightarrow> command_result result \<times> run_state" where
  "pack_loop w address dev [] ps s = (Inr Ok, s)"
| "pack_loop w address dev (pack # rest) ps s =
     (if stop_requested w s then (Inr Ok, s)
      else (let switching = 1 < packNumMax dev \<and> hasFieldSetter dev ''pack_num'';
                (switched, s) = (if switching then trySelectPack w address dev pack ps s else (Inr Ok, s))
            in case switched of
                 Inl e \<Rightarrow> (Inl e, s)
               | Inr Busy \<Rightarrow> (Inr Busy, s)
               | Inr ConnectionError \<Rightarrow> (Inr ConnectionError, s)
               | Inr ExpectedError \<Rightarrow> pack_loop w address dev rest ps s
               | Inr Ok \<Rightarrow>
                   (case runCommandSet w address dev (packPollingCommands dev) ps s of
                      (Inl e, s) \<Rightarrow> (Inl e, s)
                    | (Inr Busy, s) \<Rightarrow> (Inr Busy, s)
                    | (Inr r, s) \<Rightarrow> pack_loop w address dev rest ps s)))"

definition runPackCommands ::
  "surroundings \<Rightarrow> string \<Rightarrow> bluetti_device \<Rightarrow> polling_state \<Rightarrow> run_state
     \<Rightarrow> command_result result \<times> run_state" where
  "runPackCommands w address dev ps s =
     (if packPollingCommands dev = [] then (Inr Ok, s)
      else pack_loop w address dev [1..<packNumMax dev + 1] ps s)"

text \<open>An external write, dispatched by the event bus.\<close>

definition handleCommand ::
  "surroundings \<Rightarrow> bluetti_device \<Rightarrow> command \<Rightarrow> run_state \<Rightarrow> unit result \<times> run_state" where
  "handleCommand w dev c s =
     (if o_session w (tick s)
      then (case perform_command w (dev_address dev) c
                   (update_telemetry (\<lambda>t. t\<lparr>commandWriteCount := commandWriteCount t + 1\<rparr>) s) of
              (Inl e, s) \<Rightarrow> (Inl e, s)
            | (Inr _, s) \<Rightarrow> (Inr (), s))
      else (Inl (PlainError ''No active session''), s))"

subsection \<open>What a run does\<close>

fun performed_by :: "effect \<Rightarrow> command list" where
  "performed_by (DoPerform a c) = [c]"
| "performed_by _ = []"

definition performed :: "effect list \<Rightarrow> command list" where
  "performed es = concat (map performed_by es)"

fun published_by :: "effect \<Rightarrow> parsed_field_map list" where
  "published_by (DoPublish m) = [m]"
| "published_by _ = []"

definition published :: "effect list \<Rightarrow> parsed_field_map list" where
  "published es = concat (map published_by es)"

lemma performed_simps [simp]:
  "performed [] = []" "performed (x # es) = performed_by x @ performed es"
  "performed (es @ es') = performed es @ performed es'"
  by (simp_all add: performed_def)

lemma published_simps [simp]:
  "published [] = []" "published (x # es) = published_by x @ published es"
  "published (es @ es') = published es @ published es'"
  by (simp_all add: published_def)

lemma emit_simps [simp]:
  "effects (emit x s) = effects s @ [x]" "telemetry (emit x s) = telemetry s"
  "effects (update_telemetry f s) = effects s" "telemetry (update_telemetry f s) = f (telemetry s)"
  "tick (emit x s) = Suc (tick s)" "tick (update_telemetry f s) = tick s"
  by (simp_all add: emit_def update_telemetry_def tick_def)

lemma classify_unclassified: "classify_error e = Some r \<Longrightarrow> r \<noteq> Ok"
  by (cases e) auto

lemmas interaction_defs = perform_command_def publish_def read_clock_def do_sleep_def stop_requested_def

text \<open>The log only grows; a read performs its command once, when there is a session.\<close>

lemma read_work_effects:
  assumes "read_work w a dev c s = (r, s')"
  shows "\<exists>es. effects s' = effects s @ es \<and>
      performed es = (if o_session w (tick s) then [c] else []) \<and>
      (\<not> o_session w (tick s) \<longrightarrow> r = Inl (PlainError ''No active session''))"
  using assms
  by (auto simp: read_work_def session_perform_def interaction_defs
      split: sum.splits if_splits)

lemma read_work_telemetry:
  assumes "read_work w a dev c s = (r, s')"
  shows "\<exists>k. telemetry s' = (telemetry s)\<lparr>parserPublishCount := parserPublishCount (telemetry s) + k\<rparr>"
  using assms
  by (auto simp: read_work_def session_perform_def interaction_defs
      split: sum.splits if_splits intro: exI [of _ 0] exI [of _ 1])

lemma execute_effects:
  assumes "executeReadCommand w a dev c s = (r, s')"
  shows "\<exists>es. effects s' = effects s @ es \<and>
      performed es = (if o_session w (Suc (tick s)) then [c] else []) \<and>
      (\<not> o_session w (Suc (tick s)) \<longrightarrow> r = Inl (PlainError ''No active session''))"
proof -
  obtain rw sw where work: "read_work w a dev c (emit DoClock s) = (rw, sw)" by (metis surj_pair)
  from read_work_effects [OF work] assms work show ?thesis
    by (auto simp: executeReadCommand_def read_caught_def interaction_defs
        split: sum.splits option.splits command_result.splits)
qed

lemma execute_outcome:
  "fst (executeReadCommand w a dev c s) =
     (case fst (read_work w a dev c (emit DoClock s)) of
        Inr _ \<Rightarrow> Inr Ok
      | Inl e \<Rightarrow> (case classify_error e of Some k \<Rightarrow> Inr k | None \<Rightarrow> Inl e))"
  by (auto simp: executeReadCommand_def read_caught_def interaction_defs
      split: sum.splits option.splits command_result.splits prod.splits)

lemma execute_unclassified:
  "fst (executeReadCommand w a dev c s) = Inl e \<Longrightarrow> classify_error e = None"
  by (auto simp: execute_outcome split: sum.splits option.splits)

lemma execute_counts:
  assumes "executeReadCommand w a dev c s = (r, s')"
  shows "successfulCommandCount (telemetry s') =
      successfulCommandCount (telemetry s) + (if r = Inr Ok then 1 else 0)"
    and "expectedErrorCount (telemetry s') =
      expectedErrorCount (telemetry s) + (if r = Inr ExpectedError \<or> r = Inr ConnectionError then 1 else 0)"
    and "busyErrorCount (telemetry s') = busyErrorCount (telemetry s)"
    and "\<exists>t0 t1. totalCommandDurationMs (telemetry s') = totalCommandDurationMs (telemetry s) + (t1 - t0) \<and>
      maxCommandDurationMs (telemetry s') = max (maxCommandDurationMs (telemetry s)) (t1 - t0)"
proof -
  obtain rw sw where work: "read_work w a dev c (emit DoClock s) = (rw, sw)" by (metis surj_pair)
  obtain k where k: "telemetry sw = (telemetry s)\<lparr>parserPublishCount := parserPublishCount (telemetry s) + k\<rparr>"
    using read_work_telemetry [OF work] by auto
  note d = executeReadCommand_def read_caught_def interaction_defs
  show "successfulCommandCount (telemetry s') =
      successfulCommandCount (telemetry s) + (if r = Inr Ok then 1 else 0)"
    using assms work k
    by (auto simp: d split: sum.splits option.splits command_result.splits dest: classify_unclassified)
  show "expectedErrorCount (telemetry s') =
      expectedErrorCount (telemetry s) + (if r = Inr ExpectedError \<or> r = Inr ConnectionError then 1 else 0)"
    using assms work k
    by (auto simp: d split: sum.splits option.splits command_result.splits dest: classify_unclassified)
  show "busyErrorCount (telemetry s') = busyErrorCount (telemetry s)"
    using assms work k
    by (auto simp: d split: sum.splits option.splits command_result.splits)
  show "\<exists>t0 t1. totalCommandDurationMs (telemetry s') = totalCommandDurationMs (telemetry s) + (t1 - t0) \<and>
      maxCommandDurationMs (telemetry s') = max (maxCommandDurationMs (telemetry s)) (t1 - t0)"
    using assms work k
    by (auto simp: d split: sum.splits option.splits command_result.splits)
      (rule exI, rule exI, rule conjI, rule refl, rule refl)+
qed

subsection \<open>Command sets run in order\<close>

definition never_stopped :: "surroundings \<Rightarrow> bool" where
  "never_stopped w \<longleftrightarrow> (\<forall>n. \<not> o_stop w n)"

text \<open>The result, the commands performed and the counters of a run agree.\<close>

definition run_accounted :: "run_state \<Rightarrow> run_state \<Rightarrow> nat \<Rightarrow> command_result \<Rightarrow> bool" where
  "run_accounted s s' k r \<longleftrightarrow>
     successfulCommandCount (telemetry s') + expectedErrorCount (telemetry s') + (if r = Busy then 1 else 0) =
       successfulCommandCount (telemetry s) + expectedErrorCount (telemetry s) + k \<and>
     (r = Ok \<longrightarrow> expectedErrorCount (telemetry s') = expectedErrorCount (telemetry s)) \<and>
     (r = ExpectedError \<or> r = ConnectionError \<longrightarrow>
        expectedErrorCount (telemetry s) < expectedErrorCount (telemetry s'))"

lemma command_set_loop_run:
  assumes "command_set_loop w a dev cs delay saw s = (r, s')"
  shows "\<exists>es k. effects s' = effects s @ es \<and> k \<le> length cs \<and> performed es = take k cs \<and>
      expectedErrorCount (telemetry s) \<le> expectedErrorCount (telemetry s') \<and>
      (\<forall>x. r = Inr x \<longrightarrow>
         (x = Ok \<or> x = ExpectedError \<longrightarrow> never_stopped w \<longrightarrow> k = length cs) \<and>
         (x = Busy \<or> x = ConnectionError \<longrightarrow> 0 < k) \<and>
         successfulCommandCount (telemetry s') + expectedErrorCount (telemetry s') + (if x = Busy then 1 else 0) =
           successfulCommandCount (telemetry s) + expectedErrorCount (telemetry s) + k \<and>
         (x = Ok \<longrightarrow> \<not> saw \<and> expectedErrorCount (telemetry s') = expectedErrorCount (telemetry s)) \<and>
         (x = ExpectedError \<longrightarrow> saw \<or> expectedErrorCount (telemetry s) < expectedErrorCount (telemetry s')) \<and>
         (x = ConnectionError \<longrightarrow> expectedErrorCount (telemetry s) < expectedErrorCount (telemetry s'))) \<and>
      (\<forall>e. r = Inl e \<longrightarrow> classify_error e = None)"
  using assms
proof (induction cs arbitrary: saw s)
  case Nil
  then show ?case by (auto split: if_splits)
next
  case (Cons c rest)
  show ?case
  proof (cases "stop_requested w s")
    case True
    then have "\<not> never_stopped w" by (auto simp: never_stopped_def stop_requested_def)
    with True Cons.prems show ?thesis by (auto split: if_splits)
  next
    case running: False
    obtain r1 s1 where ex: "executeReadCommand w a dev c s = (r1, s1)" by (metis surj_pair)
    from execute_effects [OF ex] obtain es1 where es1: "effects s1 = effects s @ es1"
        "performed es1 = (if o_session w (Suc (tick s)) then [c] else [])"
        "\<not> o_session w (Suc (tick s)) \<longrightarrow> r1 = Inl (PlainError ''No active session'')" by blast
    have uncl: "r1 = Inl e \<Longrightarrow> classify_error e = None" for e
      using execute_unclassified [of w a dev c s e] ex by simp
    note n1 = execute_counts(1, 2) [OF ex]
    show ?thesis
    proof (cases "\<exists>x. r1 = Inr x \<and> x \<noteq> Busy \<and> x \<noteq> ConnectionError")
      case False
      then have "(r, s') = (r1, s1)" using Cons.prems running ex by (cases r1) auto
      then show ?thesis
        using False es1 n1 uncl
        by (intro exI [of _ es1] exI [of _ "if o_session w (Suc (tick s)) then 1 else 0"])
           (cases r1, auto)
    next
      case True
      then obtain x where x: "r1 = Inr x" "x = Ok \<or> x = ExpectedError" by (cases r1) (auto, metis command_result.exhaust)
      let ?s2 = "if rest \<noteq> [] \<and> 0 < delay then do_sleep delay s1 else s1"
      have step: "command_set_loop w a dev rest delay (saw \<or> x = ExpectedError) ?s2 = (r, s')"
        using Cons.prems running ex x by auto
      have s2: "telemetry ?s2 = telemetry s1" "\<exists>es2. effects ?s2 = effects s1 @ es2 \<and> performed es2 = []"
        by (simp_all add: do_sleep_def)
      from Cons.IH [OF step] obtain es k where k: "effects s' = effects ?s2 @ es" "k \<le> length rest"
          "performed es = take k rest"
          "expectedErrorCount (telemetry ?s2) \<le> expectedErrorCount (telemetry s')"
        and kr: "\<forall>y. r = Inr y \<longrightarrow>
         (y = Ok \<or> y = ExpectedError \<longrightarrow> never_stopped w \<longrightarrow> k = length rest) \<and>
         (y = Busy \<or> y = ConnectionError \<longrightarrow> 0 < k) \<and>
         successfulCommandCount (telemetry s') + expectedErrorCount (telemetry s') + (if y = Busy then 1 else 0) =
           successfulCommandCount (telemetry ?s2) + expectedErrorCount (telemetry ?s2) + k \<and>
         (y = Ok \<longrightarrow> \<not> (saw \<or> x = ExpectedError) \<and> expectedErrorCount (telemetry s') = expectedErrorCount (telemetry ?s2)) \<and>
         (y = ExpectedError \<longrightarrow> (saw \<or> x = ExpectedError) \<or> expectedErrorCount (telemetry ?s2) < expectedErrorCount (telemetry s')) \<and>
         (y = ConnectionError \<longrightarrow> expectedErrorCount (telemetry ?s2) < expectedErrorCount (telemetry s'))"
          "\<forall>e. r = Inl e \<longrightarrow> classify_error e = None"
        by (elim exE conjE) (rule that)
      from s2(2) obtain es2 where es2: "effects ?s2 = effects s1 @ es2" "performed es2 = []" by blast
      have sess: "o_session w (Suc (tick s))" using es1(3) x by auto
      have eff: "effects s' = effects s @ (es1 @ es2 @ es)" "performed (es1 @ es2 @ es) = take (Suc k) (c # rest)"
        using k es1 es2 sess by simp_all
      have cnt: "successfulCommandCount (telemetry ?s2) + expectedErrorCount (telemetry ?s2) =
          Suc (successfulCommandCount (telemetry s) + expectedErrorCount (telemetry s))"
        "expectedErrorCount (telemetry ?s2) = expectedErrorCount (telemetry s) + (if x = ExpectedError then 1 else 0)"
        using n1 x s2(1) by auto
      show ?thesis
        using eff k(2,4) kr cnt x(2)
        by (intro exI [of _ "es1 @ es2 @ es"] exI [of _ "Suc k"]) (auto split: if_splits)
    qed
  qed
qed

lemma runCommandSet_run:
  assumes "runCommandSet w a dev cs ps s = (r, s')"
  shows "\<exists>es k. effects s' = effects s @ es \<and> k \<le> length cs \<and> performed es = take k cs \<and>
      (\<forall>x. r = Inr x \<longrightarrow> run_accounted s s' k x \<and>
         (x = Ok \<or> x = ExpectedError \<longrightarrow> never_stopped w \<longrightarrow> k = length cs) \<and>
         (x = Busy \<or> x = ConnectionError \<longrightarrow> 0 < k)) \<and>
      (\<forall>e. r = Inl e \<longrightarrow> classify_error e = None)"
proof (cases "cs = []")
  case True
  with assms show ?thesis by (auto simp: runCommandSet_def run_accounted_def)
next
  case False
  with assms have "command_set_loop w a dev cs (commandDelayMs ps) False s = (r, s')"
    by (simp add: runCommandSet_def)
  from command_set_loop_run [OF this] show ?thesis
    unfolding run_accounted_def by (elim exE conjE, intro exI conjI) (assumption | blast)+
qed

subsection \<open>Packs are polled in order\<close>

text \<open>
  Surroundings in which nothing goes wrong: the sessions are there, each command gets an answer
  it accepts, listeners do not throw and no stop is requested.
\<close>

definition all_well :: "surroundings \<Rightarrow> bool" where
  "all_well w \<longleftrightarrow> never_stopped w \<and>
     (\<forall>n. o_session w n \<and> o_publish w n = Inr () \<and>
        (\<forall>c. \<exists>resp. o_perform w n c = Inr resp \<and> (is_read c \<longrightarrow> isValidResponse c resp)))"

lemma read_ok:
  assumes d: "d \<in> set BLUETTI_DEFINITIONS" and c: "c \<in> set (all_commands d)" and w: "all_well w"
  shows "\<exists>s' es. executeReadCommand w a (new_BluettiDeviceModel ad sn d) c s = (Inr Ok, s') \<and>
      effects s' = effects s @ es \<and> performed es = [c]"
proof -
  have "is_read c" using table_entry(1) [OF d] c by (simp add: list_all_iff)
  then obtain resp where resp: "o_perform w (Suc (tick s)) c = Inr resp" "isValidResponse c resp"
    using w unfolding all_well_def by blast
  then obtain m where "struct_parse (def_buildStruct d) (startingAddress c) (parseResponse c resp) = Inr m"
    using window_decodes [OF d c resp(2)] by blast
  then have "fst (executeReadCommand w a (new_BluettiDeviceModel ad sn d) c s) = Inr Ok"
    using w resp
    by (simp add: execute_outcome read_work_def session_perform_def interaction_defs device_parse_def all_well_def)
  then obtain s' where ex: "executeReadCommand w a (new_BluettiDeviceModel ad sn d) c s = (Inr Ok, s')"
    by (metis prod.collapse)
  with execute_effects [OF ex] w show ?thesis by (auto simp: all_well_def)
qed

lemma loop_ok:
  assumes d: "d \<in> set BLUETTI_DEFINITIONS" and w: "all_well w"
  shows "set cs \<subseteq> set (all_commands d) \<Longrightarrow>
    \<exists>s' es. command_set_loop w a (new_BluettiDeviceModel ad sn d) cs delay False s = (Inr Ok, s') \<and>
      effects s' = effects s @ es \<and> performed es = cs"
proof (induction cs arbitrary: s)
  case Nil
  show ?case by simp
next
  case (Cons c rest)
  have c: "c \<in> set (all_commands d)" using Cons.prems by simp
  obtain s1 es1 where s1: "executeReadCommand w a (new_BluettiDeviceModel ad sn d) c s = (Inr Ok, s1)"
      "effects s1 = effects s @ es1" "performed es1 = [c]"
    using read_ok [OF d c w] by blast
  let ?s2 = "if rest \<noteq> [] \<and> 0 < delay then do_sleep delay s1 else s1"
  obtain es2 where es2: "effects ?s2 = effects s1 @ es2" "performed es2 = []"
    by (cases "rest \<noteq> [] \<and> 0 < delay") (simp_all add: do_sleep_def)
  obtain s' es where rec: "command_set_loop w a (new_BluettiDeviceModel ad sn d) rest delay False ?s2 = (Inr Ok, s')"
      "effects s' = effects ?s2 @ es" "performed es = rest"
    using Cons by (metis set_subset_Cons subset_trans)
  have "\<not> stop_requested w s" using w by (simp add: all_well_def never_stopped_def stop_requested_def)
  then show ?case
    using s1 es2 rec by (intro exI [of _ s'] exI [of _ "es1 @ es2 @ es"]) simp
qed

lemma set_ok:
  assumes "d \<in> set BLUETTI_DEFINITIONS" and "all_well w" and "set cs \<subseteq> set (all_commands d)"
  shows "\<exists>s' es. runCommandSet w a (new_BluettiDeviceModel ad sn d) cs ps s = (Inr Ok, s') \<and>
      effects s' = effects s @ es \<and> performed es = cs"
  using loop_ok [OF assms] by (cases "cs = []") (simp_all add: runCommandSet_def)

text \<open>The products with several packs select one by writing register 3006.\<close>

definition select_pack :: "nat \<Rightarrow> command" where
  "select_pack p = WriteSingleRegister 3006 p (write_frame 3006 p)"

lemma table_packs:
  "list_all (\<lambda>d. def_packNumMax d \<le> 1 \<or> def_packNumMax d \<le> 6 \<and>
      find (\<lambda>f. field_name f = ''pack_num'' \<and> isAddressWritable (field_address f)
          (case def_writableRanges d of None \<Rightarrow> [] | Some rs \<Rightarrow> rs)) (def_buildStruct d) =
        Some (UintField ''pack_num'' 3006 None)) BLUETTI_DEFINITIONS"
  by (simp add: definition_defs isAddressWritable_def struct_defs struct_builder_defs)

lemma pack_setter:
  assumes "d \<in> set BLUETTI_DEFINITIONS" and "1 < def_packNumMax d" and "p \<le> def_packNumMax d"
  shows "hasFieldSetter (new_BluettiDeviceModel ad sn d) ''pack_num''"
    and "buildSetterCommand (new_BluettiDeviceModel ad sn d) ''pack_num'' (SetNum (Fin (of_nat p))) =
      Inr (select_pack p)"
proof -
  have f: "def_packNumMax d \<le> 6" "find (\<lambda>f. field_name f = ''pack_num'' \<and> isAddressWritable (field_address f)
          (writableRanges (new_BluettiDeviceModel ad sn d))) (def_buildStruct d) =
        Some (UintField ''pack_num'' 3006 None)"
    using assms table_packs by (auto simp: list_all_iff writableRanges_def new_BluettiDeviceModel_def)
  then show "buildSetterCommand (new_BluettiDeviceModel ad sn d) ''pack_num'' (SetNum (Fin (of_nat p))) =
      Inr (select_pack p)"
    using assms(3) new_WriteSingleRegister_ok [of 3006 p] by (simp add: buildSetterCommand_def select_pack_def)
  from f(2) show "hasFieldSetter (new_BluettiDeviceModel ad sn d) ''pack_num''"
    by (auto simp: hasFieldSetter_def list_ex_iff find_Some_iff)
qed

definition pack_commands :: "device_definition \<Rightarrow> nat \<Rightarrow> command list" where
  "pack_commands d p = (if 1 < def_packNumMax d then [select_pack p] else []) @
     (case def_packPollingCommands d of None \<Rightarrow> [] | Some cs \<Rightarrow> cs)"

lemma packs_ok:
  assumes d: "d \<in> set BLUETTI_DEFINITIONS" and w: "all_well w"
  shows "list_all (\<lambda>p. p \<le> def_packNumMax d) packs \<Longrightarrow>
    \<exists>s' es. pack_loop w a (new_BluettiDeviceModel ad sn d) packs ps s = (Inr Ok, s') \<and>
      effects s' = effects s @ es \<and> performed es = concat (map (pack_commands d) packs)"
proof (induction packs arbitrary: s)
  case Nil
  show ?case by simp
next
  case (Cons p rest)
  let ?dev = "new_BluettiDeviceModel ad sn d"
  have p: "p \<le> def_packNumMax d" using Cons.prems by simp
  have run: "\<not> stop_requested w s" using w by (simp add: all_well_def never_stopped_def stop_requested_def)
  have max_eq: "packNumMax ?dev = def_packNumMax d" by (simp add: packNumMax_def new_BluettiDeviceModel_def)
  have pc: "packPollingCommands ?dev = (case def_packPollingCommands d of None \<Rightarrow> [] | Some cs \<Rightarrow> cs)"
    by (simp add: packPollingCommands_def new_BluettiDeviceModel_def)
  have switch: "\<exists>s1 es1. (if 1 < packNumMax ?dev \<and> hasFieldSetter ?dev ''pack_num''
        then trySelectPack w a ?dev p ps s else (Inr Ok, s)) = (Inr Ok, s1) \<and>
      effects s1 = effects s @ es1 \<and> performed es1 = (if 1 < def_packNumMax d then [select_pack p] else [])"
  proof (cases "1 < def_packNumMax d")
    case True
    obtain resp where "o_perform w (tick s) (select_pack p) = Inr resp" using w by (auto simp: all_well_def)
    then show ?thesis
      using True w pack_setter [OF d True p, of ad sn]
      by (simp add: max_eq trySelectPack_def session_perform_def interaction_defs all_well_def)
  qed (simp add: max_eq)
  then obtain s1 es1 where s1: "(if 1 < packNumMax ?dev \<and> hasFieldSetter ?dev ''pack_num''
        then trySelectPack w a ?dev p ps s else (Inr Ok, s)) = (Inr Ok, s1)"
      "effects s1 = effects s @ es1" "performed es1 = (if 1 < def_packNumMax d then [select_pack p] else [])"
    by blast
  have "set (packPollingCommands ?dev) \<subseteq> set (all_commands d)"
    by (auto simp: pc all_commands_def split: option.splits)
  from set_ok [OF d w this] obtain s2 es2 where s2: "runCommandSet w a ?dev (packPollingCommands ?dev) ps s1 = (Inr Ok, s2)"
      "effects s2 = effects s1 @ es2" "performed es2 = packPollingCommands ?dev" by blast
  obtain s' es where rec: "pack_loop w a ?dev rest ps s2 = (Inr Ok, s')" "effects s' = effects s2 @ es"
      "performed es = concat (map (pack_commands d) rest)" using Cons by fastforce
  have "pack_loop w a ?dev (p # rest) ps s = (Inr Ok, s')"
    by (simp only: pack_loop.simps run s1(1) s2(1) rec(1) Let_def if_False prod.case sum.case
        command_result.case)
  then show ?case
    using s1 s2 rec by (intro exI [of _ s'] exI [of _ "es1 @ es2 @ es"]) (simp add: pack_commands_def [of d p] pc del: pack_loop.simps)
qed

lemma all_well_packs:
  assumes "d \<in> set BLUETTI_DEFINITIONS" and "all_well w"
  shows "\<exists>s' es. runPackCommands w a (new_BluettiDeviceModel ad sn d) ps s = (Inr Ok, s') \<and>
    effects s' = effects s @ es \<and>
    performed es = (if packPollingCommands (new_BluettiDeviceModel ad sn d) = [] then []
      else concat (map (pack_commands d) [1..<Suc (def_packNumMax d)]))"
proof -
  have "list_all (\<lambda>p. p \<le> def_packNumMax d) [1..<Suc (def_packNumMax d)]" by (auto simp: list_all_iff)
  from packs_ok [OF assms this] show ?thesis
    by (simp add: runPackCommands_def packNumMax_def new_BluettiDeviceModel_def del: upt_Suc)
qed

text \<open>What the pack phase can return.\<close>

lemma pack_loop_result:
  "pack_loop w a dev packs ps s = (Inr r, s') \<Longrightarrow> r \<noteq> ExpectedError \<and>
     (r = ConnectionError \<longrightarrow> 1 < packNumMax dev \<and> hasFieldSetter dev ''pack_num'')"
  by (induction packs arbitrary: s)
     (auto simp: Let_def split: if_splits prod.splits sum.splits command_result.splits)

subsection \<open>Sample surroundings\<close>

definition lost_world :: surroundings where
  "lost_world = \<lparr>o_session = \<lambda>n. True, o_perform = \<lambda>n c. Inl (BadConnectionError ''lost''),
     o_publish = \<lambda>n. Inr (), o_clock = \<lambda>n. int n, o_reconnect = \<lambda>n. Inl (BadConnectionError ''lost''),
     o_connectAll = \<lambda>n. Inr (), o_stop = \<lambda>n. False\<rparr>"

definition fresh_run :: run_state where
  "fresh_run = \<lparr>effects = [], telemetry = createDeviceTelemetry\<rparr>"

definition sample_schedule :: polling_state where
  "sample_schedule = createDevicePollingState DEFAULT_POLLING_OPTIONS"

lemmas lost_eval = lost_world_def fresh_run_def executeReadCommand_def read_work_def read_caught_def
  session_perform_def interaction_defs tick_def emit_def update_telemetry_def

text \<open>A device that answers every read with zeros.\<close>

fun zero_answer :: "command \<Rightarrow> bytes" where
  "zero_answer (ReadHoldingRegisters a q f) = appendModbusCrc ([1, 3, of_nat (2 * q)] @ replicate (2 * q) 0)"
| "zero_answer _ = []"

definition well_world :: surroundings where
  "well_world = \<lparr>o_session = \<lambda>n. True, o_perform = \<lambda>n c. Inr (zero_answer c),
     o_publish = \<lambda>n. Inr (), o_clock = \<lambda>n. int n, o_reconnect = \<lambda>n. Inr (),
     o_connectAll = \<lambda>n. Inr (), o_stop = \<lambda>n. False\<rparr>"

lemma zero_answer_valid: "is_read c \<Longrightarrow> isValidResponse c (zero_answer c)"
proof (elim is_read_cases)
  fix a q assume c: "c = ReadHoldingRegisters a q (read_frame a q)" "1 \<le> q" "q \<le> 125"
  have "\<exists>p. length p = 2 * q \<and> zero_answer c = appendModbusCrc ([1, 3, of_nat (2 * q)] @ p)"
    by (rule exI [of _ "replicate (2 * q) 0"]) (simp add: c(1))
  then show "isValidResponse c (zero_answer c)" unfolding c(1) by (rule read_valid_iff [THEN iffD2, OF c(2,3)])
qed

lemma well_world_well: "all_well well_world"
  by (auto simp: all_well_def well_world_def never_stopped_def zero_answer_valid)

subsection \<open>Properties\<close>



text \<open>
  C23: a command set runs in order: what is performed is a prefix of the set; unless a stop is
  requested the whole set runs when the result is a success or an expected error, and the only
  other ends are a busy device, a lost connection (both at the command just performed) and an
  error the code does not classify; and the counters account for every command performed, with
  an expected error reported exactly when one was counted.
\<close>

theorem command_set_in_order:
  assumes "runCommandSet w a dev cs ps s = (r, s')"
  shows "\<exists>es k. effects s' = effects s @ es \<and> k \<le> length cs \<and> performed es = take k cs \<and>
    (\<forall>x. r = Inr x \<longrightarrow> run_accounted s s' k x \<and>
       (x = Ok \<or> x = ExpectedError \<longrightarrow> never_stopped w \<longrightarrow> k = length cs) \<and>
       (x = Busy \<or> x = ConnectionError \<longrightarrow> 0 < k)) \<and>
    (\<forall>e. r = Inl e \<longrightarrow> classify_error e = None)"
  by (rule runCommandSet_run [OF assms])

theorem command_set_in_order_witness:
  "fst (runCommandSet lost_world ''A'' (new_BluettiDeviceModel [] [] EB3A_definition) [read_window 10 40, read_window 70 21] sample_schedule fresh_run) = Inr ConnectionError \<and>
   (\<exists>k es. effects (snd (runCommandSet lost_world ''A'' (new_BluettiDeviceModel [] [] EB3A_definition) [read_window 10 40, read_window 70 21] sample_schedule fresh_run)) =
       effects fresh_run @ es \<and> 0 < k \<and> performed es = take k [read_window 10 40, read_window 70 21])"
proof -
  let ?run = "runCommandSet lost_world ''A'' (new_BluettiDeviceModel [] [] EB3A_definition) [read_window 10 40, read_window 70 21] sample_schedule fresh_run"
  have r: "fst ?run = Inr ConnectionError" by (simp add: runCommandSet_def lost_eval)
  then have "?run = (Inr ConnectionError, snd ?run)" by (metis prod.collapse)
  from command_set_in_order [OF this] r show ?thesis by fastforce
qed

text \<open>
  C24: when nothing goes wrong, the pack phase of a product reads every battery pack, in
  order, each after the write that selects it (on products with one pack nothing is selected),
  and succeeds.
\<close>

theorem packs_in_order:
  assumes "d \<in> set BLUETTI_DEFINITIONS" and "all_well w"
  shows "\<exists>s' es. runPackCommands w a (new_BluettiDeviceModel ad sn d) ps s = (Inr Ok, s') \<and>
    effects s' = effects s @ es \<and>
    performed es = (if packPollingCommands (new_BluettiDeviceModel ad sn d) = [] then []
      else concat (map (pack_commands d) [1..<Suc (def_packNumMax d)]))"
  by (rule all_well_packs [OF assms])

theorem packs_in_order_witness:
  "\<exists>s'. runPackCommands well_world ''A'' (new_BluettiDeviceModel [] [] AC200M_definition) sample_schedule fresh_run = (Inr Ok, s') \<and>
     performed (effects s') = [select_pack 1, read_window 91 37, select_pack 2, read_window 91 37,
       select_pack 3, read_window 91 37]"
proof -
  have "AC200M_definition \<in> set BLUETTI_DEFINITIONS" by (simp add: BLUETTI_DEFINITIONS_def)
  from packs_in_order [OF this well_world_well, of "''A''" "[]" "[]" sample_schedule fresh_run] show ?thesis
    by (auto simp: fresh_run_def pack_commands_def AC200M_definition_def packPollingCommands_def
        new_BluettiDeviceModel_def upt_rec numeral_2_eq_2 numeral_3_eq_3)
qed

text \<open>
  A lost connection in the pack phase: a failed pack selection reports it, and so the
  polling loop reconnects; but the outcome of the pack reads themselves is dropped unless the
  device is busy, so on a product with a single pack the phase reports success although the
  connection is gone.
\<close>

theorem pack_phase_connection_loss:
  assumes "runPackCommands w a dev ps s = (Inr r, s')"
  shows "r \<noteq> ExpectedError \<and>
    (r = ConnectionError \<longrightarrow> 1 < packNumMax dev \<and> hasFieldSetter dev ''pack_num'')"
  using assms pack_loop_result by (auto simp: runPackCommands_def split: if_splits)

theorem pack_phase_connection_loss_witness:
  "\<exists>s'. runPackCommands lost_world ''A'' (new_BluettiDeviceModel [] [] EP500P_definition) sample_schedule fresh_run = (Inr Ok, s') \<and>
     expectedErrorCount (telemetry s') = 1"
proof -
  let ?dev = "new_BluettiDeviceModel [] [] EP500P_definition"
  let ?run = "runPackCommands lost_world ''A'' ?dev sample_schedule fresh_run"
  have dev: "packNumMax ?dev = 1" "packPollingCommands ?dev = [read_window 91 37]"
    by (simp_all add: packNumMax_def packPollingCommands_def new_BluettiDeviceModel_def EP500P_definition_def)
  have "?run = (fst ?run, snd ?run) \<and> (\<exists>x. fst ?run = Inr x) \<and> expectedErrorCount (telemetry (snd ?run)) = 1"
    by (simp add: runPackCommands_def dev runCommandSet_def lost_eval createDeviceTelemetry_def)
  then obtain x where x: "?run = (Inr x, snd ?run)" "expectedErrorCount (telemetry (snd ?run)) = 1"
    by metis
  have "x \<noteq> Busy" using x by (simp add: runPackCommands_def dev runCommandSet_def lost_eval)
  moreover have "x \<noteq> ExpectedError \<and> x \<noteq> ConnectionError"
    using pack_phase_connection_loss [OF x(1)] dev(1) by simp
  ultimately have "x = Ok" by (cases x) auto
  with x show ?thesis by blast
qed

end
