(* ===== verification/Handler.thy ===== *)
theory Handler
  imports Executor Registry
begin

text \<open>
  The polling loops (\<open>app/device-handler.ts\<close>, \<open>app/device-connection.ts\<close>): registration of the
  devices, one iteration of a device's loop with its branches, and the loop itself. Each address
  has its own loop, which shares nothing with the others but the surroundings, so the model runs
  them separately. The loops may run forever in the code; here they take fuel, \<open>None\<close> meaning
  that it ran out, and \<open>polling_stops\<close> shows how much is enough once a stop is requested.
\<close>

subsection \<open>Connecting\<close>

fun is_bad_connection :: "js_error \<Rightarrow> bool" where
  "is_bad_connection (BadConnectionError m) = True"
| "is_bad_connection _ = False"

text \<open>The loop of \<open>connectAllWithRecovery\<close>, over any way of connecting.\<close>

fun connectAllWithRecovery ::
  "nat \<Rightarrow> surroundings \<Rightarrow> bool \<Rightarrow> ('h \<times> run_state \<Rightarrow> unit result \<times> 'h \<times> run_state) \<Rightarrow>
     'h \<times> run_state \<Rightarrow> (bool result \<times> 'h \<times> run_state) option" where
  "connectAllWithRecovery 0 w runOnce connectAll (h, s) = None"
| "connectAllWithRecovery (Suc fuel) w runOnce connectAll (h, s) =
     (if stop_requested w s then Some (Inr False, h, s)
      else (case connectAll (h, s) of
              (Inr _, h, s) \<Rightarrow> Some (Inr True, h, s)
            | (Inl e, h, s) \<Rightarrow>
                (if runOnce \<or> \<not> is_bad_connection e then Some (Inl e, h, s)
                 else connectAllWithRecovery fuel w runOnce connectAll
                        (h, do_sleep STARTUP_RETRY_DELAY_MS
                              (emit (DoLog ''Bluetooth startup failed; retrying'') s)))))"

definition perform_reconnect :: "surroundings \<Rightarrow> string \<Rightarrow> run_state \<Rightarrow> unit result \<times> run_state" where
  "perform_reconnect w address s = (o_reconnect w (tick s), emit (DoReconnect address) s)"

fun reconnect_loop :: "nat \<Rightarrow> surroundings \<Rightarrow> string \<Rightarrow> run_state \<Rightarrow> (bool \<times> run_state) option" where
  "reconnect_loop 0 w address s = None"
| "reconnect_loop (Suc fuel) w address s =
     (if stop_requested w s then Some (False, s)
      else (case perform_reconnect w address s of
              (Inr _, s) \<Rightarrow> Some (True, emit (DoLog ''Bluetooth connection recovered'') s)
            | (Inl e, s) \<Rightarrow>
                reconnect_loop fuel w address
                  (do_sleep STARTUP_RETRY_DELAY_MS
                    (emit (DoLog ''Bluetooth reconnect failed; retrying'') s))))"

definition recoverDeviceConnection ::
  "nat \<Rightarrow> surroundings \<Rightarrow> string \<Rightarrow> run_state \<Rightarrow> (bool \<times> run_state) option" where
  "recoverDeviceConnection fuel w address s =
     reconnect_loop fuel w address (emit (DoLog ''Bluetooth connection lost; reconnecting'') s)"

subsection \<open>Rate-limited logging\<close>

definition maybeLogTelemetrySummary :: "surroundings \<Rightarrow> run_state \<Rightarrow> run_state" where
  "maybeLogTelemetrySummary w s =
     (case read_clock w s of (now, s) \<Rightarrow>
        (if now - lastSummaryAtMs (telemetry s) < TELEMETRY_SUMMARY_INTERVAL_MS then s
         else (let s = update_telemetry (\<lambda>t. t\<lparr>lastSummaryAtMs := now\<rparr>) s
               in emit (DoSummary (summarizeTelemetry (telemetry s))) s)))"

definition maybeLogBusyWarning :: "surroundings \<Rightarrow> string \<Rightarrow> run_state \<Rightarrow> run_state" where
  "maybeLogBusyWarning w phase s =
     (case read_clock w s of (now, s) \<Rightarrow>
        (if now - lastBusyWarningAtMs (telemetry s) < BUSY_WARNING_INTERVAL_MS
         then update_telemetry
                (\<lambda>t. t\<lparr>suppressedBusyWarningCount := suppressedBusyWarningCount t + 1\<rparr>) s
         else emit (DoBusyWarning phase (suppressedBusyWarningCount (telemetry s)))
                (update_telemetry
                  (\<lambda>t. t\<lparr>lastBusyWarningAtMs := now, suppressedBusyWarningCount := 0\<rparr>) s)))"

subsection \<open>One iteration of a device's loop\<close>

record poll_config =
  cfg_address :: string
  cfg_device :: bluetti_device
  cfg_options :: polling_options
  cfg_runOnce :: bool

datatype loop_next = Continue | Break

type_synonym poll_step = "loop_next result \<times> polling_state \<times> run_state"

text \<open>The branch for a lost connection, in the commands or in the pack phase.\<close>

definition connection_lost ::
  "nat \<Rightarrow> surroundings \<Rightarrow> poll_config \<Rightarrow> polling_state \<Rightarrow> run_state \<Rightarrow> poll_step option" where
  "connection_lost fuel w cfg ps s =
     (if cfg_runOnce cfg then Some (Inr Break, ps, s)
      else (case recoverDeviceConnection fuel w (cfg_address cfg) s of
              None \<Rightarrow> None
            | Some (False, s) \<Rightarrow> Some (Inr Break, ps, s)
            | Some (True, s) \<Rightarrow>
                (case read_clock w s of (nextAt, s) \<Rightarrow> Some (Inr Continue, scheduleNextPoll nextAt ps, s))))"

definition busy_backoff ::
  "surroundings \<Rightarrow> poll_config \<Rightarrow> string \<Rightarrow> polling_state \<Rightarrow> run_state \<Rightarrow> polling_state \<times> run_state" where
  "busy_backoff w cfg phase ps s =
     (let s = update_telemetry (\<lambda>t. t\<lparr>busyErrorCount := busyErrorCount t + 1\<rparr>) s
      in case read_clock w s of (now, s) \<Rightarrow>
           (applyBusyBackoff (cfg_options cfg) ps,
            maybeLogBusyWarning w phase (update_telemetry (\<lambda>t. t\<lparr>lastBusyAt := Some now\<rparr>) s)))"

text \<open>From the end of the reads to the end of the iteration.\<close>

definition complete_cycle ::
  "surroundings \<Rightarrow> poll_config \<Rightarrow> bool \<Rightarrow> int \<Rightarrow> polling_state \<Rightarrow> run_state \<Rightarrow> poll_step option" where
  "complete_cycle w cfg full startedAt ps s =
     (case read_clock w s of (completedAt, s) \<Rightarrow>
      (let duration = completedAt - startedAt;
           s = update_telemetry (\<lambda>t. t\<lparr>totalCycleDurationMs := totalCycleDurationMs t + duration,
                   maxCycleDurationMs := max (maxCycleDurationMs t) duration,
                   lastCycleCompletedAt := Some completedAt\<rparr>) s;
           s = maybeLogTelemetrySummary w (emit (DoLog ''Polling cycle completed'') s)
       in case read_clock w s of (nextAt, s) \<Rightarrow>
            Some (Inr (if cfg_runOnce cfg \<or> stop_requested w s then Break else Continue),
                  ps\<lparr>nextFastPollAt := nextAt + fastIntervalMs ps,
                     nextFullPollAt := if full then nextAt + fullIntervalMs ps else nextFullPollAt ps\<rparr>,
                  s)))"

text \<open>The reads of a cycle and what their outcome leads to.\<close>

definition cycle_commands :: "bluetti_device \<Rightarrow> bool \<Rightarrow> command list" where
  "cycle_commands dev full =
     (if full then fastPollingCommands dev @ slowPollingCommands dev else fastPollingCommands dev)"

definition begin_cycle :: "bool \<Rightarrow> int \<Rightarrow> run_state \<Rightarrow> run_state" where
  "begin_cycle full startedAt =
     update_telemetry (\<lambda>t. let t = t\<lparr>cycleCount := cycleCount t + 1, lastCycleStartedAt := Some startedAt\<rparr>
       in if full then t\<lparr>fullCycleCount := fullCycleCount t + 1\<rparr>
          else t\<lparr>fastCycleCount := fastCycleCount t + 1\<rparr>)"

definition run_cycle ::
  "nat \<Rightarrow> surroundings \<Rightarrow> poll_config \<Rightarrow> bool \<Rightarrow> polling_state \<Rightarrow> run_state \<Rightarrow> poll_step option" where
  "run_cycle fuel w cfg full ps s =
     (case read_clock w s of (startedAt, s) \<Rightarrow>
      (case runCommandSet w (cfg_address cfg) (cfg_device cfg) (cycle_commands (cfg_device cfg) full) ps
              (begin_cycle full startedAt s) of
         (Inl e, s) \<Rightarrow> Some (Inl e, ps, s)
       | (Inr r, s) \<Rightarrow>
           (if r = ConnectionError then connection_lost fuel w cfg ps s
            else if full \<and> r \<noteq> Busy
            then (case runPackCommands w (cfg_address cfg) (cfg_device cfg) ps s of
                    (Inl e, s) \<Rightarrow> Some (Inl e, ps, s)
                  | (Inr pr, s) \<Rightarrow>
                      (if pr = ConnectionError then connection_lost fuel w cfg ps s
                       else if pr = Busy
                       then (case busy_backoff w cfg ''pack polling'' ps s of
                               (ps, s) \<Rightarrow> complete_cycle w cfg full startedAt ps s)
                       else complete_cycle w cfg full startedAt
                              (recoverPollingState (cfg_options cfg) ps) s))
            else if r = Busy
            then (case busy_backoff w cfg ''polling'' ps s of
                    (ps, s) \<Rightarrow> complete_cycle w cfg full startedAt ps s)
            else complete_cycle w cfg full startedAt (recoverPollingState (cfg_options cfg) ps) s)))"

definition poll_iteration ::
  "nat \<Rightarrow> surroundings \<Rightarrow> poll_config \<Rightarrow> polling_state \<Rightarrow> run_state \<Rightarrow> poll_step option" where
  "poll_iteration fuel w cfg ps s =
     (case read_clock w s of (now, s) \<Rightarrow>
      (let full = nextFullPollAt ps \<le> now;
           fast = full \<or> nextFastPollAt ps \<le> now
       in if \<not> fast
          then Some (Inr Continue, ps,
                     do_sleep (max 0 (min (nextFastPollAt ps) (nextFullPollAt ps) - now)) s)
          else run_cycle fuel w cfg full ps s))"

fun poll_loop ::
  "nat \<Rightarrow> surroundings \<Rightarrow> poll_config \<Rightarrow> polling_state \<Rightarrow> run_state \<Rightarrow>
     (unit result \<times> polling_state \<times> run_state) option" where
  "poll_loop 0 w cfg ps s = None"
| "poll_loop (Suc fuel) w cfg ps s =
     (if stop_requested w s then Some (Inr (), ps, s)
      else (case poll_iteration fuel w cfg ps s of
              None \<Rightarrow> None
            | Some (Inl e, ps, s) \<Rightarrow> Some (Inl e, ps, s)
            | Some (Inr Break, ps, s) \<Rightarrow> Some (Inr (), ps, s)
            | Some (Inr Continue, ps, s) \<Rightarrow> poll_loop fuel w cfg ps s))"

subsection \<open>The handler\<close>

record handler =
  devices :: "(string \<times> bluetti_device) list"
  pollingStates :: "(string \<times> polling_state) list"
  telemetries :: "(string \<times> device_telemetry) list"
  commandListenerAttached :: bool
  defaultPollingOptions :: polling_options
  handler_runOnce :: bool

definition new_DeviceHandler :: "interval_or_options \<Rightarrow> bool \<Rightarrow> handler" where
  "new_DeviceHandler intervalMsOrOptions once =
     \<lparr>devices = [], pollingStates = [], telemetries = [], commandListenerAttached = False,
      defaultPollingOptions = normalizePollingOptions intervalMsOrOptions, handler_runOnce = once\<rparr>"

definition getPollingState :: "string \<Rightarrow> handler \<Rightarrow> polling_state \<times> handler" where
  "getPollingState address h =
     (case map_of (pollingStates h) address of
        Some existing \<Rightarrow> (existing, h)
      | None \<Rightarrow> (let created = createDevicePollingState (defaultPollingOptions h)
                 in (created, h\<lparr>pollingStates := obj_set address created (pollingStates h)\<rparr>)))"

definition getTelemetry :: "string \<Rightarrow> handler \<Rightarrow> device_telemetry \<times> handler" where
  "getTelemetry address h =
     (case map_of (telemetries h) address of
        Some existing \<Rightarrow> (existing, h)
      | None \<Rightarrow> (createDeviceTelemetry,
                 h\<lparr>telemetries := obj_set address createDeviceTelemetry (telemetries h)\<rparr>))"

text \<open>One round of the loop over the addresses; \<open>name_of\<close> is \<open>Manager.getName\<close>.\<close>

definition register_address :: "(string \<Rightarrow> string result) \<Rightarrow> string \<Rightarrow> handler \<Rightarrow> unit result \<times> handler" where
  "register_address name_of address h =
     (case (if map_of (devices h) address \<noteq> None then Inr h
            else rbind (name_of address) (\<lambda>name.
                 rbind (createDeviceFromAdvertisement address name) (\<lambda>dev.
                 Inr (h\<lparr>devices := obj_set address dev (devices h)\<rparr>)))) of
        Inl e \<Rightarrow> (Inl e, h)
      | Inr h \<Rightarrow> (Inr (), snd (getTelemetry address (snd (getPollingState address h)))))"

fun register_addresses :: "(string \<Rightarrow> string result) \<Rightarrow> string list \<Rightarrow> handler \<Rightarrow> unit result \<times> handler" where
  "register_addresses name_of [] h = (Inr (), h)"
| "register_addresses name_of (a # rest) h =
     (case register_address name_of a h of
        (Inl e, h) \<Rightarrow> (Inl e, h)
      | (Inr _, h) \<Rightarrow> register_addresses name_of rest h)"

definition handler_connectAll ::
  "surroundings \<Rightarrow> (string \<Rightarrow> string result) \<Rightarrow> string list \<Rightarrow> handler \<times> run_state
     \<Rightarrow> unit result \<times> handler \<times> run_state" where
  "handler_connectAll w name_of addresses hs =
     (case hs of (h, s) \<Rightarrow>
      (case (o_connectAll w (tick s), emit DoConnectAll s) of
         (Inl e, s) \<Rightarrow> (Inl e, h, s)
       | (Inr _, s) \<Rightarrow>
           (case register_addresses name_of addresses (h\<lparr>commandListenerAttached := True\<rparr>) of
              (r, h) \<Rightarrow> (r, h, s))))"

definition getDevices :: "handler \<Rightarrow> bluetti_device list" where
  "getDevices h = map snd (devices h)"

definition pollOnce :: "surroundings \<Rightarrow> string \<Rightarrow> handler \<times> run_state \<Rightarrow> unit result \<times> handler \<times> run_state" where
  "pollOnce w address hs =
     (case hs of (h, s) \<Rightarrow>
      (case map_of (devices h) address of
         None \<Rightarrow> (Inl (PlainError ''Unknown device''), h, s)
       | Some device \<Rightarrow>
           (case getPollingState address h of (ps, h) \<Rightarrow>
            (case runCommandSet w address device (pollingCommands device) ps s of
               (Inl e, s) \<Rightarrow> (Inl e, h, s)
             | (Inr _, s) \<Rightarrow> (Inr (), h, s)))))"

text \<open>The callback of \<open>run\<close> for one address, after the connection.\<close>

definition run_device ::
  "nat \<Rightarrow> surroundings \<Rightarrow> string \<Rightarrow> handler \<Rightarrow> (unit result \<times> handler \<times> effect list) option" where
  "run_device fuel w address h =
     (case map_of (devices h) address of
        None \<Rightarrow> Some (Inr (), h, [])
      | Some device \<Rightarrow>
          (case getPollingState address h of (ps, h) \<Rightarrow>
           (case getTelemetry address h of (t, h) \<Rightarrow>
            map_option (\<lambda>(r, ps, s).
                (r, h\<lparr>pollingStates := obj_set address ps (pollingStates h),
                      telemetries := obj_set address (telemetry s) (telemetries h)\<rparr>, effects s))
              (poll_loop fuel w \<lparr>cfg_address = address, cfg_device = device,
                 cfg_options = defaultPollingOptions h, cfg_runOnce = handler_runOnce h\<rparr> ps
                 \<lparr>effects = [], telemetry = t\<rparr>))))"

text \<open>
  \<open>run\<close>: connect with recovery, then the loops of all addresses, each with surroundings of its
  own; the outcomes of the loops are listed per address.
\<close>

fun run_devices ::
  "nat \<Rightarrow> (string \<Rightarrow> surroundings) \<Rightarrow> string list \<Rightarrow> handler \<Rightarrow> ((string \<times> unit result) list \<times> handler) option" where
  "run_devices fuel ws [] h = Some ([], h)"
| "run_devices fuel ws (a # rest) h =
     (case run_device fuel (ws a) a h of
        None \<Rightarrow> None
      | Some (r, h, es) \<Rightarrow> map_option (\<lambda>(rs, h). ((a, r) # rs, h)) (run_devices fuel ws rest h))"

definition handler_run ::
  "nat \<Rightarrow> surroundings \<Rightarrow> (string \<Rightarrow> surroundings) \<Rightarrow> (string \<Rightarrow> string result) \<Rightarrow> string list \<Rightarrow> handler
     \<Rightarrow> ((string \<times> unit result) list result \<times> handler) option" where
  "handler_run fuel w ws name_of addresses h =
     (case connectAllWithRecovery fuel w (handler_runOnce h) (handler_connectAll w name_of addresses)
             (h, \<lparr>effects = [], telemetry = createDeviceTelemetry\<rparr>) of
        None \<Rightarrow> None
      | Some (Inl e, h, s) \<Rightarrow> Some (Inl e, h)
      | Some (Inr was_connected, h, s) \<Rightarrow>
          (if \<not> was_connected then Some (Inr [], h)
           else map_option (\<lambda>(rs, h). (Inr rs, h)) (run_devices fuel ws addresses h)))"

subsection \<open>The log grows\<close>

definition grows :: "run_state \<Rightarrow> run_state \<Rightarrow> bool" where
  "grows s s' \<longleftrightarrow> (\<exists>es. effects s' = effects s @ es)"

named_theorems growth

lemma grows_refl [growth, simp]: "grows s s"
  by (simp add: grows_def)

lemma grows_trans [trans]: "grows s s' \<Longrightarrow> grows s' s'' \<Longrightarrow> grows s s''"
  by (auto simp: grows_def)

lemma grows_emit [growth]: "grows s s' \<Longrightarrow> grows s (emit x s')"
  by (auto simp: grows_def)

lemma grows_update [growth]: "grows s s' \<Longrightarrow> grows s (update_telemetry f s')"
  by (auto simp: grows_def)

lemma grows_tick: "grows s s' \<Longrightarrow> tick s \<le> tick s'"
  by (auto simp: grows_def tick_def)

lemma grows_set: "runCommandSet w a dev cs ps s = (r, s') \<Longrightarrow> grows s s'"
  using runCommandSet_run [of w a dev cs ps s r s'] by (auto simp: grows_def)

text \<open>What the pack phase performs: selections and pack reads.\<close>

definition pack_command :: "bluetti_device \<Rightarrow> command \<Rightarrow> bool" where
  "pack_command dev c \<longleftrightarrow> c \<in> set (packPollingCommands dev) \<or>
     (\<exists>v. buildSetterCommand dev ''pack_num'' v = Inr c)"

lemma select_effects:
  assumes "trySelectPack w a dev p ps s = (r, s')"
  shows "\<exists>es. effects s' = effects s @ es \<and> list_all (pack_command dev) (performed es)"
  using assms
  by (auto simp: trySelectPack_def session_perform_def interaction_defs pack_command_def
      split: sum.splits prod.splits if_splits)

lemma pack_loop_effects:
  "pack_loop w a dev packs ps s = (r, s') \<Longrightarrow>
   \<exists>es. effects s' = effects s @ es \<and> list_all (pack_command dev) (performed es)"
proof (induction packs arbitrary: s)
  case Nil
  then show ?case by auto
next
  case (Cons p rest)
  obtain r1 s1 where sel: "(if 1 < packNumMax dev \<and> hasFieldSetter dev ''pack_num''
      then trySelectPack w a dev p ps s else (Inr Ok, s)) = (r1, s1)" by (metis surj_pair)
  have e1: "\<exists>es. effects s1 = effects s @ es \<and> list_all (pack_command dev) (performed es)"
    using sel select_effects [of w a dev p ps s r1 s1] by (auto split: if_splits)
  obtain r2 s2 where run: "runCommandSet w a dev (packPollingCommands dev) ps s1 = (r2, s2)" by (metis surj_pair)
  have e2: "\<exists>es. effects s2 = effects s1 @ es \<and> list_all (pack_command dev) (performed es)"
    using runCommandSet_run [OF run] by (auto simp: list_all_iff pack_command_def dest: in_set_takeD)
  have step: "pack_loop w a dev (p # rest) ps s =
      (if stop_requested w s then (Inr Ok, s)
       else case r1 of Inl e \<Rightarrow> (Inl e, s1) | Inr Busy \<Rightarrow> (Inr Busy, s1) | Inr ConnectionError \<Rightarrow> (Inr ConnectionError, s1)
          | Inr ExpectedError \<Rightarrow> pack_loop w a dev rest ps s1
          | Inr Ok \<Rightarrow> (case r2 of Inl e \<Rightarrow> (Inl e, s2) | Inr Busy \<Rightarrow> (Inr Busy, s2)
               | Inr r \<Rightarrow> pack_loop w a dev rest ps s2))"
    by (simp only: pack_loop.simps Let_def sel prod.case run)
  have ends: "s' = s \<or> s' = s1 \<or> s' = s2 \<or> pack_loop w a dev rest ps s1 = (r, s') \<or> pack_loop w a dev rest ps s2 = (r, s')"
    using Cons.prems unfolding step by (auto split: if_splits sum.splits command_result.splits)
  obtain es1 es2 where "effects s1 = effects s @ es1" "list_all (pack_command dev) (performed es1)"
      "effects s2 = effects s @ es1 @ es2" "list_all (pack_command dev) (performed es2)"
    using e1 e2 by fastforce
  with ends Cons.IH [of s1] Cons.IH [of s2] show ?case
    by (elim disjE) (force, force, force, fastforce, fastforce)
qed

lemma packs_effects:
  assumes "runPackCommands w a dev ps s = (r, s')"
  shows "\<exists>es. effects s' = effects s @ es \<and> list_all (pack_command dev) (performed es)"
  using assms pack_loop_effects by (fastforce simp: runPackCommands_def split: if_splits)

lemma grows_packs: "runPackCommands w a dev ps s = (r, s') \<Longrightarrow> grows s s'"
  using packs_effects [of w a dev ps s r s'] by (auto simp: grows_def)

subsection \<open>A requested stop ends the loops\<close>

definition stopped_from :: "surroundings \<Rightarrow> nat \<Rightarrow> bool" where
  "stopped_from w N \<longleftrightarrow> (\<forall>n \<ge> N. o_stop w n)"

lemma grows_clock: "read_clock w s = (t, s') \<Longrightarrow> grows s s' \<and> tick s' = Suc (tick s)"
  by (auto simp: read_clock_def grows_emit)

lemma reconnect_loop_returns:
  "\<lbrakk>stopped_from w N; N < tick s + fuel; 0 < fuel\<rbrakk> \<Longrightarrow> reconnect_loop fuel w a s \<noteq> None"
proof (induction fuel arbitrary: s)
  case 0
  then show ?case by simp
next
  case (Suc fuel)
  show ?case
  proof (cases "stop_requested w s")
    case True
    then show ?thesis by simp
  next
    case False
    let ?s = "do_sleep STARTUP_RETRY_DELAY_MS
      (emit (DoLog ''Bluetooth reconnect failed; retrying'') (emit (DoReconnect a) s))"
    have "tick s < N" using False Suc.prems(1) by (metis leI stop_requested_def stopped_from_def)
    then have "N < tick ?s + fuel" "0 < fuel" using Suc.prems by (simp_all add: do_sleep_def)
    from Suc.IH [OF Suc.prems(1) this] False show ?thesis
      by (auto simp: perform_reconnect_def split: sum.splits)
  qed
qed

lemma reconnect_loop_grows: "reconnect_loop fuel w a s = Some (b, s') \<Longrightarrow> grows s s'"
proof (induction fuel arbitrary: s)
  case (Suc fuel)
  let ?s = "do_sleep STARTUP_RETRY_DELAY_MS
    (emit (DoLog ''Bluetooth reconnect failed; retrying'') (emit (DoReconnect a) s))"
  have "grows s ?s" by (simp add: do_sleep_def growth)
  then show ?case
    using Suc.prems Suc.IH [of ?s]
    by (auto simp: perform_reconnect_def growth split: if_splits sum.splits intro: grows_trans)
qed simp

lemma reconnect_loop_true: "reconnect_loop fuel w a s = Some (False, s') \<Longrightarrow> stop_requested w s'"
  by (induction fuel arbitrary: s) (auto simp: perform_reconnect_def split: if_splits sum.splits)

lemma recover_grows: "recoverDeviceConnection fuel w a s = Some (b, s') \<Longrightarrow> grows s s'"
  unfolding recoverDeviceConnection_def
  by (drule reconnect_loop_grows, rule grows_trans) (simp_all add: growth)

lemma recover_returns:
  "\<lbrakk>stopped_from w N; N < tick s + fuel; 0 < fuel\<rbrakk> \<Longrightarrow> recoverDeviceConnection fuel w a s \<noteq> None"
  using reconnect_loop_returns [of w N "emit (DoLog ''Bluetooth connection lost; reconnecting'') s" fuel a]
  by (simp add: recoverDeviceConnection_def)

lemma connection_lost_returns:
  "\<lbrakk>stopped_from w N; N < tick s + fuel; 0 < fuel\<rbrakk> \<Longrightarrow> connection_lost fuel w cfg ps s \<noteq> None"
  using recover_returns [of w N s fuel "cfg_address cfg"]
  by (auto simp: connection_lost_def read_clock_def split: option.splits bool.splits)

lemma connection_lost_grows: "connection_lost fuel w cfg ps s = Some (r, ps', s') \<Longrightarrow> grows s s'"
  using recover_grows [of fuel w "cfg_address cfg" s]
  by (auto simp: connection_lost_def read_clock_def growth split: option.splits bool.splits if_splits)

lemma complete_cycle_grows: "complete_cycle w cfg full t ps s = Some (r, ps', s') \<Longrightarrow> grows s s'"
  by (auto simp: complete_cycle_def read_clock_def maybeLogTelemetrySummary_def Let_def growth split: if_splits)

lemma busy_backoff_grows: "busy_backoff w cfg phase ps s = (ps', s') \<Longrightarrow> grows s s'"
  by (auto simp: busy_backoff_def maybeLogBusyWarning_def read_clock_def Let_def growth split: if_splits)

lemma complete_cycle_returns [simp]: "complete_cycle w cfg full t ps s \<noteq> None"
  by (simp add: complete_cycle_def read_clock_def Let_def)

text \<open>
  The ways a cycle goes, once for all that follows: \<open>run_cycle_cases\<close> gives the outcome of the
  command set, of the pack phase where there is one, and what the code does then.
\<close>

lemma run_cycle_cases [consumes 1, case_names Thrown Lost PackThrown PackLost Backoff Recover]:
  assumes "run_cycle fuel w cfg full ps s = res"
  obtains (Thrown) e s1 where
      "runCommandSet w (cfg_address cfg) (cfg_device cfg) (cycle_commands (cfg_device cfg) full) ps
         (begin_cycle full (o_clock w (tick s)) (emit DoClock s)) = (Inl e, s1)" "res = Some (Inl e, ps, s1)"
  | (Lost) s1 where
      "runCommandSet w (cfg_address cfg) (cfg_device cfg) (cycle_commands (cfg_device cfg) full) ps
         (begin_cycle full (o_clock w (tick s)) (emit DoClock s)) = (Inr ConnectionError, s1)"
      "res = connection_lost fuel w cfg ps s1"
  | (PackThrown) r s1 e s2 where full
      "runCommandSet w (cfg_address cfg) (cfg_device cfg) (cycle_commands (cfg_device cfg) full) ps
         (begin_cycle full (o_clock w (tick s)) (emit DoClock s)) = (Inr r, s1)"
      "runPackCommands w (cfg_address cfg) (cfg_device cfg) ps s1 = (Inl e, s2)" "res = Some (Inl e, ps, s2)"
  | (PackLost) r s1 s2 where full
      "runCommandSet w (cfg_address cfg) (cfg_device cfg) (cycle_commands (cfg_device cfg) full) ps
         (begin_cycle full (o_clock w (tick s)) (emit DoClock s)) = (Inr r, s1)"
      "runPackCommands w (cfg_address cfg) (cfg_device cfg) ps s1 = (Inr ConnectionError, s2)"
      "res = connection_lost fuel w cfg ps s2"
  | (Backoff) r s1 s2 phase ps3 s3 where
      "runCommandSet w (cfg_address cfg) (cfg_device cfg) (cycle_commands (cfg_device cfg) full) ps
         (begin_cycle full (o_clock w (tick s)) (emit DoClock s)) = (Inr r, s1)"
      "r = Busy \<and> s2 = s1 \<or> full \<and> runPackCommands w (cfg_address cfg) (cfg_device cfg) ps s1 = (Inr Busy, s2)"
      "busy_backoff w cfg phase ps s2 = (ps3, s3)" "res = complete_cycle w cfg full (o_clock w (tick s)) ps3 s3"
  | (Recover) r s1 s2 where
      "runCommandSet w (cfg_address cfg) (cfg_device cfg) (cycle_commands (cfg_device cfg) full) ps
         (begin_cycle full (o_clock w (tick s)) (emit DoClock s)) = (Inr r, s1)"
      "r = Ok \<or> r = ExpectedError"
      "\<not> full \<and> s2 = s1 \<or> full \<and> (\<exists>pr. runPackCommands w (cfg_address cfg) (cfg_device cfg) ps s1 = (Inr pr, s2))"
      "res = complete_cycle w cfg full (o_clock w (tick s)) (recoverPollingState (cfg_options cfg) ps) s2"
proof -
  let ?s0 = "begin_cycle full (o_clock w (tick s)) (emit DoClock s)"
  obtain x s1 where run: "runCommandSet w (cfg_address cfg) (cfg_device cfg)
      (cycle_commands (cfg_device cfg) full) ps ?s0 = (x, s1)" by (metis surj_pair)
  obtain y s2 where pack: "runPackCommands w (cfg_address cfg) (cfg_device cfg) ps s1 = (y, s2)" by (metis surj_pair)
  obtain ps3 s3 where bk: "busy_backoff w cfg ''polling'' ps s1 = (ps3, s3)" by (metis surj_pair)
  obtain ps4 s4 where bp: "busy_backoff w cfg ''pack polling'' ps s2 = (ps4, s4)" by (metis surj_pair)
  note d = assms [symmetric, unfolded run_cycle_def read_clock_def prod.case run]
  show thesis
  proof (cases x)
    case (Inl e)
    then show thesis using run d by (intro Thrown) simp_all
  next
    case x: (Inr r)
    consider "r = ConnectionError" | "r = Busy" | "r \<noteq> ConnectionError" "r \<noteq> Busy" by blast
    then show thesis
    proof cases
      case 1
      then show thesis using run x d by (intro Lost) simp_all
    next
      case 2
      then show thesis using run x d bk by (intro Backoff [of r s1 s1 "''polling''" ps3 s3]) simp_all
    next
      case 3
      then have ok: "r = Ok \<or> r = ExpectedError" by (cases r) simp_all
      show thesis
      proof (cases full)
        case False
        then show thesis using run x d ok 3 by (intro Recover [of r s1 s1]) simp_all
      next
        case full: True
        show thesis
        proof (cases y)
          case (Inl e)
          then show thesis using run x d full pack 3 by (intro PackThrown [of r s1 e s2]) simp_all
        next
          case y: (Inr pr)
          consider "pr = ConnectionError" | "pr = Busy" | "pr \<noteq> ConnectionError" "pr \<noteq> Busy" by blast
          then show thesis
          proof cases
            case 1
            then show thesis using run x d full pack y 3 by (intro PackLost [of r s1 s2]) simp_all
          next
            case 2
            then show thesis using run x d full pack y 3 bp by (intro Backoff [of r s1 s2 "''pack polling''" ps4 s4]) simp_all
          next
            case 4: 3
            then show thesis using run x d full pack y ok 3 by (intro Recover [of r s1 s2]) simp_all
          qed
        qed
      qed
    qed
  qed
qed

lemma begin_cycle_simps [simp]:
  "effects (begin_cycle full t s) = effects s" "tick (begin_cycle full t s) = tick s"
  by (simp_all add: begin_cycle_def tick_def)

lemma grows_begin: "grows s (begin_cycle full t (emit DoClock s))"
  by (simp add: grows_def)

lemma set_after_begin:
  assumes "runCommandSet w a dev cs ps (begin_cycle full t (emit DoClock s)) = (r, s1)"
  shows "grows s s1 \<and> tick s < tick s1"
proof -
  have "grows (emit DoClock s) s1"
    using grows_set [OF assms] by (simp add: grows_def)
  then show ?thesis using grows_tick [of "emit DoClock s" s1] by (auto simp: grows_def)
qed

lemma run_cycle_grows: "run_cycle fuel w cfg full ps s = Some (r, ps', s') \<Longrightarrow> grows s s'"
proof (erule run_cycle_cases, goal_cases)
  case (1 e s1)
  then show ?case using set_after_begin by fastforce
next
  case (2 s1)
  then show ?case using set_after_begin connection_lost_grows grows_trans by metis
next
  case (3 r s1 e s2)
  then show ?case using set_after_begin grows_packs grows_trans by (metis option.inject prod.inject)
next
  case (4 r s1 s2)
  then show ?case using set_after_begin grows_packs connection_lost_grows grows_trans by metis
next
  case (5 r s1 s2 phase ps3 s3)
  then show ?case
    using set_after_begin [OF 5(1)] grows_packs [of w "cfg_address cfg" "cfg_device cfg" ps s1 _ s2]
      busy_backoff_grows [OF 5(3)] complete_cycle_grows [OF 5(4) [symmetric]]
    by (elim disjE conjE) (metis grows_trans)+
next
  case (6 r s1 s2)
  then show ?case
    using set_after_begin [OF 6(1)] grows_packs [of w "cfg_address cfg" "cfg_device cfg" ps s1 _ s2]
      complete_cycle_grows [OF 6(4) [symmetric]]
    by (elim disjE conjE exE) (metis grows_trans)+
qed

lemma run_cycle_returns:
  assumes "stopped_from w N" and "N < tick s + fuel" and "0 < fuel"
  shows "run_cycle fuel w cfg full ps s \<noteq> None"
proof -
  have lost: "connection_lost fuel w cfg ps s2 \<noteq> None" if "grows s s2" for s2
    using connection_lost_returns [OF assms(1) _ assms(3)] assms(2) grows_tick [OF that] by simp
  show ?thesis
  proof (rule run_cycle_cases [where fuel = fuel and w = w and cfg = cfg and full = full and ps = ps and s = s, OF refl],
      goal_cases)
    case (1 e s1)
    then show ?case by simp
  next
    case (2 s1)
    then show ?case using lost set_after_begin by metis
  next
    case (3 r s1 e s2)
    then show ?case by simp
  next
    case (4 r s1 s2)
    then show ?case using lost set_after_begin grows_packs grows_trans by metis
  next
    case (5 r s1 s2 phase ps3 s3)
    then show ?case by simp
  next
    case (6 r s1 s2)
    then show ?case by simp
  qed
qed

lemma poll_iteration_grows:
  "poll_iteration fuel w cfg ps s = Some (r, ps', s') \<Longrightarrow> grows s s' \<and> tick s < tick s'"
proof -
  assume it: "poll_iteration fuel w cfg ps s = Some (r, ps', s')"
  have "grows (emit DoClock s) s'"
    using it run_cycle_grows
    by (auto simp: poll_iteration_def read_clock_def Let_def do_sleep_def growth split: if_splits)
  then show ?thesis using grows_tick [of "emit DoClock s" s'] by (auto simp: grows_def)
qed

lemma poll_loop_returns:
  "\<lbrakk>stopped_from w N; N < tick s + fuel; 0 < fuel\<rbrakk> \<Longrightarrow> poll_loop fuel w cfg ps s \<noteq> None"
proof (induction fuel arbitrary: ps s)
  case (Suc fuel)
  show ?case
  proof (cases "stop_requested w s")
    case False
    then have "tick s < N" using Suc.prems(1) by (metis leI stop_requested_def stopped_from_def)
    then have fuel: "0 < fuel" "N < Suc (tick s) + fuel" using Suc.prems by simp_all
    then have "poll_iteration fuel w cfg ps s \<noteq> None"
      using run_cycle_returns [OF Suc.prems(1), of "emit DoClock s" fuel cfg]
      by (auto simp: poll_iteration_def read_clock_def Let_def)
    then obtain r ps1 s1 where it: "poll_iteration fuel w cfg ps s = Some (r, ps1, s1)" by auto
    have "N < tick s1 + fuel" using poll_iteration_grows [OF it] fuel by simp
    from Suc.IH [OF Suc.prems(1) this fuel(1)] it False show ?thesis
      by (auto split: sum.splits loop_next.splits)
  qed simp
qed simp

subsection \<open>A loop ends only for a reason\<close>

lemma connection_lost_break:
  "connection_lost fuel w cfg ps s = Some (Inr Break, ps', s') \<Longrightarrow> \<not> cfg_runOnce cfg \<Longrightarrow> stop_requested w s'"
  by (auto simp: connection_lost_def read_clock_def recoverDeviceConnection_def
      split: option.splits bool.splits dest: reconnect_loop_true)

lemma complete_cycle_break:
  "complete_cycle w cfg full t ps s = Some (Inr Break, ps', s') \<Longrightarrow> \<not> cfg_runOnce cfg \<Longrightarrow> stop_requested w s'"
  by (auto simp: complete_cycle_def read_clock_def Let_def split: if_splits)

lemma poll_iteration_break:
  assumes "poll_iteration fuel w cfg ps s = Some (Inr Break, ps', s')" and "\<not> cfg_runOnce cfg"
  shows "stop_requested w s'"
proof -
  obtain full where "run_cycle fuel w cfg full ps (emit DoClock s) = Some (Inr Break, ps', s')"
    using assms(1) by (auto simp: poll_iteration_def read_clock_def Let_def split: if_splits)
  then show ?thesis
    by (cases rule: run_cycle_cases)
      (auto dest: connection_lost_break [OF sym, OF _ assms(2)] complete_cycle_break [OF sym, OF _ assms(2)])
qed

lemma poll_loop_ends:
  "\<lbrakk>poll_loop fuel w cfg ps s = Some (Inr (), ps', s'); \<not> cfg_runOnce cfg\<rbrakk> \<Longrightarrow> stop_requested w s'"
  by (induction fuel arbitrary: ps s)
    (auto split: if_splits option.splits sum.splits loop_next.splits dest: poll_iteration_break)

subsection \<open>What the loop keeps\<close>

text \<open>The schedule is only changed by the adjustments of \<open>PollingState\<close>.\<close>

definition same_intervals :: "polling_state \<Rightarrow> polling_state \<Rightarrow> bool" where
  "same_intervals ps ps' \<longleftrightarrow> fastIntervalMs ps' = fastIntervalMs ps \<and>
     fullIntervalMs ps' = fullIntervalMs ps \<and> commandDelayMs ps' = commandDelayMs ps"

lemma within_same: "\<lbrakk>within_envelope opts ps; same_intervals ps ps'\<rbrakk> \<Longrightarrow> within_envelope opts ps'"
  by (simp add: within_envelope_def same_intervals_def)

lemma connection_lost_same:
  "connection_lost fuel w cfg ps s = Some (r, ps', s') \<Longrightarrow> same_intervals ps ps'"
  by (auto simp: connection_lost_def read_clock_def same_intervals_def scheduleNextPoll_def
      split: if_splits option.splits bool.splits)

lemma complete_cycle_same:
  "complete_cycle w cfg full t ps s = Some (r, ps', s') \<Longrightarrow> same_intervals ps ps'"
  by (auto simp: complete_cycle_def read_clock_def same_intervals_def Let_def)

lemma busy_backoff_state: "busy_backoff w cfg phase ps s = (ps', s') \<Longrightarrow> ps' = applyBusyBackoff (cfg_options cfg) ps"
  by (auto simp: busy_backoff_def read_clock_def Let_def)

lemma run_cycle_within:
  assumes "coherent (cfg_options cfg)" and w: "within_envelope (cfg_options cfg) ps"
    and "run_cycle fuel w cfg full ps s = Some (r, ps', s')"
  shows "within_envelope (cfg_options cfg) ps'"
proof -
  note keep = adjust_within [OF assms(1) w]
  from assms(3) show ?thesis
  proof (cases rule: run_cycle_cases)
    case (Backoff r s1 s2 phase ps3 s3)
    then show ?thesis using keep [of Backoff] busy_backoff_state complete_cycle_same within_same by (metis adjust.simps(1))
  next
    case (Recover r s1 s2)
    then show ?thesis using keep [of Recover] complete_cycle_same within_same by (metis adjust.simps(2))
  qed (use w connection_lost_same within_same in \<open>metis option.inject prod.inject\<close>)+
qed

lemma poll_iteration_within:
  "\<lbrakk>coherent (cfg_options cfg); within_envelope (cfg_options cfg) ps;
    poll_iteration fuel w cfg ps s = Some (r, ps', s')\<rbrakk> \<Longrightarrow> within_envelope (cfg_options cfg) ps'"
  by (auto simp: poll_iteration_def read_clock_def Let_def split: if_splits dest: run_cycle_within)

lemma poll_loop_within:
  "\<lbrakk>coherent (cfg_options cfg); within_envelope (cfg_options cfg) ps;
    poll_loop fuel w cfg ps s = Some (r, ps', s')\<rbrakk> \<Longrightarrow> within_envelope (cfg_options cfg) ps'"
  by (induction fuel arbitrary: ps s)
    (auto split: if_splits option.splits sum.splits loop_next.splits dest: poll_iteration_within)

text \<open>The counters of a run, and the busy warnings it logged.\<close>

fun reported_by :: "effect \<Rightarrow> nat" where
  "reported_by (DoBusyWarning phase suppressed) = Suc suppressed"
| "reported_by _ = 0"

definition reported :: "effect list \<Rightarrow> nat" where
  "reported es = sum_list (map reported_by es)"

definition run_inv :: "run_state \<Rightarrow> bool" where
  "run_inv s \<longleftrightarrow>
     busyErrorCount (telemetry s) = reported (effects s) + suppressedBusyWarningCount (telemetry s) \<and>
     cycleCount (telemetry s) = fastCycleCount (telemetry s) + fullCycleCount (telemetry s)"

definition kept_counters :: "device_telemetry \<Rightarrow> nat list" where
  "kept_counters t = [busyErrorCount t, suppressedBusyWarningCount t, cycleCount t, fastCycleCount t, fullCycleCount t]"

lemma run_inv_emit [simp]: "reported_by x = 0 \<Longrightarrow> run_inv (emit x s) = run_inv s"
  by (simp add: run_inv_def reported_def)

lemma run_inv_update [simp]:
  "(\<And>t. kept_counters (f t) = kept_counters t) \<Longrightarrow> run_inv (update_telemetry f s) = run_inv s"
  by (simp add: run_inv_def kept_counters_def)

text \<open>
  What performing, publishing, sleeping and looking at the clock leave as it is, and the updates of
  other counters too, the command sets and the pack phase leave as it is.
\<close>

fun is_read_effect :: "effect \<Rightarrow> bool" where
  "is_read_effect (DoPerform address c) = True"
| "is_read_effect (DoPublish parsed) = True"
| "is_read_effect (DoSleep ms) = True"
| "is_read_effect DoClock = True"
| "is_read_effect _ = False"

locale kept_by_reads =
  fixes kept :: "run_state \<Rightarrow> 'k"
  assumes kept_emit [simp]: "is_read_effect x \<Longrightarrow> kept (emit x s) = kept s"
    and kept_update [simp]: "(\<And>t. kept_counters (f t) = kept_counters t) \<Longrightarrow> kept (update_telemetry f s) = kept s"
begin

lemma read_work_kept: "read_work w a dev c s = (r, s') \<Longrightarrow> kept s' = kept s"
  by (auto simp: read_work_def session_perform_def interaction_defs kept_counters_def
      split: sum.splits if_splits)

lemma execute_kept:
  assumes "executeReadCommand w a dev c s = (r, s')"
  shows "kept s' = kept s"
proof -
  obtain rw sw where work: "read_work w a dev c (emit DoClock s) = (rw, sw)" by (metis surj_pair)
  from read_work_kept [OF work] assms work show ?thesis
    by (auto simp: executeReadCommand_def read_caught_def interaction_defs kept_counters_def
        split: sum.splits option.splits command_result.splits)
qed

lemma set_loop_kept: "command_set_loop w a dev cs delay saw s = (r, s') \<Longrightarrow> kept s' = kept s"
proof (induction cs arbitrary: saw s)
  case (Cons c rest)
  obtain r1 s1 where ex: "executeReadCommand w a dev c s = (r1, s1)" by (metis surj_pair)
  have "kept (if rest \<noteq> [] \<and> 0 < delay then do_sleep delay s1 else s1) = kept s"
    using execute_kept [OF ex] by (simp add: do_sleep_def)
  then show ?case
    using Cons ex execute_kept [OF ex] by (fastforce split: if_splits sum.splits)
qed simp

lemma set_kept: "runCommandSet w a dev cs ps s = (r, s') \<Longrightarrow> kept s' = kept s"
  by (auto simp: runCommandSet_def set_loop_kept split: if_splits)

lemma select_kept: "trySelectPack w a dev p ps s = (r, s') \<Longrightarrow> kept s' = kept s"
  by (auto simp: trySelectPack_def session_perform_def interaction_defs split: sum.splits prod.splits if_splits)

lemma pack_loop_kept: "pack_loop w a dev packs ps s = (r, s') \<Longrightarrow> kept s' = kept s"
proof (induction packs arbitrary: s)
  case (Cons p rest)
  obtain r1 s1 where sel: "(if 1 < packNumMax dev \<and> hasFieldSetter dev ''pack_num''
      then trySelectPack w a dev p ps s else (Inr Ok, s)) = (r1, s1)" by (metis surj_pair)
  have e1: "kept s1 = kept s"
    using sel select_kept [of w a dev p ps s r1 s1] by (auto split: if_splits)
  obtain r2 s2 where run: "runCommandSet w a dev (packPollingCommands dev) ps s1 = (r2, s2)" by (metis surj_pair)
  have step: "pack_loop w a dev (p # rest) ps s =
      (if stop_requested w s then (Inr Ok, s)
       else case r1 of Inl e \<Rightarrow> (Inl e, s1) | Inr Busy \<Rightarrow> (Inr Busy, s1) | Inr ConnectionError \<Rightarrow> (Inr ConnectionError, s1)
          | Inr ExpectedError \<Rightarrow> pack_loop w a dev rest ps s1
          | Inr Ok \<Rightarrow> (case r2 of Inl e \<Rightarrow> (Inl e, s2) | Inr Busy \<Rightarrow> (Inr Busy, s2)
               | Inr r \<Rightarrow> pack_loop w a dev rest ps s2))"
    by (simp only: pack_loop.simps Let_def sel prod.case run)
  show ?case
    using Cons.prems e1 set_kept [OF run] Cons.IH [of s1] Cons.IH [of s2] unfolding step
    by (auto split: if_splits sum.splits command_result.splits)
qed simp

lemma packs_kept: "runPackCommands w a dev ps s = (r, s') \<Longrightarrow> kept s' = kept s"
  by (auto simp: runPackCommands_def pack_loop_kept split: if_splits)

end

interpretation counters: kept_by_reads run_inv
  by unfold_locales (auto elim: is_read_effect.elims)

lemma begin_inv: "run_inv (begin_cycle full t (emit DoClock s)) = run_inv s"
  by (auto simp: begin_cycle_def run_inv_def reported_def Let_def)

lemma busy_backoff_inv: "busy_backoff w cfg phase ps s = (ps', s') \<Longrightarrow> run_inv s \<Longrightarrow> run_inv s'"
  by (auto simp: busy_backoff_def maybeLogBusyWarning_def read_clock_def run_inv_def reported_def Let_def
      split: if_splits)

lemma summary_inv [simp]: "run_inv (maybeLogTelemetrySummary w s) = run_inv s"
  by (simp add: maybeLogTelemetrySummary_def read_clock_def kept_counters_def Let_def)

lemma complete_cycle_inv: "complete_cycle w cfg full t ps s = Some (r, ps', s') \<Longrightarrow> run_inv s' = run_inv s"
  by (auto simp: complete_cycle_def read_clock_def kept_counters_def Let_def)

lemma reconnect_loop_inv: "reconnect_loop fuel w a s = Some (b, s') \<Longrightarrow> run_inv s' = run_inv s"
  by (induction fuel arbitrary: s)
    (auto simp: perform_reconnect_def do_sleep_def split: if_splits sum.splits)

lemma connection_lost_inv: "connection_lost fuel w cfg ps s = Some (r, ps', s') \<Longrightarrow> run_inv s' = run_inv s"
  using reconnect_loop_inv [of fuel w "cfg_address cfg" "emit (DoLog ''Bluetooth connection lost; reconnecting'') s"]
  by (auto simp: connection_lost_def recoverDeviceConnection_def read_clock_def
      split: if_splits option.splits bool.splits)

lemma run_cycle_inv:
  assumes "run_cycle fuel w cfg full ps s = Some (r, ps', s')" and "run_inv s"
  shows "run_inv s'"
proof -
  have start: "run_inv (begin_cycle full (o_clock w (tick s)) (emit DoClock s))"
    using assms(2) by (simp add: begin_inv)
  from assms(1) show ?thesis
  proof (cases rule: run_cycle_cases)
    case (Backoff r s1 s2 phase ps3 s3)
    then have "run_inv s2" using start counters.set_kept counters.packs_kept by metis
    then show ?thesis using Backoff busy_backoff_inv complete_cycle_inv by metis
  next
    case (Recover r s1 s2)
    then have "run_inv s2" using start counters.set_kept counters.packs_kept by metis
    then show ?thesis using Recover complete_cycle_inv by metis
  qed (use start counters.set_kept counters.packs_kept connection_lost_inv in \<open>metis option.inject prod.inject\<close>)+
qed

lemma poll_iteration_inv:
  "\<lbrakk>poll_iteration fuel w cfg ps s = Some (r, ps', s'); run_inv s\<rbrakk> \<Longrightarrow> run_inv s'"
  by (auto simp: poll_iteration_def read_clock_def do_sleep_def Let_def split: if_splits dest: run_cycle_inv)

lemma poll_loop_inv:
  "\<lbrakk>poll_loop fuel w cfg ps s = Some (r, ps', s'); run_inv s\<rbrakk> \<Longrightarrow> run_inv s'"
  by (induction fuel arbitrary: ps s)
    (auto split: if_splits option.splits sum.splits loop_next.splits dest: poll_iteration_inv)

subsection \<open>What an iteration reads\<close>

lemma quiet_grows:
  "\<exists>es. effects (maybeLogBusyWarning w phase s) = effects s @ es \<and> performed es = []"
  "\<exists>es. effects (maybeLogTelemetrySummary w s) = effects s @ es \<and> performed es = []"
  by (simp_all add: maybeLogBusyWarning_def maybeLogTelemetrySummary_def read_clock_def Let_def)

lemma busy_backoff_quiet:
  assumes "busy_backoff w cfg phase ps s = (ps', s')"
  shows "performed (effects s') = performed (effects s)"
  using assms by (auto simp: busy_backoff_def read_clock_def Let_def maybeLogBusyWarning_def)

lemma complete_cycle_quiet:
  assumes "complete_cycle w cfg full t ps s = Some (r, ps', s')"
  shows "performed (effects s') = performed (effects s)"
  using assms
  by (auto simp: complete_cycle_def read_clock_def Let_def maybeLogTelemetrySummary_def)

lemma reconnect_loop_quiet:
  "reconnect_loop fuel w a s = Some (b, s') \<Longrightarrow> performed (effects s') = performed (effects s)"
  by (induction fuel arbitrary: s)
    (auto simp: perform_reconnect_def do_sleep_def split: if_splits sum.splits)

lemma connection_lost_quiet:
  assumes "connection_lost fuel w cfg ps s = Some (r, ps', s')"
  shows "performed (effects s') = performed (effects s)"
  using assms
    reconnect_loop_quiet [of fuel w "cfg_address cfg" "emit (DoLog ''Bluetooth connection lost; reconnecting'') s"]
  by (auto simp: connection_lost_def recoverDeviceConnection_def read_clock_def
      split: if_splits option.splits bool.splits)

lemma set_performed:
  assumes "runCommandSet w a dev cs ps (begin_cycle full t (emit DoClock s)) = (r, s1)"
  shows "\<exists>k. performed (effects s1) = performed (effects s) @ take k cs"
  using runCommandSet_run [OF assms] by auto

lemma run_cycle_performed:
  assumes "run_cycle fuel w cfg full ps s = Some (r, ps', s')"
  shows "\<exists>k packs. performed (effects s') =
      performed (effects s) @ take k (cycle_commands (cfg_device cfg) full) @ packs \<and>
    list_all (pack_command (cfg_device cfg)) packs \<and> (\<not> full \<longrightarrow> packs = [])"
proof -
  have packs: "\<exists>ks. performed (effects s2) = performed (effects s1) @ ks \<and> list_all (pack_command (cfg_device cfg)) ks"
    if "runPackCommands w (cfg_address cfg) (cfg_device cfg) ps s1 = (y, s2)" for y s1 s2
    using packs_effects [OF that] by auto
  have result: ?thesis
    if "performed (effects s1) = performed (effects s) @ take k (cycle_commands (cfg_device cfg) full)"
      and "performed (effects s') = performed (effects s1) @ ks"
      and "list_all (pack_command (cfg_device cfg)) ks" and "\<not> full \<longrightarrow> ks = []" for k ks s1
    using that by (intro exI [of _ k] exI [of _ ks]) simp
  from assms show ?thesis
  proof (cases rule: run_cycle_cases)
    case (Thrown e s1)
    then show ?thesis using set_performed [OF Thrown(1)] result [of s1 _ "[]"] by auto
  next
    case (Lost s1)
    then show ?thesis
      using set_performed [OF Lost(1)] connection_lost_quiet [OF Lost(2) [symmetric]] result [of s1 _ "[]"] by auto
  next
    case (PackThrown r s1 e s2)
    then show ?thesis
      using set_performed [OF PackThrown(2)] packs [OF PackThrown(3)] result [of s1] by auto
  next
    case (PackLost r s1 s2)
    then show ?thesis
      using set_performed [OF PackLost(2)] packs [OF PackLost(3)]
        connection_lost_quiet [OF PackLost(4) [symmetric]] result [of s1] by auto
  next
    case (Backoff r s1 s2 phase ps3 s3)
    have "performed (effects s') = performed (effects s2)"
      using busy_backoff_quiet [OF Backoff(3)] complete_cycle_quiet [OF Backoff(4) [symmetric]] by simp
    then show ?thesis
      using set_performed [OF Backoff(1)] Backoff(2) packs [of s1 "Inr Busy" s2]
        result [of s1 _ "[]"] result [of s1] by auto
  next
    case (Recover r s1 s2)
    have "performed (effects s') = performed (effects s2)"
      using complete_cycle_quiet [OF Recover(4) [symmetric]] by simp
    then show ?thesis
      using set_performed [OF Recover(1)] Recover(3) packs [of s1 _ s2]
        result [of s1 _ "[]"] result [of s1] by auto
  qed
qed

lemma cycle_commands_full [simp]: "cycle_commands dev True = pollingCommands dev"
  by (simp add: cycle_commands_def fast_slow_append)

lemma cycle_commands_fast [simp]: "cycle_commands dev False = fastPollingCommands dev"
  by (simp add: cycle_commands_def)

subsection \<open>A full cycle when nothing goes wrong\<close>

lemma complete_cycle_next:
  "\<exists>n s'. complete_cycle w cfg True t ps s =
     Some (Inr (if cfg_runOnce cfg \<or> stop_requested w s' then Break else Continue),
           scheduleNextPoll (o_clock w n) ps, s')"
  by (auto simp: complete_cycle_def read_clock_def Let_def scheduleNextPoll_def)

lemma full_cycle_run:
  assumes d: "d \<in> set BLUETTI_DEFINITIONS" and w: "all_well w"
    and dev: "cfg_device cfg = new_BluettiDeviceModel ad sn d"
  shows "\<exists>n s'. run_cycle fuel w cfg True ps s =
      Some (Inr (if cfg_runOnce cfg then Break else Continue),
            scheduleNextPoll (o_clock w n) (recoverPollingState (cfg_options cfg) ps), s') \<and>
    performed (effects s') = performed (effects s) @ pollingCommands (cfg_device cfg) @
      (if packPollingCommands (cfg_device cfg) = [] then []
       else concat (map (pack_commands d) [1..<Suc (def_packNumMax d)]))"
proof -
  let ?s0 = "begin_cycle True (o_clock w (tick s)) (emit DoClock s)"
  have "set (pollingCommands (cfg_device cfg)) \<subseteq> set (all_commands d)"
    by (auto simp: dev pollingCommands_def new_BluettiDeviceModel_def all_commands_def)
  from set_ok [OF d w this, of "cfg_address cfg" ad sn ps ?s0] obtain s1 es1 where
    s1: "runCommandSet w (cfg_address cfg) (cfg_device cfg) (pollingCommands (cfg_device cfg)) ps ?s0 = (Inr Ok, s1)"
      "effects s1 = effects ?s0 @ es1" "performed es1 = pollingCommands (cfg_device cfg)"
    unfolding dev by blast
  from all_well_packs [OF d w, of "cfg_address cfg" ad sn ps s1] obtain s2 es2 where
    s2: "runPackCommands w (cfg_address cfg) (cfg_device cfg) ps s1 = (Inr Ok, s2)" "effects s2 = effects s1 @ es2"
      "performed es2 = (if packPollingCommands (cfg_device cfg) = [] then []
        else concat (map (pack_commands d) [1..<Suc (def_packNumMax d)]))"
    unfolding dev by blast
  obtain n s' where c: "complete_cycle w cfg True (o_clock w (tick s)) (recoverPollingState (cfg_options cfg) ps) s2 =
     Some (Inr (if cfg_runOnce cfg \<or> stop_requested w s' then Break else Continue),
           scheduleNextPoll (o_clock w n) (recoverPollingState (cfg_options cfg) ps), s')"
    using complete_cycle_next by blast
  have "\<not> stop_requested w s'" using w by (simp add: all_well_def never_stopped_def stop_requested_def)
  moreover have "run_cycle fuel w cfg True ps s =
      complete_cycle w cfg True (o_clock w (tick s)) (recoverPollingState (cfg_options cfg) ps) s2"
    using s1(1) s2(1) by (simp add: run_cycle_def read_clock_def)
  ultimately show ?thesis
    using c complete_cycle_quiet [OF c] s1 s2 by (intro exI [of _ n] exI [of _ s']) simp
qed

subsection \<open>Startup\<close>

lemma handler_connectAll_tick: "handler_connectAll w name_of addresses (h, s) = (r, h', s') \<Longrightarrow> s' = emit DoConnectAll s"
  by (auto simp: handler_connectAll_def split: sum.splits prod.splits)

lemma connectAllWithRecovery_returns:
  "\<lbrakk>stopped_from w N; N < tick s + fuel; 0 < fuel\<rbrakk> \<Longrightarrow>
   connectAllWithRecovery fuel w once (handler_connectAll w name_of addresses) (h, s) \<noteq> None"
proof (induction fuel arbitrary: h s)
  case (Suc fuel)
  show ?case
  proof (cases "stop_requested w s")
    case False
    then have "tick s < N" using Suc.prems(1) by (metis leI stop_requested_def stopped_from_def)
    then have fuel: "0 < fuel" "N < Suc (tick s) + fuel" using Suc.prems by simp_all
    obtain r h1 s1 where c: "handler_connectAll w name_of addresses (h, s) = (r, h1, s1)" by (metis surj_pair)
    let ?s2 = "do_sleep STARTUP_RETRY_DELAY_MS (emit (DoLog ''Bluetooth startup failed; retrying'') s1)"
    have "N < tick ?s2 + fuel" using fuel handler_connectAll_tick [OF c] by (simp add: do_sleep_def)
    from Suc.IH [OF Suc.prems(1) this fuel(1)] c False show ?thesis by (auto split: sum.splits)
  qed simp
qed simp

lemma connectAllWithRecovery_result:
  "connectAllWithRecovery fuel w once connect (h, s) = Some (r, h', s') \<Longrightarrow>
   (case r of
      Inl e \<Rightarrow> once \<or> \<not> is_bad_connection e
    | Inr False \<Rightarrow> stop_requested w s'
    | Inr True \<Rightarrow> \<exists>h0 s0. connect (h0, s0) = (Inr (), h', s'))"
  by (induction fuel arbitrary: h s)
    (auto split: if_splits sum.splits prod.splits bool.splits)

text \<open>What registration leaves behind.\<close>

lemma register_address_ok:
  assumes "register_address name_of a h = (Inr (), h')"
  shows "(\<exists>dev. map_of (devices h') a = Some dev \<and>
        (map_of (devices h) a = Some dev \<or>
         (\<exists>n. name_of a = Inr n \<and> createDeviceFromAdvertisement a n = Inr dev))) \<and>
      map_of (pollingStates h') a \<noteq> None \<and> map_of (telemetries h') a \<noteq> None"
  using assms
  by (auto simp: register_address_def rbind_eq_Inr getPollingState_def getTelemetry_def Let_def
      split: sum.splits if_splits option.splits)

lemma register_address_keeps:
  assumes "register_address name_of a h = (r, h')"
  shows "map_of (devices h) \<subseteq>\<^sub>m map_of (devices h') \<and> map_of (pollingStates h) \<subseteq>\<^sub>m map_of (pollingStates h') \<and>
    map_of (telemetries h) \<subseteq>\<^sub>m map_of (telemetries h') \<and>
    commandListenerAttached h' = commandListenerAttached h"
  using assms
  by (auto simp: register_address_def rbind_eq_Inr getPollingState_def getTelemetry_def Let_def map_le_def
      split: sum.splits if_splits option.splits)

lemma register_addresses_keeps:
  "register_addresses name_of as h = (r, h') \<Longrightarrow>
   map_of (devices h) \<subseteq>\<^sub>m map_of (devices h') \<and> map_of (pollingStates h) \<subseteq>\<^sub>m map_of (pollingStates h') \<and>
    map_of (telemetries h) \<subseteq>\<^sub>m map_of (telemetries h') \<and>
    commandListenerAttached h' = commandListenerAttached h"
proof (induction as arbitrary: h)
  case (Cons a as)
  obtain r1 h1 where h1: "register_address name_of a h = (r1, h1)" by (metis surj_pair)
  then show ?case
    using register_address_keeps [OF h1] Cons
    by (cases r1) (auto intro: map_le_trans)
qed simp

lemma register_addresses_ok:
  "\<lbrakk>register_addresses name_of as h = (Inr (), h'); a \<in> set as\<rbrakk> \<Longrightarrow>
   map_of (devices h') a \<noteq> None \<and> map_of (pollingStates h') a \<noteq> None \<and> map_of (telemetries h') a \<noteq> None"
proof (induction as arbitrary: h)
  case (Cons b as)
  then obtain h1 where h1: "register_address name_of b h = (Inr (), h1)" "register_addresses name_of as h1 = (Inr (), h')"
    by (auto split: prod.splits sum.splits)
  show ?case
  proof (cases "a = b")
    case True
    then show ?thesis
      using register_address_ok [OF h1(1)] register_addresses_keeps [OF h1(2)]
      by (auto simp: map_le_def dom_def)
  next
    case False
    then show ?thesis using Cons h1 by simp
  qed
qed simp

subsection \<open>Properties\<close>


definition sample_config :: "device_definition \<Rightarrow> poll_config" where
  "sample_config d = \<lparr>cfg_address = ''A'', cfg_device = new_BluettiDeviceModel ''A'' ''7'' d,
     cfg_options = DEFAULT_POLLING_OPTIONS, cfg_runOnce = False\<rparr>"

lemma default_coherent: "coherent DEFAULT_POLLING_OPTIONS"
  by (simp add: coherent_def DEFAULT_POLLING_OPTIONS_def)


text \<open>
  C28: a full cycle of any product, when nothing goes wrong, reads the whole polling set and
  every battery pack, in order; then the intervals recover by one step, both polls are
  scheduled one interval ahead, and the loop goes on (or ends, in one-shot mode).
\<close>

theorem full_cycle_complete:
  assumes "d \<in> set BLUETTI_DEFINITIONS" and "all_well w"
    and "cfg_device cfg = new_BluettiDeviceModel ad sn d" and "nextFullPollAt ps \<le> o_clock w (tick s)"
  shows "\<exists>n s'. poll_iteration fuel w cfg ps s =
      Some (Inr (if cfg_runOnce cfg then Break else Continue),
            scheduleNextPoll (o_clock w n) (recoverPollingState (cfg_options cfg) ps), s') \<and>
    performed (effects s') = performed (effects s) @ pollingCommands (cfg_device cfg) @
      (if packPollingCommands (cfg_device cfg) = [] then []
       else concat (map (pack_commands d) [1..<Suc (def_packNumMax d)]))"
  using full_cycle_run [OF assms(1-3), of fuel ps "emit DoClock s"] assms(4)
  by (simp add: poll_iteration_def read_clock_def)

theorem full_cycle_complete_witness:
  "\<exists>ps' s'. poll_iteration 1 well_world (sample_config AC60_definition)
      (createDevicePollingState DEFAULT_POLLING_OPTIONS) fresh_run = Some (Inr Continue, ps', s') \<and>
    performed (effects s') = [read_window 100 62]"
proof -
  let ?ps = "createDevicePollingState DEFAULT_POLLING_OPTIONS"
  have d: "AC60_definition \<in> set BLUETTI_DEFINITIONS" by (simp add: BLUETTI_DEFINITIONS_def)
  have dev: "cfg_device (sample_config AC60_definition) = new_BluettiDeviceModel ''A'' ''7'' AC60_definition"
    by (simp add: sample_config_def)
  have due: "nextFullPollAt ?ps \<le> o_clock well_world (tick fresh_run)"
    by (simp add: createDevicePollingState_def well_world_def)
  have cmds: "pollingCommands (cfg_device (sample_config AC60_definition)) = [read_window 100 62]"
    "packPollingCommands (cfg_device (sample_config AC60_definition)) = []"
    unfolding dev
    by (simp_all add: pollingCommands_def packPollingCommands_def new_BluettiDeviceModel_def AC60_definition_def)
  have "\<not> cfg_runOnce (sample_config AC60_definition)" "effects fresh_run = []"
    by (simp_all add: sample_config_def fresh_run_def)
  with full_cycle_complete [OF d well_world_well dev due, of 1] cmds show ?thesis by auto
qed

text \<open>
  C26: whatever happens on the device side, a polling loop keeps the adaptive schedule inside
  the envelope of coherent options, counts every cycle as fast or full, and loses no busy
  response from the log: the busy responses counted are those reported by the warnings (each
  with the number it held back) and those still held back.
\<close>

theorem polling_loop_invariants:
  assumes "poll_loop fuel w cfg ps s = Some (r, ps', s')"
    and "coherent (cfg_options cfg)" and "within_envelope (cfg_options cfg) ps"
    and "busyErrorCount (telemetry s) = reported (effects s) + suppressedBusyWarningCount (telemetry s)"
    and "cycleCount (telemetry s) = fastCycleCount (telemetry s) + fullCycleCount (telemetry s)"
  shows "within_envelope (cfg_options cfg) ps' \<and>
    busyErrorCount (telemetry s') = reported (effects s') + suppressedBusyWarningCount (telemetry s') \<and>
    cycleCount (telemetry s') = fastCycleCount (telemetry s') + fullCycleCount (telemetry s')"
proof -
  have "run_inv s" using assms(4,5) by (simp add: run_inv_def)
  from poll_loop_within [OF assms(2,3,1)] poll_loop_inv [OF assms(1) this] show ?thesis
    by (simp add: run_inv_def)
qed

text \<open>A device that is always busy, while the clock runs a second per interaction; then a stop.\<close>

definition busy_world :: surroundings where
  "busy_world = \<lparr>o_session = \<lambda>n. True, o_perform = \<lambda>n c. Inl (DeviceBusyError ''busy'' 5),
     o_publish = \<lambda>n. Inr (), o_clock = \<lambda>n. 100000 + 1000 * int n, o_reconnect = \<lambda>n. Inr (),
     o_connectAll = \<lambda>n. Inr (), o_stop = \<lambda>n. 40 \<le> n\<rparr>"

lemma busy_world_stops: "stopped_from busy_world 40"
  by (simp add: stopped_from_def busy_world_def)

theorem polling_loop_invariants_witness:
  "\<exists>r ps' s'. poll_loop 41 busy_world (sample_config EP600_definition)
       (createDevicePollingState DEFAULT_POLLING_OPTIONS) fresh_run = Some (r, ps', s') \<and>
     within_envelope DEFAULT_POLLING_OPTIONS ps' \<and>
     busyErrorCount (telemetry s') = reported (effects s') + suppressedBusyWarningCount (telemetry s')"
proof -
  have opts: "cfg_options (sample_config EP600_definition) = DEFAULT_POLLING_OPTIONS" by (simp add: sample_config_def)
  obtain r ps' s' where run: "poll_loop 41 busy_world (sample_config EP600_definition)
       (createDevicePollingState DEFAULT_POLLING_OPTIONS) fresh_run = Some (r, ps', s')"
    using poll_loop_returns [OF busy_world_stops, of fresh_run 41 "sample_config EP600_definition"
        "createDevicePollingState DEFAULT_POLLING_OPTIONS"]
    by (auto simp: tick_def)
  moreover have "busyErrorCount (telemetry fresh_run) = reported (effects fresh_run) + suppressedBusyWarningCount (telemetry fresh_run)"
    "cycleCount (telemetry fresh_run) = fastCycleCount (telemetry fresh_run) + fullCycleCount (telemetry fresh_run)"
    by (simp_all add: fresh_run_def createDeviceTelemetry_def reported_def)
  ultimately show ?thesis
    using polling_loop_invariants [OF run] default_coherent create_within [OF default_coherent] opts by auto
qed

text \<open>
  C25: a polling loop of a running bridge ends when it must and only then: once a stop is
  requested for good it returns, reconnection attempts in progress included, with no more
  iterations than interactions before the stop; and it never returns without an error while
  nobody has asked it to stop.
\<close>

theorem polling_stops:
  assumes "\<forall>n \<ge> N. o_stop w n"
  shows "poll_loop (Suc N) w cfg ps s \<noteq> None \<and>
    (poll_loop fuel w cfg ps s = Some (Inr (), ps', s') \<and> \<not> cfg_runOnce cfg \<longrightarrow> o_stop w (tick s'))"
proof
  have "stopped_from w N" using assms by (simp add: stopped_from_def)
  then show "poll_loop (Suc N) w cfg ps s \<noteq> None" by (rule poll_loop_returns) simp_all
  show "poll_loop fuel w cfg ps s = Some (Inr (), ps', s') \<and> \<not> cfg_runOnce cfg \<longrightarrow> o_stop w (tick s')"
    using poll_loop_ends [of fuel w cfg ps s ps' s'] by (simp add: stop_requested_def)
qed

theorem polling_stops_witness:
  "poll_loop (Suc 40) busy_world (sample_config EP600_definition)
     (createDevicePollingState DEFAULT_POLLING_OPTIONS) fresh_run \<noteq> None"
proof -
  have "\<forall>n \<ge> 40. o_stop busy_world n" by (simp add: busy_world_def)
  from polling_stops [OF this] show ?thesis by blast
qed

text \<open>
  Startup: \<open>connectAllWithRecovery\<close> returns once a stop is requested for good; it gives up
  with an error only in one-shot mode or on an error that is no \<open>BadConnectionError\<close>, reports
  failure only when a stop was requested, and its success means that the last attempt to
  connect succeeded.
\<close>

theorem startup_recovery:
  assumes "\<forall>n \<ge> N. o_stop w n"
  shows "connectAllWithRecovery (Suc N) w once (handler_connectAll w name_of addresses) (h, s) \<noteq> None \<and>
    (connectAllWithRecovery fuel w once (handler_connectAll w name_of addresses) (h, s) = Some (r, h', s') \<longrightarrow>
      (case r of
         Inl e \<Rightarrow> once \<or> (\<forall>m. e \<noteq> BadConnectionError m)
       | Inr connected_now \<Rightarrow>
           if connected_now then commandListenerAttached h' \<and>
             (\<forall>a \<in> set addresses. map_of (devices h') a \<noteq> None \<and> map_of (pollingStates h') a \<noteq> None)
           else o_stop w (tick s')))"
proof
  have "stopped_from w N" using assms by (simp add: stopped_from_def)
  then show "connectAllWithRecovery (Suc N) w once (handler_connectAll w name_of addresses) (h, s) \<noteq> None"
    by (rule connectAllWithRecovery_returns) simp_all
  have ok: "commandListenerAttached h' \<and>
      (\<forall>a \<in> set addresses. map_of (devices h') a \<noteq> None \<and> map_of (pollingStates h') a \<noteq> None)"
    if "handler_connectAll w name_of addresses (h0, s0) = (Inr (), h', s')" for h0 s0
    using that register_addresses_ok register_addresses_keeps
    by (fastforce simp: handler_connectAll_def split: sum.splits prod.splits)
  show "connectAllWithRecovery fuel w once (handler_connectAll w name_of addresses) (h, s) = Some (r, h', s') \<longrightarrow>
      (case r of
         Inl e \<Rightarrow> once \<or> (\<forall>m. e \<noteq> BadConnectionError m)
       | Inr connected_now \<Rightarrow>
           if connected_now then commandListenerAttached h' \<and>
             (\<forall>a \<in> set addresses. map_of (devices h') a \<noteq> None \<and> map_of (pollingStates h') a \<noteq> None)
           else o_stop w (tick s'))"
    using connectAllWithRecovery_result [of fuel w once "handler_connectAll w name_of addresses" h s r h' s'] ok
    by (auto simp: stop_requested_def split: sum.splits bool.splits)
qed

theorem startup_recovery_witness:
  "connectAllWithRecovery (Suc 40) busy_world False
     (handler_connectAll busy_world (\<lambda>a. Inr ''EB3A12'') [''A'']) (new_DeviceHandler (Interval 0) False, fresh_run) \<noteq> None"
proof -
  have "\<forall>n \<ge> 40. o_stop busy_world n" by (simp add: busy_world_def)
  from startup_recovery [OF this] show ?thesis by blast
qed

end
