(* ===== verification/Json.thy ===== *)
theory Json
  imports JsNumber
begin

text \<open>
  JSON values and what \<open>JSON.stringify\<close> and \<open>String(x)\<close> make of them. A number is written with
  the fewest decimals that denote its double (the notation without exponent, which JavaScript
  uses for magnitudes from \<open>1e-6\<close> to \<open>1e21\<close>; decoded registers stay in that range).
\<close>

datatype json = JNull | JBool bool | JNum jsnum | JStr string | JArr "json list" | JObj "(string \<times> json) list"

definition json_prop :: "json \<Rightarrow> string \<Rightarrow> json option" where
  "json_prop v k = (case v of JObj ps \<Rightarrow> map_of ps k | _ \<Rightarrow> None)"

subsection \<open>Numbers\<close>

definition zero_padded :: "nat \<Rightarrow> nat \<Rightarrow> string" where
  "zero_padded k n = (let s = decimal_string n in replicate (k - length s) CHR ''0'' @ s)"

text \<open>\<open>m\<close> with the point before its last \<open>k\<close> digits.\<close>

definition decimals_text :: "nat \<Rightarrow> nat \<Rightarrow> string" where
  "decimals_text m k =
     (if k = 0 then decimal_string m
      else decimal_string (m div 10 ^ k) @ CHR ''.'' # zero_padded k (m mod 10 ^ k))"

definition js_decimals :: "rat \<Rightarrow> nat" where
  "js_decimals v =
     (case find (\<lambda>k. double_of (nat \<lfloor>v * 10 ^ k + 1 / 2\<rfloor>) (10 ^ k) = v) [0..<24] of
        Some k \<Rightarrow> k | None \<Rightarrow> 24)"

definition js_number_text :: "rat \<Rightarrow> string" where
  "js_number_text v =
     (let k = js_decimals \<bar>v\<bar>; t = decimals_text (nat \<lfloor>\<bar>v\<bar> * 10 ^ k + 1 / 2\<rfloor>) k
      in if v < 0 then CHR ''-'' # t else t)"

fun jsnum_text :: "jsnum \<Rightarrow> string" where
  "jsnum_text (Fin v) = js_number_text v"
| "jsnum_text PosInf = ''Infinity''"
| "jsnum_text NegInf = ''-Infinity''"
| "jsnum_text _ = ''NaN''"

subsection \<open>\<open>JSON.stringify\<close>\<close>

definition hex_digit :: "nat \<Rightarrow> char" where
  "hex_digit n = ''0123456789abcdef'' ! n"

definition json_escape :: "char \<Rightarrow> string" where
  "json_escape c =
     (let n = (of_char c :: nat)
      in if n = 34 then [char_of (92 :: nat), c]
         else if n = 92 then [c, c]
         else if n = 8 then char_of (92 :: nat) # ''b''
         else if n = 9 then char_of (92 :: nat) # ''t''
         else if n = 10 then char_of (92 :: nat) # ''n''
         else if n = 12 then char_of (92 :: nat) # ''f''
         else if n = 13 then char_of (92 :: nat) # ''r''
         else if n < 32 then char_of (92 :: nat) # ''u00'' @ [hex_digit (n div 16), hex_digit (n mod 16)]
         else [c])"

definition json_quote :: "string \<Rightarrow> string" where
  "json_quote s = CHR 0x22 # concat (map json_escape s) @ [CHR 0x22]"

fun join_with :: "string \<Rightarrow> string list \<Rightarrow> string" where
  "join_with sep [] = []"
| "join_with sep [x] = x"
| "join_with sep (x # y # xs) = x @ sep @ join_with sep (y # xs)"

fun json_text :: "json \<Rightarrow> string" where
  "json_text JNull = ''null''"
| "json_text (JBool b) = (if b then ''true'' else ''false'')"
| "json_text (JNum x) = (case x of Fin v \<Rightarrow> js_number_text v | _ \<Rightarrow> ''null'')"
| "json_text (JStr s) = json_quote s"
| "json_text (JArr xs) = CHR ''['' # join_with '','' (map json_text xs) @ '']''"
| "json_text (JObj ps) =
     CHR ''{'' # join_with '','' (map (\<lambda>(k, v). json_quote k @ CHR '':'' # json_text v) ps) @ ''}''"

subsection \<open>Decimal registers are written exactly\<close>

lemma find_first:
  assumes "P k" and "k < n"
  obtains j where "find P [0..<n] = Some j" "j \<le> k" "P j"
proof -
  from assms have "find P [0..<n] \<noteq> None" by (auto simp: find_None_iff)
  then obtain j where j: "find P [0..<n] = Some j" by auto
  then have "P j" "\<forall>i < j. \<not> P i"
    by (auto simp: find_Some_iff)
  with j assms show thesis by (intro that [of j]) (auto simp flip: not_less)
qed

lemma double_of_scaled_error:
  assumes "0 < d" and "m * c < 2 ^ 51" and "d \<le> 2 ^ 64" and "0 < c"
  shows "\<bar>double_of m d * (of_nat d * of_nat c) - of_nat (m * c)\<bar> < (1 / 2 :: rat)"
proof (cases "m = 0")
  case False
  then have le: "d \<le> m * 2 ^ 64" using assms(3) by (metis One_nat_def Suc_leI le_trans mult.commute mult_le_mono2 nat_mult_1_right neq0_conv)
  have "double_of m d * (of_nat d * of_nat c) - of_nat (m * c) = (double_of m d - of_nat m / of_nat d) * (of_nat d * of_nat c)"
    using assms(1) by (simp add: field_simps)
  then have "\<bar>double_of m d * (of_nat d * of_nat c) - of_nat (m * c)\<bar> =
      \<bar>double_of m d - of_nat m / of_nat d\<bar> * (of_nat d * of_nat c)"
    by (simp add: abs_mult)
  also have "\<dots> \<le> of_nat m / of_nat d / 2 ^ 53 * (of_nat d * of_nat c)"
    by (rule mult_right_mono [OF double_of_error [OF assms(1) le]]) simp
  also have "\<dots> = of_nat (m * c) / 2 ^ 53" using assms(1) by simp
  also have "\<dots> < 1 / 2"
  proof -
    have "rat_of_nat (m * c) < 2 ^ 51" using assms(2) by (metis of_nat_less_iff of_nat_numeral of_nat_power)
    then have "rat_of_nat (m * c) / 2 ^ 53 < 2 ^ 51 / 2 ^ 53" by (rule divide_strict_right_mono) simp
    then show ?thesis by simp
  qed
  finally show ?thesis .
qed simp

lemma nat_close: "\<bar>rat_of_nat a - of_nat b\<bar> < 1 \<Longrightarrow> a = b"
proof -
  assume "\<bar>rat_of_nat a - of_nat b\<bar> < 1"
  then have "rat_of_nat a < of_nat (b + 1)" "rat_of_nat b < of_nat (a + 1)" by (simp_all add: abs_less_iff)
  then show "a = b" unfolding of_nat_less_iff by simp
qed

lemma decimal_number_text:
  assumes s: "s \<le> 6" and w: "w < 2 ^ 30"
  shows "\<exists>k m. k \<le> s \<and> m * 10 ^ (s - k) = w \<and> js_number_text (double_of w (10 ^ s)) = decimals_text m k"
proof -
  let ?v = "double_of w (10 ^ s)"
  let ?m = "\<lambda>k. nat \<lfloor>?v * 10 ^ k + 1 / 2\<rfloor>"
  have p: "(10 :: nat) ^ s \<le> 10 ^ 6" using s by (intro power_increasing) simp_all
  then have q: "small_quotient w (10 ^ s)" using w by (simp add: small_quotient_def)
  have rec: "?m s = w" using double_of_recover [OF q] by simp
  obtain k where k: "find (\<lambda>k. double_of (?m k) (10 ^ k) = ?v) [0..<24] = Some k" "k \<le> s" "double_of (?m k) (10 ^ k) = ?v"
    by (rule find_first [of "\<lambda>k. double_of (?m k) (10 ^ k) = ?v" s 24]) (use s rec in simp_all)
  have gap: "\<bar>?v * 10 ^ s - of_nat w\<bar> < 1 / 2" using double_of_gap [OF q] by simp
  have pos: "0 \<le> ?v"
  proof (rule ccontr)
    assume "\<not> 0 \<le> ?v"
    then have "?v * 10 ^ s \<le> 0" by (simp add: mult_nonpos_nonneg)
    then have "w = 0" using gap by (auto simp: abs_less_iff)
    then show False using \<open>\<not> 0 \<le> ?v\<close> by simp
  qed
  let ?c = "10 ^ (s - k) :: nat"
  have split: "(10 :: rat) ^ s = 10 ^ k * 10 ^ (s - k)" using k(2) by (simp flip: power_add)
  have "?m k * ?c < 2 ^ 51"
  proof -
    have "?v * 10 ^ k \<le> ?v * 10 ^ s" using pos k(2) by (intro mult_left_mono power_increasing) simp_all
    moreover have "?v * 10 ^ s < of_nat w + 1 / 2" using gap by linarith
    ultimately have "?v * 10 ^ k + 1 / 2 < of_nat (w + 1)" by simp
    then have "\<lfloor>?v * 10 ^ k + 1 / 2\<rfloor> \<le> int w" by (simp add: floor_le_iff)
    then have "?m k \<le> w" by simp
    moreover have "?c \<le> 10 ^ 6" using s by (intro power_increasing) simp_all
    ultimately have "?m k * ?c \<le> w * 10 ^ 6" by (rule mult_le_mono)
    then show ?thesis using w by simp
  qed
  then have "\<bar>double_of (?m k) (10 ^ k) * (of_nat (10 ^ k) * of_nat ?c) - of_nat (?m k * ?c)\<bar> < 1 / 2"
    using k(2) s power_increasing [of k 6 "10 :: nat"] by (intro double_of_scaled_error) simp_all
  then have "\<bar>?v * 10 ^ s - of_nat (?m k * ?c)\<bar> < 1 / 2" unfolding k(3) by (simp add: split)
  with gap have "\<bar>rat_of_nat (?m k * ?c) - of_nat w\<bar> < 1" by linarith
  then have "?m k * ?c = w" using nat_close [of "?m k * ?c" w] by blast
  moreover have "js_number_text ?v = decimals_text (?m k) k"
    using pos k(1) by (simp add: js_number_text_def js_decimals_def Let_def)
  ultimately show ?thesis using k(2) by blast
qed

end
