(* ===== verification/HelperClient.thy ===== *)
theory HelperClient
  imports Json
begin

text \<open>
  The client of the native helper process (\<open>bluetooth/helper-client.ts\<close>, \<open>helper-request.ts\<close>,
  \<open>helper-line-router.ts\<close>, \<open>helper-protocol.ts\<close>): request correlation over line-delimited JSON,
  deadlines, notifications, disposal and the loss of the process, as a state machine whose events
  are the callbacks Node can run, in any order.
  A request id is the number of the request (\<open>randomUUID\<close> never repeats); an id in a line that is
  no such number is an id nobody waits for. A parsed line is given by what the router reads of it;
  reading a property of \<open>null\<close> or \<open>undefined\<close> is a \<open>TypeError\<close>, here a \<open>PlainError\<close>, which nobody
  catches in the line callback and which ends the Node process.
\<close>

subsection \<open>Messages (helper-protocol.ts)\<close>

record helper_notification =
  event_sessionId :: string
  event_uuid :: string
  event_data :: bytes

datatype helper_message =
    NotJson
  | NullMessage
  | ReadyEvent
  | NotificationEvent "(string \<times> string \<times> string) option"
  | OtherEvent string
  | ResponseMessage "nat option" "json option"
  | ErrorMessage "nat option" "(string \<times> string) option"

definition HELPER_ERROR_COMMAND_FAILED :: string where
  "HELPER_ERROR_COMMAND_FAILED = ''command_failed''"
definition DISPOSED_OBJECT_ERROR_TEXT :: string where
  "DISPOSED_OBJECT_ERROR_TEXT = ''cannot access a disposed object''"
definition HELPER_UNREACHABLE_TEXT :: string where
  "HELPER_UNREACHABLE_TEXT = ''unreachable''"
definition DEFAULT_REQUEST_TIMEOUT_MS :: int where "DEFAULT_REQUEST_TIMEOUT_MS = 30000"
definition SCAN_TIMEOUT_BUFFER_MS :: int where "SCAN_TIMEOUT_BUFFER_MS = 5000"

subsection \<open>Base64\<close>

text \<open>
  \<open>Buffer.toString("base64")\<close> and \<open>Buffer.from(s, "base64")\<close>; the decoder takes the URL-safe digits
  too, skips every other character, padding included, and drops incomplete bytes at the end.
\<close>

definition base64_alphabet :: string where
  "base64_alphabet = ''ABCDEFGHIJKLMNOPQRSTUVWXYZabcdefghijklmnopqrstuvwxyz0123456789+/''"

definition base64_char :: "nat \<Rightarrow> char" where
  "base64_char n = base64_alphabet ! n"

fun base64_encode :: "bytes \<Rightarrow> string" where
  "base64_encode [] = []"
| "base64_encode [a] =
     [base64_char (unat a div 4), base64_char ((unat a mod 4) * 16), CHR ''='', CHR ''='']"
| "base64_encode [a, b] =
     [base64_char (unat a div 4), base64_char ((unat a mod 4) * 16 + unat b div 16),
      base64_char ((unat b mod 16) * 4), CHR ''='']"
| "base64_encode (a # b # c # rest) =
     [base64_char (unat a div 4), base64_char ((unat a mod 4) * 16 + unat b div 16),
      base64_char ((unat b mod 16) * 4 + unat c div 64), base64_char (unat c mod 64)]
     @ base64_encode rest"

fun position_of :: "char \<Rightarrow> char list \<Rightarrow> nat option" where
  "position_of c [] = None"
| "position_of c (x # xs) = (if c = x then Some 0 else map_option Suc (position_of c xs))"

definition base64_digit :: "char \<Rightarrow> nat option" where
  "base64_digit c = (if c = CHR ''-'' then Some 62 else if c = CHR ''_'' then Some 63
     else position_of c base64_alphabet)"

definition base64_digits :: "string \<Rightarrow> nat list" where
  "base64_digits s = List.map_filter base64_digit s"

fun base64_bytes :: "nat list \<Rightarrow> bytes" where
  "base64_bytes (p # q # r # t # rest) =
     [of_nat (p * 4 + q div 16), of_nat ((q mod 16) * 16 + r div 4), of_nat ((r mod 4) * 64 + t)]
     @ base64_bytes rest"
| "base64_bytes [p, q, r] = [of_nat (p * 4 + q div 16), of_nat ((q mod 16) * 16 + r div 4)]"
| "base64_bytes [p, q] = [of_nat (p * 4 + q div 16)]"
| "base64_bytes _ = []"

definition base64_decode :: "string \<Rightarrow> bytes" where
  "base64_decode s = base64_bytes (base64_digits s)"

subsection \<open>State\<close>

datatype ready_promise = ReadyPending | ReadyResolved | ReadyRejected js_error

record helper_client =
  ready :: ready_promise
  readyResolved :: bool
  disposeRequested :: bool
  process_killed :: bool
  process_crashed :: bool
  issued :: nat
  awaiting_ready :: "(nat \<times> string) list"
  pending :: "(nat \<times> string) list"
  deadlines :: "nat list"
  stdin_lines :: "(nat \<times> string) list"
  request_outcomes :: "(nat \<times> json option result) list"
  notificationListeners :: "nat list"
  delivered :: "(nat \<times> helper_notification) list"

definition new_WindowsHelperClient :: helper_client where
  "new_WindowsHelperClient = \<lparr>ready = ReadyPending, readyResolved = False, disposeRequested = False,
     process_killed = False, process_crashed = False, issued = 0, awaiting_ready = [], pending = [],
     deadlines = [], stdin_lines = [], request_outcomes = [], notificationListeners = [], delivered = []\<rparr>"

text \<open>A promise settles once; the first settlement of \<open>ready\<close> counts.\<close>

definition settle_ready :: "ready_promise \<Rightarrow> helper_client \<Rightarrow> helper_client" where
  "settle_ready r c = (if ready c = ReadyPending then c\<lparr>ready := r\<rparr> else c)"

definition settle_request :: "nat \<Rightarrow> json option result \<Rightarrow> helper_client \<Rightarrow> helper_client" where
  "settle_request n r c = c\<lparr>request_outcomes := (n, r) # request_outcomes c\<rparr>"

subsection \<open>Requests (helper-request.ts)\<close>

text \<open>\<open>sendHelperRequest\<close> up to \<open>await ready\<close>.\<close>

definition sendHelperRequest :: "string \<Rightarrow> helper_client \<Rightarrow> helper_client" where
  "sendHelperRequest cmd c =
     (let n = issued c; c = c\<lparr>issued := n + 1\<rparr>
      in if disposeRequested c
         then settle_request n (Inl (PlainError ''Windows BLE helper disposed'')) c
         else c\<lparr>awaiting_ready := (n, cmd) # awaiting_ready c\<rparr>)"

text \<open>The rest of it: correlation state first, then the line; a failing write undoes it.\<close>

definition request_resumed :: "nat \<Rightarrow> string \<Rightarrow> js_error option \<Rightarrow> helper_client \<Rightarrow> helper_client" where
  "request_resumed n cmd write_error c =
     (let c = c\<lparr>awaiting_ready := obj_delete n (awaiting_ready c)\<rparr>
      in case ready c of
           ReadyRejected e \<Rightarrow> settle_request n (Inl e) c
         | _ \<Rightarrow>
             (let c = c\<lparr>pending := obj_set n cmd (pending c), deadlines := n # deadlines c\<rparr>
              in case write_error of
                   None \<Rightarrow> c\<lparr>stdin_lines := stdin_lines c @ [(n, cmd)]\<rparr>
                 | Some e \<Rightarrow> settle_request n (Inl e)
                     (c\<lparr>deadlines := removeAll n (deadlines c), pending := obj_delete n (pending c)\<rparr>)))"

definition request_timed_out :: "nat \<Rightarrow> helper_client \<Rightarrow> helper_client" where
  "request_timed_out n c =
     (let c = c\<lparr>deadlines := removeAll n (deadlines c)\<rparr>
      in case map_of (pending c) n of
           None \<Rightarrow> c
         | Some cmd \<Rightarrow> settle_request n
             (Inl (BadConnectionError (''Windows BLE helper request timed out: '' @ cmd)))
             (c\<lparr>pending := obj_delete n (pending c)\<rparr>))"

fun reject_entries :: "(nat \<times> string) list \<Rightarrow> js_error \<Rightarrow> helper_client \<Rightarrow> helper_client" where
  "reject_entries [] e c = c"
| "reject_entries ((n, cmd) # rest) e c =
     reject_entries rest e (settle_request n (Inl e) (c\<lparr>deadlines := removeAll n (deadlines c)\<rparr>))"

definition rejectPendingRequests :: "js_error \<Rightarrow> helper_client \<Rightarrow> helper_client" where
  "rejectPendingRequests e c = (reject_entries (pending c) e c)\<lparr>pending := []\<rparr>"

subsection \<open>Lines (helper-line-router.ts)\<close>

definition isRecoverableBluetoothConnectionError :: "string \<Rightarrow> string \<Rightarrow> bool" where
  "isRecoverableBluetoothConnectionError code message \<longleftrightarrow>
     code = HELPER_ERROR_COMMAND_FAILED \<and>
     (str_includes (to_lower message) DISPOSED_OBJECT_ERROR_TEXT \<or>
      str_includes (to_lower message) HELPER_UNREACHABLE_TEXT)"

definition createHelperError :: "string \<Rightarrow> string \<Rightarrow> js_error" where
  "createHelperError code message =
     (let details = code @ '': '' @ message
      in if isRecoverableBluetoothConnectionError code message then BadConnectionError details
         else PlainError details)"

fun routeHelperEvent :: "helper_message \<Rightarrow> helper_client \<Rightarrow> helper_client" where
  "routeHelperEvent ReadyEvent c = settle_ready ReadyResolved (c\<lparr>readyResolved := True\<rparr>)"
| "routeHelperEvent (NotificationEvent (Some (sid, uuid, dataBase64))) c =
     (let event = \<lparr>event_sessionId = sid, event_uuid = uuid, event_data = base64_decode dataBase64\<rparr>
      in c\<lparr>delivered := delivered c @ map (\<lambda>l. (l, event)) (notificationListeners c)\<rparr>)"
| "routeHelperEvent _ c = c"

text \<open>The entry of a line's id is removed, its timer cleared, and its promise settled.\<close>

definition take_pending :: "nat \<Rightarrow> helper_client \<Rightarrow> helper_client" where
  "take_pending n c = c\<lparr>pending := obj_delete n (pending c), deadlines := removeAll n (deadlines c)\<rparr>"

fun routeHelperLine :: "helper_message \<Rightarrow> helper_client \<Rightarrow> helper_client" where
  "routeHelperLine NotJson c =
     (if readyResolved c then c else settle_ready (ReadyRejected (PlainError ''Unexpected token'')) c)"
| "routeHelperLine NullMessage c = c\<lparr>process_crashed := True\<rparr>"
| "routeHelperLine (ResponseMessage None payload) c = c"
| "routeHelperLine (ResponseMessage (Some n) payload) c =
     (if map_of (pending c) n = None then c else settle_request n (Inr payload) (take_pending n c))"
| "routeHelperLine (ErrorMessage None err) c = c"
| "routeHelperLine (ErrorMessage (Some n) err) c =
     (if map_of (pending c) n = None then c
      else (case err of
              Some (code, message) \<Rightarrow> settle_request n (Inl (createHelperError code message)) (take_pending n c)
            | None \<Rightarrow> (take_pending n c)\<lparr>process_crashed := True\<rparr>))"
| "routeHelperLine m c = routeHelperEvent m c"

subsection \<open>The process (helper-client.ts)\<close>

definition process_error :: "js_error \<Rightarrow> helper_client \<Rightarrow> helper_client" where
  "process_error e c =
     rejectPendingRequests e (if readyResolved c then c else settle_ready (ReadyRejected e) c)"

definition process_exit :: "helper_client \<Rightarrow> helper_client" where
  "process_exit c =
     (if disposeRequested c
      then (if readyResolved c then c
            else settle_ready (ReadyRejected (PlainError ''Windows BLE helper was disposed before becoming ready'')) c)
             \<lparr>pending := []\<rparr>
      else process_error (PlainError ''Windows BLE helper exited'') c)"

definition dispose :: "helper_client \<Rightarrow> helper_client" where
  "dispose c =
     (rejectPendingRequests (PlainError ''Windows BLE helper disposed'') (c\<lparr>disposeRequested := True\<rparr>))
       \<lparr>notificationListeners := [], process_killed := True\<rparr>"

definition onNotification :: "nat \<Rightarrow> helper_client \<Rightarrow> helper_client" where
  "onNotification l c =
     c\<lparr>notificationListeners := (if l \<in> set (notificationListeners c) then notificationListeners c
                                 else notificationListeners c @ [l])\<rparr>"

definition remove_listener :: "nat \<Rightarrow> helper_client \<Rightarrow> helper_client" where
  "remove_listener l c = c\<lparr>notificationListeners := removeAll l (notificationListeners c)\<rparr>"

subsection \<open>Events\<close>

datatype helper_event =
    Request string
  | RequestResumes nat "js_error option"
  | DeadlineExpires nat
  | Line helper_message
  | ProcessError js_error
  | StdinError js_error
  | ProcessExit
  | Dispose
  | Listen nat
  | Unlisten nat

fun helper_step :: "helper_event \<Rightarrow> helper_client \<Rightarrow> helper_client option" where
  "helper_step ev c =
     (if process_crashed c then None
      else (case ev of
        Request cmd \<Rightarrow> Some (sendHelperRequest cmd c)
      | RequestResumes n write_error \<Rightarrow>
          (case map_of (awaiting_ready c) n of
             Some cmd \<Rightarrow> if ready c = ReadyPending then None else Some (request_resumed n cmd write_error c)
           | None \<Rightarrow> None)
      | DeadlineExpires n \<Rightarrow> if n \<in> set (deadlines c) then Some (request_timed_out n c) else None
      | Line m \<Rightarrow> Some (routeHelperLine m c)
      | ProcessError e \<Rightarrow> Some (process_error e c)
      | StdinError e \<Rightarrow> Some (rejectPendingRequests e c)
      | ProcessExit \<Rightarrow> Some (process_exit c)
      | Dispose \<Rightarrow> Some (dispose c)
      | Listen l \<Rightarrow> Some (onNotification l c)
      | Unlisten l \<Rightarrow> Some (remove_listener l c)))"

declare helper_step.simps [simp del]

fun helper_run :: "helper_event list \<Rightarrow> helper_client \<Rightarrow> helper_client option" where
  "helper_run [] c = Some c"
| "helper_run (ev # es) c = (case helper_step ev c of None \<Rightarrow> None | Some c \<Rightarrow> helper_run es c)"

subsection \<open>Typed requests\<close>

fun is_jstring :: "json option \<Rightarrow> bool" where
  "is_jstring (Some (JStr s)) = True"
| "is_jstring _ = False"

definition isHelperScanDevice :: "json \<Rightarrow> bool" where
  "isHelperScanDevice v \<longleftrightarrow> is_jstring (json_prop v ''address'') \<and> is_jstring (json_prop v ''name'')"

definition isHelperConnectPayload :: "json \<Rightarrow> bool" where
  "isHelperConnectPayload v \<longleftrightarrow> is_jstring (json_prop v ''sessionId'') \<and>
     is_jstring (json_prop v ''address'') \<and> is_jstring (json_prop v ''name'')"

text \<open>What \<open>scan\<close>, \<open>connect\<close> and \<open>readCharacteristic\<close> make of a request's payload.\<close>

definition scan_timeout :: "int \<Rightarrow> int \<Rightarrow> int" where
  "scan_timeout requestTimeoutMs timeoutMs = max requestTimeoutMs (timeoutMs + SCAN_TIMEOUT_BUFFER_MS)"

definition scan_devices :: "json option \<Rightarrow> json list" where
  "scan_devices payload =
     (case payload of
        None \<Rightarrow> []
      | Some v \<Rightarrow> (case json_prop v ''devices'' of
            Some (JArr ds) \<Rightarrow> filter isHelperScanDevice ds | _ \<Rightarrow> []))"

definition connect_payload :: "json option \<Rightarrow> string result" where
  "connect_payload payload =
     (case payload of
        Some v \<Rightarrow> (case json_prop v ''sessionId'' of
            Some (JStr sid) \<Rightarrow> if isHelperConnectPayload v then Inr sid
                               else Inl (PlainError ''Helper returned an invalid connect payload'')
          | _ \<Rightarrow> Inl (PlainError ''Helper returned an invalid connect payload''))
      | None \<Rightarrow> Inl (PlainError ''Helper returned an invalid connect payload''))"

definition read_payload :: "json option \<Rightarrow> bytes result" where
  "read_payload payload =
     (case payload of
        Some v \<Rightarrow> (case json_prop v ''dataBase64'' of
            Some (JStr s) \<Rightarrow> Inr (base64_decode s)
          | _ \<Rightarrow> Inl (PlainError ''Helper returned an invalid readCharacteristic payload''))
      | None \<Rightarrow> Inl (PlainError ''Helper returned an invalid readCharacteristic payload''))"

text \<open>\<open>dataBase64\<close> of a \<open>writeCharacteristic\<close> request.\<close>

definition write_arguments :: "string \<Rightarrow> string \<Rightarrow> bytes \<Rightarrow> bool \<Rightarrow> json" where
  "write_arguments sid uuid d withoutResponse =
     JObj [(''sessionId'', JStr sid), (''uuid'', JStr uuid), (''dataBase64'', JStr (base64_encode d)),
           (''withoutResponse'', JBool withoutResponse)]"

text \<open>
  The command that starts the helper, from the trimmed environment variable and whether the
  published executable is there; the two paths are data of the installation.
\<close>

definition resolveDefaultHelperCommand :: "string option \<Rightarrow> bool \<Rightarrow> string \<Rightarrow> string \<Rightarrow> string list" where
  "resolveDefaultHelperCommand helperOverride published published_path project =
     (case helperOverride of
        Some (c # cs) \<Rightarrow> [c # cs]
      | _ \<Rightarrow> if published then [published_path]
             else [''dotnet'', ''run'', ''--project'', project])"

subsection \<open>Base64 is read back\<close>

lemma base64_position: "n < 64 \<Longrightarrow> base64_digit (base64_char n) = Some n"
proof -
  have "list_all (\<lambda>n. base64_digit (base64_char n) = Some n) [0..<64]"
    by (simp add: base64_digit_def base64_char_def base64_alphabet_def upt_rec)
  then show "n < 64 \<Longrightarrow> ?thesis" by (simp add: list_all_iff)
qed

lemma base64_digits_simps [simp]:
  "base64_digits [] = []"
  "n < 64 \<Longrightarrow> base64_digits (base64_char n # s) = n # base64_digits s"
  "base64_digits (CHR ''='' # s) = base64_digits s"
  by (simp_all add: base64_digits_def List.map_filter_simps base64_position)
    (simp add: base64_digit_def base64_alphabet_def)

lemma join_div: "k < n \<Longrightarrow> (m * n + k) div n = (m :: nat)" and join_mod: "k < n \<Longrightarrow> (m * n + k) mod n = (k :: nat)"
  by simp_all

lemma byte_less: "unat (a :: byte) < 256"
  using unsigned_less [where 'a = nat, of a] by simp

lemma byte_quarters [simp]:
  "unat (a :: byte) div 4 < 64" "unat a div 16 < 16" "unat a div 64 < 4"
  using byte_less [of a] by (simp_all add: less_mult_imp_div_less)

lemma digit_bounds [simp]:
  "k < 16 \<Longrightarrow> m mod 4 * 16 + k < 64" "j < 4 \<Longrightarrow> m mod 16 * 4 + j < (64 :: nat)"
  "m mod 4 * 16 < 64" "m mod 16 * 4 < (64 :: nat)" for m k j :: nat
proof -
  have m: "m mod 4 \<le> 3" "m mod 16 \<le> 15" by simp_all
  show "k < 16 \<Longrightarrow> m mod 4 * 16 + k < 64" "j < 4 \<Longrightarrow> m mod 16 * 4 + j < 64"
    "m mod 4 * 16 < 64" "m mod 16 * 4 < 64" using m by linarith+
qed

lemma byte_join1: "k < 16 \<Longrightarrow> of_nat (unat (a :: byte) div 4 * 4 + (unat a mod 4 * 16 + k) div 16) = a"
  by (simp only: join_div div_mult_mod_eq) simp

lemma byte_join2:
  "j < 4 \<Longrightarrow> of_nat ((m * 16 + unat (b :: byte) div 16) mod 16 * 16 + (unat b mod 16 * 4 + j) div 4) = b"
  by (simp only: join_div join_mod [OF byte_quarters(2)] div_mult_mod_eq) simp

lemma byte_join3: "of_nat ((m * 4 + unat (c :: byte) div 64) mod 4 * 64 + unat c mod 64) = c"
  by (simp only: join_mod [OF byte_quarters(3)] div_mult_mod_eq) simp

lemma byte_join_last: "of_nat (unat (a :: byte) div 4 * 4 + unat a mod 4 * 16 div 16) = a"
  "of_nat ((m * 16 + unat (b :: byte) div 16) mod 16 * 16 + unat b mod 16 * 4 div 4) = b"
  using byte_join1 [of 0 a] byte_join2 [of 0 m b] by simp_all

lemma base64_read_back: "base64_bytes (base64_digits (base64_encode d)) = d"
proof (induction d rule: base64_encode.induct)
  case (2 a)
  then show ?case by (simp add: byte_join_last del: of_nat_add)
next
  case (3 a b)
  then show ?case by (simp add: byte_join1 byte_join_last del: of_nat_add)
next
  case (4 a b c rest)
  then show ?case by (simp add: byte_join1 byte_join2 byte_join3 del: of_nat_add)
qed simp

subsection \<open>Every request is accounted for\<close>

text \<open>
  The ids that wait for \<open>ready\<close>, that are pending, that have an outcome, and the armed deadlines:
  no id is in two of the first three or twice in one, none is from the future, and every pending
  request has its deadline armed; \<open>requests_complete\<close>: no request has been lost.
\<close>

definition ids_ok :: "nat list \<Rightarrow> nat list \<Rightarrow> nat list \<Rightarrow> nat list \<Rightarrow> nat \<Rightarrow> bool" where
  "ids_ok aw pe ou dl N \<longleftrightarrow> distinct (aw @ pe @ ou) \<and> set aw \<union> set pe \<union> set ou \<subseteq> {..<N} \<and>
     distinct dl \<and> set pe \<subseteq> set dl \<and> set dl \<subseteq> {..<N} \<and> set aw \<inter> set dl = {}"

definition helper_inv :: "helper_client \<Rightarrow> bool" where
  "helper_inv c \<longleftrightarrow> ids_ok (map fst (awaiting_ready c)) (map fst (pending c)) (map fst (request_outcomes c))
     (deadlines c) (issued c)"

definition requests_complete :: "helper_client \<Rightarrow> bool" where
  "requests_complete c \<longleftrightarrow> {..<issued c} \<subseteq> set (map fst (awaiting_ready c)) \<union> set (map fst (pending c)) \<union>
     set (map fst (request_outcomes c))"

lemma ids_send: "ids_ok aw pe ou dl N \<Longrightarrow> ids_ok (N # aw) pe ou dl (Suc N)"
  "ids_ok aw pe ou dl N \<Longrightarrow> ids_ok aw pe (N # ou) dl (Suc N)"
  by (auto simp: ids_ok_def less_Suc_eq)

lemma ids_settle_waiting: "\<lbrakk>ids_ok aw pe ou dl N; n \<in> set aw\<rbrakk> \<Longrightarrow> ids_ok (filter (\<lambda>x. x \<noteq> n) aw) pe (n # ou) dl N"
  by (auto simp: ids_ok_def)

lemma ids_register:
  "\<lbrakk>ids_ok aw pe ou dl N; n \<in> set aw\<rbrakk> \<Longrightarrow> ids_ok (filter (\<lambda>x. x \<noteq> n) aw) (pe @ [n]) ou (n # dl) N"
  by (auto simp: ids_ok_def)

lemma ids_settle_pending:
  "\<lbrakk>ids_ok aw pe ou dl N; n \<in> set pe\<rbrakk> \<Longrightarrow> ids_ok aw (filter (\<lambda>x. x \<noteq> n) pe) (n # ou) (removeAll n dl) N"
  by (auto simp: ids_ok_def distinct_removeAll)

lemma ids_deadline: "\<lbrakk>ids_ok aw pe ou dl N; n \<notin> set pe\<rbrakk> \<Longrightarrow> ids_ok aw pe ou (removeAll n dl) N"
  by (auto simp: ids_ok_def distinct_removeAll)

lemma ids_reject:
  "ids_ok aw pe ou dl N \<Longrightarrow> ids_ok aw [] (rev pe @ ou) (filter (\<lambda>n. n \<notin> set pe) dl) N"
  by (auto simp: ids_ok_def)

lemma keys_delete: "map fst (obj_delete k ps) = filter (\<lambda>x. x \<noteq> k) (map fst ps)"
  by (induction ps) auto

lemma keys_set_absent: "k \<notin> fst ` set ps \<Longrightarrow> map fst (obj_set k v ps) = map fst ps @ [k]"
  by (induction ps) auto

lemma map_of_key: "map_of ps k = Some v \<Longrightarrow> k \<in> set (map fst ps)"
  by (metis dom_map_of_conv_image_fst domI set_map)

lemma map_of_key_iff: "map_of ps k = None \<longleftrightarrow> k \<notin> set (map fst ps)"
  by (simp add: map_of_eq_None_iff)

lemma reject_entries_simps [simp]:
  "awaiting_ready (reject_entries es e c) = awaiting_ready c"
  "issued (reject_entries es e c) = issued c"
  "ready (reject_entries es e c) = ready c"
  "readyResolved (reject_entries es e c) = readyResolved c"
  "disposeRequested (reject_entries es e c) = disposeRequested c"
  "process_crashed (reject_entries es e c) = process_crashed c"
  "request_outcomes (reject_entries es e c) = rev (map (\<lambda>(n, cmd). (n, Inl e)) es) @ request_outcomes c"
  "deadlines (reject_entries es e c) = filter (\<lambda>n. n \<notin> set (map fst es)) (deadlines c)"
  by (induction es arbitrary: c)
    (auto simp: settle_request_def removeAll_filter_not_eq intro!: filter_cong)

lemma rejectPending_simps [simp]:
  "awaiting_ready (rejectPendingRequests e c) = awaiting_ready c"
  "pending (rejectPendingRequests e c) = []"
  "issued (rejectPendingRequests e c) = issued c"
  "ready (rejectPendingRequests e c) = ready c"
  "readyResolved (rejectPendingRequests e c) = readyResolved c"
  "disposeRequested (rejectPendingRequests e c) = disposeRequested c"
  "process_crashed (rejectPendingRequests e c) = process_crashed c"
  "request_outcomes (rejectPendingRequests e c) =
     rev (map (\<lambda>(n, cmd). (n, Inl e)) (pending c)) @ request_outcomes c"
  "deadlines (rejectPendingRequests e c) = filter (\<lambda>n. n \<notin> set (map fst (pending c))) (deadlines c)"
  by (simp_all add: rejectPendingRequests_def)

lemma rejected_keys [simp]: "map fst (rev (map (\<lambda>(n, cmd). (n, Inl e)) ps)) = rev (map fst ps)"
  by (simp add: rev_map comp_def split_def)

lemma reject_inv:
  "helper_inv c \<Longrightarrow> helper_inv (rejectPendingRequests e c)"
  "requests_complete c \<Longrightarrow> requests_complete (rejectPendingRequests e c)"
proof -
  show "helper_inv c \<Longrightarrow> helper_inv (rejectPendingRequests e c)"
    using ids_reject unfolding helper_inv_def rejectPending_simps map_append rejected_keys by (simp del: set_map)
  show "requests_complete c \<Longrightarrow> requests_complete (rejectPendingRequests e c)"
    unfolding requests_complete_def rejectPending_simps map_append rejected_keys by auto
qed

lemma settle_ready_simps [simp]:
  "awaiting_ready (settle_ready r c) = awaiting_ready c" "pending (settle_ready r c) = pending c"
  "issued (settle_ready r c) = issued c" "deadlines (settle_ready r c) = deadlines c"
  "request_outcomes (settle_ready r c) = request_outcomes c"
  "disposeRequested (settle_ready r c) = disposeRequested c"
  "process_crashed (settle_ready r c) = process_crashed c"
  "readyResolved (settle_ready r c) = readyResolved c"
  by (simp_all add: settle_ready_def)

lemma take_settle_inv:
  assumes "n \<in> set (map fst (pending c))"
  shows "helper_inv c \<Longrightarrow> helper_inv (settle_request n r (take_pending n c))"
    and "requests_complete c \<Longrightarrow> requests_complete (settle_request n r (take_pending n c))"
  using assms ids_settle_pending
  by (auto simp: helper_inv_def requests_complete_def settle_request_def take_pending_def keys_delete simp del: set_map)

lemma send_inv:
  "helper_inv c \<Longrightarrow> helper_inv (sendHelperRequest cmd c)"
  "requests_complete c \<Longrightarrow> requests_complete (sendHelperRequest cmd c)"
  by (auto simp: helper_inv_def requests_complete_def sendHelperRequest_def settle_request_def Let_def ids_send
      lessThan_Suc)

lemma timed_out_inv:
  "helper_inv c \<Longrightarrow> helper_inv (request_timed_out n c)"
  "requests_complete c \<Longrightarrow> requests_complete (request_timed_out n c)"
  by (auto simp: helper_inv_def requests_complete_def request_timed_out_def settle_request_def Let_def keys_delete
      map_of_key map_of_key_iff ids_settle_pending ids_deadline simp del: set_map split: option.split)

lemma resumed_inv:
  assumes inv: "helper_inv c" and n: "n \<in> set (map fst (awaiting_ready c))"
  shows "helper_inv (request_resumed n cmd we c)" and "requests_complete c \<Longrightarrow> requests_complete (request_resumed n cmd we c)"
proof -
  have fresh: "n \<notin> set (map fst (pending c))" "n \<notin> set (deadlines c)"
    using inv n by (auto simp: helper_inv_def ids_ok_def)
  then have keys: "map fst (obj_set n cmd (pending c)) = map fst (pending c) @ [n]"
    by (simp add: keys_set_absent)
  have undo: "filter (\<lambda>x. x \<noteq> n) (map fst (pending c) @ [n]) = map fst (pending c)"
    "removeAll n (n # deadlines c) = deadlines c"
    using fresh by (auto simp: filter_id_conv)
  note d = request_resumed_def settle_request_def Let_def keys_delete keys
  show "helper_inv (request_resumed n cmd we c)"
    using inv ids_register [OF _ n] ids_settle_waiting [OF _ n] undo
    by (cases "ready c"; cases we) (simp_all add: helper_inv_def d del: set_map)
  show "requests_complete c \<Longrightarrow> requests_complete (request_resumed n cmd we c)"
    using n undo by (cases "ready c"; cases we) (auto simp: requests_complete_def d simp del: set_map)
qed

lemma helper_inv_frame:
  assumes "awaiting_ready c' = awaiting_ready c" "pending c' = pending c" "issued c' = issued c"
    "deadlines c' = deadlines c" "request_outcomes c' = request_outcomes c"
  shows "helper_inv c' = helper_inv c" and "requests_complete c' = requests_complete c"
  using assms by (simp_all add: helper_inv_def requests_complete_def)

lemma settle_ready_inv [simp]:
  "helper_inv (settle_ready r c) = helper_inv c" "requests_complete (settle_ready r c) = requests_complete c"
  by (rule helper_inv_frame; simp)+

lemma route_event_inv [simp]:
  "helper_inv (routeHelperEvent m c) = helper_inv c" "requests_complete (routeHelperEvent m c) = requests_complete c"
  by (cases "(m, c)" rule: routeHelperEvent.cases; simp add: helper_inv_def requests_complete_def Let_def)+

lemma ready_event_inv:
  "helper_inv (c\<lparr>readyResolved := True\<rparr>) = helper_inv c"
  "requests_complete (c\<lparr>readyResolved := True\<rparr>) = requests_complete c"
  by (simp_all add: helper_inv_def requests_complete_def)

lemma crash_inv: "helper_inv (c\<lparr>process_crashed := True\<rparr>) = helper_inv c"
  by (simp add: helper_inv_def)

lemma take_inv:
  "\<lbrakk>helper_inv c; n \<in> set (map fst (pending c))\<rbrakk> \<Longrightarrow> helper_inv (take_pending n c)"
  by (auto simp: helper_inv_def take_pending_def keys_delete ids_ok_def distinct_removeAll)

lemma route_pending_inv:
  assumes "helper_inv c" and "n \<in> set (map fst (pending c))"
  shows "helper_inv (settle_request n r (take_pending n c))"
    and "helper_inv ((take_pending n c)\<lparr>process_crashed := True\<rparr>)"
  using take_settle_inv(1) [OF assms(2,1)] take_inv [OF assms] crash_inv by simp_all

lemma route_inv: "helper_inv c \<Longrightarrow> helper_inv (routeHelperLine m c)"
proof (cases "(m, c)" rule: routeHelperLine.cases)
  case (4 n payload c')
  then show "helper_inv c \<Longrightarrow> ?thesis"
    by (cases "map_of (pending c) n") (simp_all add: route_pending_inv map_of_key del: set_map)
next
  case (6 n err c')
  then show "helper_inv c \<Longrightarrow> ?thesis"
    by (cases "map_of (pending c) n"; cases err) (auto simp: route_pending_inv map_of_key simp del: set_map)
qed (simp_all add: crash_inv ready_event_inv)

lemma route_complete: "\<lbrakk>requests_complete c; \<not> process_crashed (routeHelperLine m c)\<rbrakk> \<Longrightarrow> requests_complete (routeHelperLine m c)"
proof (cases "(m, c)" rule: routeHelperLine.cases)
  case (4 n payload c')
  then show "\<lbrakk>requests_complete c; \<not> process_crashed (routeHelperLine m c)\<rbrakk> \<Longrightarrow> ?thesis"
    by (cases "map_of (pending c) n") (simp_all add: take_settle_inv(2) map_of_key del: set_map)
next
  case (6 n err c')
  then show "\<lbrakk>requests_complete c; \<not> process_crashed (routeHelperLine m c)\<rbrakk> \<Longrightarrow> ?thesis"
    by (cases "map_of (pending c) n"; cases err) (auto simp: take_settle_inv(2) map_of_key simp del: set_map)
qed (simp_all add: ready_event_inv)

lemma process_error_inv:
  "helper_inv c \<Longrightarrow> helper_inv (process_error e c)" "requests_complete c \<Longrightarrow> requests_complete (process_error e c)"
  by (simp_all add: process_error_def reject_inv)

lemma process_exit_inv:
  "helper_inv c \<Longrightarrow> helper_inv (process_exit c)"
  "\<lbrakk>requests_complete c; \<not> disposeRequested c\<rbrakk> \<Longrightarrow> requests_complete (process_exit c)"
proof -
  have drop: "ids_ok aw pe ou dl N \<Longrightarrow> ids_ok aw [] ou dl N" for aw pe ou dl N by (auto simp: ids_ok_def)
  show "helper_inv c \<Longrightarrow> helper_inv (process_exit c)"
  proof (cases "disposeRequested c")
    case True
    then show "helper_inv c \<Longrightarrow> helper_inv (process_exit c)"
      using drop by (simp add: process_exit_def helper_inv_def del: set_map)
  qed (simp add: process_exit_def process_error_inv)
  show "\<lbrakk>requests_complete c; \<not> disposeRequested c\<rbrakk> \<Longrightarrow> requests_complete (process_exit c)"
    by (simp add: process_exit_def process_error_inv)
qed

lemma dispose_inv:
  "helper_inv c \<Longrightarrow> helper_inv (dispose c)" "requests_complete c \<Longrightarrow> requests_complete (dispose c)"
proof -
  let ?c = "rejectPendingRequests (PlainError ''Windows BLE helper disposed'') (c\<lparr>disposeRequested := True\<rparr>)"
  have same: "helper_inv (dispose c) = helper_inv ?c" "requests_complete (dispose c) = requests_complete ?c"
    by (simp_all add: dispose_def helper_inv_def requests_complete_def)
  have "helper_inv (c\<lparr>disposeRequested := True\<rparr>) = helper_inv c" "requests_complete (c\<lparr>disposeRequested := True\<rparr>) = requests_complete c"
    by (simp_all add: helper_inv_def requests_complete_def)
  then show "helper_inv c \<Longrightarrow> helper_inv (dispose c)" "requests_complete c \<Longrightarrow> requests_complete (dispose c)"
    using reject_inv same by simp_all
qed

lemma listener_inv [simp]:
  "helper_inv (onNotification l c) = helper_inv c" "requests_complete (onNotification l c) = requests_complete c"
  "helper_inv (remove_listener l c) = helper_inv c" "requests_complete (remove_listener l c) = requests_complete c"
  by (simp_all add: onNotification_def remove_listener_def helper_inv_def requests_complete_def)

lemma helper_step_inv:
  assumes "helper_step ev c = Some c'" and "helper_inv c"
  shows "helper_inv c'"
    and "\<lbrakk>requests_complete c; \<not> process_crashed c'; \<not> (ev = ProcessExit \<and> disposeRequested c)\<rbrakk> \<Longrightarrow> requests_complete c'"
  using assms
  by (cases ev; auto simp: helper_step.simps send_inv resumed_inv map_of_key timed_out_inv route_inv route_complete
      process_error_inv reject_inv process_exit_inv dispose_inv simp del: set_map
      split: if_splits option.splits)+

lemma route_event_simps [simp]:
  "disposeRequested (routeHelperEvent m c) = disposeRequested c"
  "request_outcomes (routeHelperEvent m c) = request_outcomes c"
  by (cases "(m, c)" rule: routeHelperEvent.cases; simp add: Let_def)+

lemma route_dispose [simp]: "disposeRequested (routeHelperLine m c) = disposeRequested c"
  by (cases "(m, c)" rule: routeHelperLine.cases)
    (simp_all add: settle_request_def take_pending_def split: option.split prod.split)

lemma route_response:
  "(n, Inr p) \<in> set (request_outcomes (routeHelperLine m c)) \<Longrightarrow>
   (n, Inr p) \<in> set (request_outcomes c) \<or> m = ResponseMessage (Some n) p"
  by (cases "(m, c)" rule: routeHelperLine.cases)
    (auto simp: settle_request_def take_pending_def split: option.splits if_splits)

lemma step_dispose:
  "helper_step ev c = Some c' \<Longrightarrow> disposeRequested c' \<Longrightarrow> disposeRequested c \<or> ev = Dispose"
  by (cases ev)
    (auto simp: helper_step.simps sendHelperRequest_def request_resumed_def request_timed_out_def
      settle_request_def process_error_def process_exit_def onNotification_def remove_listener_def Let_def
      dispose_def split: if_splits option.splits ready_promise.splits)

lemma step_crash: "helper_step ev c = Some c' \<Longrightarrow> \<not> process_crashed c"
  by (auto simp: helper_step.simps split: if_splits)

lemma helper_run_inv:
  "\<lbrakk>helper_run es c = Some c'; helper_inv c\<rbrakk> \<Longrightarrow> helper_inv c'"
  by (induction es arbitrary: c) (auto split: option.splits dest: helper_step_inv(1))

lemma run_crash: "\<lbrakk>helper_run es c = Some c'; \<not> process_crashed c'\<rbrakk> \<Longrightarrow> \<not> process_crashed c"
  by (cases es) (auto split: option.splits dest: step_crash)

lemma helper_run_complete:
  "\<lbrakk>helper_run es c = Some c'; helper_inv c; requests_complete c; \<not> process_crashed c';
    ProcessExit \<notin> set es \<or> Dispose \<notin> set es \<and> \<not> disposeRequested c\<rbrakk> \<Longrightarrow> requests_complete c'"
proof (induction es arbitrary: c)
  case (Cons ev es)
  then obtain c1 where c1: "helper_step ev c = Some c1" "helper_run es c1 = Some c'"
    by (auto split: option.splits)
  have "\<not> process_crashed c1" using run_crash [OF c1(2)] Cons.prems by simp
  then have "requests_complete c1" "helper_inv c1"
    using helper_step_inv [OF c1(1)] Cons.prems by auto
  moreover have "ProcessExit \<notin> set es \<or> Dispose \<notin> set es \<and> \<not> disposeRequested c1"
    using Cons.prems(5) step_dispose [OF c1(1)] by auto
  ultimately show ?case using Cons.IH c1(2) Cons.prems(4) by simp
qed simp

subsection \<open>Responses reach their own request\<close>

lemma step_response:
  "\<lbrakk>helper_step ev c = Some c'; (n, Inr p) \<in> set (request_outcomes c')\<rbrakk> \<Longrightarrow>
   (n, Inr p) \<in> set (request_outcomes c) \<or> ev = Line (ResponseMessage (Some n) p)"
  by (cases ev)
    (auto simp: helper_step.simps sendHelperRequest_def request_resumed_def request_timed_out_def
      settle_request_def process_error_def process_exit_def dispose_def onNotification_def
      remove_listener_def Let_def dest!: route_response split: if_splits option.splits ready_promise.splits)

lemma run_response:
  "\<lbrakk>helper_run es c = Some c'; (n, Inr p) \<in> set (request_outcomes c')\<rbrakk> \<Longrightarrow>
   (n, Inr p) \<in> set (request_outcomes c) \<or> Line (ResponseMessage (Some n) p) \<in> set es"
  by (induction es arbitrary: c) (auto split: option.splits dest: step_response)

lemma new_client_inv [simp]:
  "helper_inv new_WindowsHelperClient" "requests_complete new_WindowsHelperClient"
  "\<not> disposeRequested new_WindowsHelperClient" "request_outcomes new_WindowsHelperClient = []"
  by (simp_all add: helper_inv_def requests_complete_def ids_ok_def new_WindowsHelperClient_def)

subsection \<open>A request that nobody settles\<close>

text \<open>Request \<open>n\<close> is neither waiting, nor pending, nor settled.\<close>

definition lost_request :: "nat \<Rightarrow> helper_client \<Rightarrow> bool" where
  "lost_request n c \<longleftrightarrow> n < issued c \<and> map_of (awaiting_ready c) n = None \<and>
     map_of (pending c) n = None \<and> map_of (request_outcomes c) n = None"

lemma rejected_lookup [simp]:
  "map_of (request_outcomes (rejectPendingRequests e c)) n = None \<longleftrightarrow>
   map_of (pending c) n = None \<and> map_of (request_outcomes c) n = None"
  unfolding map_of_key_iff rejectPending_simps map_append rejected_keys by auto

lemma route_event_frame [simp]:
  "issued (routeHelperEvent m c) = issued c" "awaiting_ready (routeHelperEvent m c) = awaiting_ready c"
  "pending (routeHelperEvent m c) = pending c"
  by (cases "(m, c)" rule: routeHelperEvent.cases; simp add: Let_def)+

lemma route_lost: "lost_request n c \<Longrightarrow> lost_request n (routeHelperLine m c)"
  by (cases "(m, c)" rule: routeHelperLine.cases)
    (auto simp: lost_request_def settle_request_def take_pending_def split: option.split)

lemma step_lost: "\<lbrakk>helper_step ev c = Some c'; lost_request n c\<rbrakk> \<Longrightarrow> lost_request n c'"
proof (cases ev)
  case (Line m)
  then show "\<lbrakk>helper_step ev c = Some c'; lost_request n c\<rbrakk> \<Longrightarrow> ?thesis"
    using route_lost by (auto simp: helper_step.simps split: if_splits)
qed (auto simp: helper_step.simps lost_request_def sendHelperRequest_def request_resumed_def
      request_timed_out_def settle_request_def process_error_def process_exit_def dispose_def
      onNotification_def remove_listener_def Let_def
      simp del: rejectPending_simps(8) split: if_splits option.splits ready_promise.splits)

lemma run_lost: "\<lbrakk>helper_run es c = Some c'; lost_request n c\<rbrakk> \<Longrightarrow> lost_request n c'"
  by (induction es arbitrary: c) (auto split: option.splits dest: step_lost)

subsection \<open>Properties\<close>

lemma count_one: "\<lbrakk>distinct xs; x \<in> set xs\<rbrakk> \<Longrightarrow> count_list xs x = 1"
  by (induction xs) auto


abbreviation sample_lines :: "helper_event list" where
  "sample_lines \<equiv> [Request ''scan'', Request ''connect'', Line ReadyEvent, RequestResumes 1 None,
     RequestResumes 0 None, Line (ResponseMessage (Some 0) (Some JNull))]"

lemmas helper_eval = helper_step.simps new_WindowsHelperClient_def sendHelperRequest_def settle_ready_def
  request_resumed_def settle_request_def take_pending_def dispose_def rejectPendingRequests_def
  process_exit_def Let_def

lemma sample_lines_run:
  "\<exists>c. helper_run sample_lines new_WindowsHelperClient = Some c \<and> \<not> process_crashed c \<and> issued c = 2 \<and>
     map_of (pending c) 1 \<noteq> None \<and> (0, Inr (Some JNull)) \<in> set (request_outcomes c)"
  by (simp add: helper_eval)




text \<open>
  Characteristic values survive the JSON transport: the base64 text a write sends is decoded,
  by the reader the client uses for values and notifications, to the same bytes.
\<close>

theorem base64_roundtrip:
  "read_payload (Some (JObj [(''dataBase64'', JStr (base64_encode d))])) = Inr d \<and>
   json_prop (write_arguments sid uuid d b) ''dataBase64'' = Some (JStr (base64_encode d)) \<and>
   delivered (routeHelperLine (NotificationEvent (Some (sid, uuid, base64_encode d))) c) =
     delivered c @ map (\<lambda>l. (l, \<lparr>event_sessionId = sid, event_uuid = uuid, event_data = d\<rparr>))
       (notificationListeners c)"
  by (simp add: read_payload_def json_prop_def write_arguments_def base64_decode_def base64_read_back Let_def)

text \<open>
  Disposing of the client while a request waits for the helper to become ready can lose the
  request for good: it passes the check for disposal before, is registered after the pending
  requests have been rejected, and the exit of the process clears it without settling it; its
  deadline finds no entry. Nothing that happens later settles it.
\<close>

theorem dispose_strands_request:
  assumes "helper_run ([Request ''scan'', Dispose, Line ReadyEvent, RequestResumes 0 None, ProcessExit] @ es)
      new_WindowsHelperClient = Some c"
  shows "map_of (request_outcomes c) 0 = None \<and> map_of (pending c) 0 = None"
proof -
  obtain c1 where c1: "helper_run [Request ''scan'', Dispose, Line ReadyEvent, RequestResumes 0 None, ProcessExit]
      new_WindowsHelperClient = Some c1" "lost_request 0 c1"
    by (simp add: helper_step.simps new_WindowsHelperClient_def sendHelperRequest_def dispose_def
        rejectPendingRequests_def settle_ready_def request_resumed_def process_exit_def lost_request_def Let_def)
  have "helper_run (xs @ ys) s = (case helper_run xs s of None \<Rightarrow> None | Some s \<Rightarrow> helper_run ys s)" for xs ys s
    by (induction xs arbitrary: s) (auto split: option.splits)
  then have "helper_run es c1 = Some c" using assms c1(1) by (simp del: helper_run.simps append.simps)
  from run_lost [OF this c1(2)] show ?thesis by (simp add: lost_request_def)
qed

theorem dispose_strands_request_witness:
  "\<exists>c. helper_run ([Request ''scan'', Dispose, Line ReadyEvent, RequestResumes 0 None, ProcessExit] @ [DeadlineExpires 0])
      new_WindowsHelperClient = Some c \<and> map_of (request_outcomes c) 0 = None"
proof -
  obtain c where "helper_run ([Request ''scan'', Dispose, Line ReadyEvent, RequestResumes 0 None, ProcessExit] @ [DeadlineExpires 0])
      new_WindowsHelperClient = Some c"
    by (simp add: helper_eval request_timed_out_def)
  with dispose_strands_request [OF this] show ?thesis by blast
qed

end
