(* ===== verification/HelperFacade.thy ===== *)
theory HelperFacade
  imports HelperClient Transport
begin

text \<open>
  The typed requests of \<open>WindowsHelperClient\<close> (\<open>bluetooth/helper-client.ts\<close>) and how they make the
  operations a transport uses. \<open>ask\<close> is one request to the helper from its start to its outcome
  (theory \<open>HelperClient\<close> has what happens in between): the command and its arguments, and the
  payload of the response or the error.
\<close>

type_synonym 'p helper_answers = "string \<Rightarrow> json \<Rightarrow> 'p \<Rightarrow> json option result \<times> 'p"

definition DEFAULT_SCAN_TIMEOUT_MS :: int where "DEFAULT_SCAN_TIMEOUT_MS = 5000"
definition DEFAULT_WITHOUT_RESPONSE :: bool where "DEFAULT_WITHOUT_RESPONSE = False"

definition session_arguments :: "string \<Rightarrow> string \<Rightarrow> json" where
  "session_arguments sid uuid = JObj [(''sessionId'', JStr sid), (''uuid'', JStr uuid)]"

definition no_payload :: "json option result \<times> 'p \<Rightarrow> unit result \<times> 'p" where
  "no_payload r = (case r of (Inl e, p) \<Rightarrow> (Inl e, p) | (Inr _, p) \<Rightarrow> (Inr (), p))"

definition client_scan :: "'p helper_answers \<Rightarrow> int \<Rightarrow> 'p \<Rightarrow> json list result \<times> 'p" where
  "client_scan ask timeoutMs p =
     (case ask ''scan'' (JObj [(''timeoutMs'', JNum (Fin (of_int timeoutMs)))]) p of
        (Inl e, p) \<Rightarrow> (Inl e, p) | (Inr payload, p) \<Rightarrow> (Inr (scan_devices payload), p))"

definition client_discover :: "'p helper_answers \<Rightarrow> 'p \<Rightarrow> json list result \<times> 'p" where
  "client_discover ask = client_scan ask DEFAULT_SCAN_TIMEOUT_MS"

definition client_connect :: "'p helper_answers \<Rightarrow> string \<Rightarrow> 'p \<Rightarrow> string result \<times> 'p" where
  "client_connect ask address p =
     (case ask ''connect'' (JObj [(''address'', JStr address)]) p of
        (Inl e, p) \<Rightarrow> (Inl e, p) | (Inr payload, p) \<Rightarrow> (connect_payload payload, p))"

definition client_disconnect :: "'p helper_answers \<Rightarrow> string \<Rightarrow> 'p \<Rightarrow> unit result \<times> 'p" where
  "client_disconnect ask sid p = no_payload (ask ''disconnect'' (JObj [(''sessionId'', JStr sid)]) p)"

definition client_read :: "'p helper_answers \<Rightarrow> string \<Rightarrow> string \<Rightarrow> 'p \<Rightarrow> bytes result \<times> 'p" where
  "client_read ask sid uuid p =
     (case ask ''readCharacteristic'' (session_arguments sid uuid) p of
        (Inl e, p) \<Rightarrow> (Inl e, p) | (Inr payload, p) \<Rightarrow> (read_payload payload, p))"

definition client_write :: "'p helper_answers \<Rightarrow> string \<Rightarrow> string \<Rightarrow> bytes \<Rightarrow> 'p \<Rightarrow> unit result \<times> 'p" where
  "client_write ask sid uuid d p =
     no_payload (ask ''writeCharacteristic'' (write_arguments sid uuid d DEFAULT_WITHOUT_RESPONSE) p)"

definition client_subscribe :: "'p helper_answers \<Rightarrow> string \<Rightarrow> string \<Rightarrow> 'p \<Rightarrow> unit result \<times> 'p" where
  "client_subscribe ask sid uuid p = no_payload (ask ''subscribe'' (session_arguments sid uuid) p)"

text \<open>\<open>createWindowsHelperRuntime\<close>: the client behind the transports; its listeners are its own.\<close>

definition on_process :: "('p \<Rightarrow> 'a \<times> 'p) \<Rightarrow> helper_client \<times> 'p \<Rightarrow> 'a \<times> helper_client \<times> 'p" where
  "on_process f s = (case s of (c, p) \<Rightarrow> (case f p of (r, p) \<Rightarrow> (r, c, p)))"

definition client_ops :: "'p helper_answers \<Rightarrow> (helper_client \<times> 'p) helper_ops" where
  "client_ops ask =
     \<lparr>hc_connect = (\<lambda>a. on_process (client_connect ask a)),
      hc_disconnect = (\<lambda>sid. on_process (client_disconnect ask sid)),
      hc_read = (\<lambda>sid uuid. on_process (client_read ask sid uuid)),
      hc_write = (\<lambda>sid uuid d. on_process (client_write ask sid uuid d)),
      hc_subscribe = (\<lambda>sid uuid. on_process (client_subscribe ask sid uuid)),
      hc_onNotification = (\<lambda>l s. (Inr (), onNotification l (fst s), snd s)),
      hc_unsubscribe = (\<lambda>l s. (remove_listener l (fst s), snd s))\<rparr>"

definition createWindowsHelperRuntime ::
  "'p helper_answers \<Rightarrow>
   (helper_client \<times> 'p \<Rightarrow> json list result \<times> helper_client \<times> 'p) \<times> (helper_client \<times> 'p) helper_env transport_ops" where
  "createWindowsHelperRuntime ask = (on_process (client_discover ask), helper_transport_ops (client_ops ask))"

subsection \<open>Bytes arrive as they were sent\<close>

text \<open>A helper that decodes what it is sent and encodes what it has, per session and characteristic.\<close>

definition text_of :: "json \<Rightarrow> string \<Rightarrow> string" where
  "text_of v k = (case json_prop v k of Some (JStr s) \<Rightarrow> s | _ \<Rightarrow> [])"

definition memory_helper :: "(string \<times> string \<Rightarrow> bytes) helper_answers" where
  "memory_helper command args m =
     (let key = (text_of args ''sessionId'', text_of args ''uuid'')
      in if command = ''writeCharacteristic'' then (Inr None, m(key := base64_decode (text_of args ''dataBase64'')))
         else if command = ''readCharacteristic''
         then (Inr (Some (JObj [(''dataBase64'', JStr (base64_encode (m key)))])), m)
         else if command = ''connect''
         then (Inr (Some (JObj [(''sessionId'', JStr (text_of args ''address'')), (''address'', JStr (text_of args ''address'')),
                                (''name'', JStr [])])), m)
         else (Inr None, m))"

lemma memory_helper_write:
  "client_write memory_helper sid uuid d m = (Inr (), m((sid, uuid) := d))"
  by (simp add: client_write_def memory_helper_def write_arguments_def text_of_def json_prop_def no_payload_def
      base64_decode_def base64_read_back Let_def)

lemma memory_helper_read: "client_read memory_helper sid uuid m = (Inr (m (sid, uuid)), m)"
  by (simp add: client_read_def memory_helper_def session_arguments_def text_of_def json_prop_def read_payload_def
      base64_decode_def base64_read_back Let_def)

text \<open>
  A connected transport of the runtime hands every byte through: what it writes to a
  characteristic is what the helper holds for its session, and what it reads back.
\<close>

theorem runtime_roundtrip:
  assumes "sessionId (transports u i) = Some sid"
    and "u' = snd (op_write (snd (createWindowsHelperRuntime memory_helper)) i uuid d u)"
  shows "snd (client u') (sid, uuid) = d \<and>
    fst (op_read (snd (createWindowsHelperRuntime memory_helper)) i uuid u') = Inr d"
  using assms by (cases "client u") (simp add: createWindowsHelperRuntime_def client_ops_def on_process_def
      memory_helper_write memory_helper_read helper_defs)

text \<open>The scan waits longer than the helper does.\<close>

lemma scan_outlives_helper: "timeoutMs < scan_timeout requestTimeoutMs timeoutMs"
  by (simp add: scan_timeout_def SCAN_TIMEOUT_BUFFER_MS_def)

text \<open>
  A \<open>connect\<close> whose deadline has passed is forgotten: when the helper connects after all, its
  response is dropped, and with it the only mention of the session it has opened.
\<close>

theorem late_connect_dropped:
  assumes "n \<in> set (deadlines c)" and "helper_step (DeadlineExpires n) c = Some c1" and "\<not> process_crashed c1"
  shows "helper_step (Line (ResponseMessage (Some n) payload)) c1 = Some c1"
  using assms by (auto simp: helper_step.simps request_timed_out_def settle_request_def Let_def split: if_splits option.splits)

end
