(* ===== verification/EventBus.thy ===== *)
theory EventBus
  imports Prelude
begin

text \<open>
  \<open>EventBus\<close> (\<open>core/event-bus.ts\<close>). A listener closure is named by a number; a JavaScript \<open>Set\<close>
  is the list of its elements in insertion order. Publishing calls every listener of a copy of
  the set, in that order, before it awaits any of the promises they return; what the listeners
  do to the state \<open>'e\<close> until they return their promises is the parameter \<open>invoke\<close>, and the order
  in which the promises settle is a list of settlements. The locale \<open>listener_set\<close> is the
  contract of a registration and its disposer, which both sides of the bus give.
\<close>

subsection \<open>The bus\<close>

record event_bus =
  parserListeners :: "nat list"
  commandListeners :: "nat list"

definition new_EventBus :: event_bus where
  "new_EventBus = \<lparr>parserListeners = [], commandListeners = []\<rparr>"

text \<open>\<open>Set.add\<close> and \<open>Set.delete\<close>.\<close>

definition js_set_add :: "'a \<Rightarrow> 'a list \<Rightarrow> 'a list" where
  "js_set_add x xs = (if x \<in> set xs then xs else xs @ [x])"

definition js_set_delete :: "'a \<Rightarrow> 'a list \<Rightarrow> 'a list" where
  "js_set_delete x xs = filter (\<lambda>y. y \<noteq> x) xs"

definition addParserListener :: "nat \<Rightarrow> event_bus \<Rightarrow> event_bus" where
  "addParserListener l b = b\<lparr>parserListeners := js_set_add l (parserListeners b)\<rparr>"

definition disposeParserListener :: "nat \<Rightarrow> event_bus \<Rightarrow> event_bus" where
  "disposeParserListener l b = b\<lparr>parserListeners := js_set_delete l (parserListeners b)\<rparr>"

definition addCommandListener :: "nat \<Rightarrow> event_bus \<Rightarrow> event_bus" where
  "addCommandListener l b = b\<lparr>commandListeners := js_set_add l (commandListeners b)\<rparr>"

definition disposeCommandListener :: "nat \<Rightarrow> event_bus \<Rightarrow> event_bus" where
  "disposeCommandListener l b = b\<lparr>commandListeners := js_set_delete l (commandListeners b)\<rparr>"

subsection \<open>Publishing\<close>

text \<open>The synchronous part: \<open>[...listeners].map(async (listener) => listener(message))\<close>.\<close>

fun call_listeners :: "(nat \<Rightarrow> 'm \<Rightarrow> 'e \<Rightarrow> 'e) \<Rightarrow> 'm \<Rightarrow> nat list \<Rightarrow> 'e \<Rightarrow> 'e" where
  "call_listeners invoke m [] e = e"
| "call_listeners invoke m (l # ls) e = call_listeners invoke m ls (invoke l m e)"

text \<open>
  \<open>Promise.all\<close>, after the settlements \<open>evs\<close> of the promises it was given (each named by its
  listener): pending, rejected with the first rejection, or resolved once all have fulfilled.
\<close>

fun promise_all :: "nat list \<Rightarrow> (nat \<times> unit result) list \<Rightarrow> unit result option" where
  "promise_all [] evs = Some (Inr ())"
| "promise_all ps [] = None"
| "promise_all ps ((l, Inr u) # evs) = promise_all (js_set_delete l ps) evs"
| "promise_all ps ((l, Inl e) # evs) = (if l \<in> set ps then Some (Inl e) else promise_all ps evs)"

definition publishParserMessage ::
  "(nat \<Rightarrow> 'm \<Rightarrow> 'e \<Rightarrow> 'e) \<Rightarrow> 'm \<Rightarrow> event_bus \<Rightarrow> 'e \<Rightarrow> 'e \<times> ((nat \<times> unit result) list \<Rightarrow> unit result option)" where
  "publishParserMessage invoke m b e =
     (call_listeners invoke m (parserListeners b) e, promise_all (parserListeners b))"

definition publishCommandMessage ::
  "(nat \<Rightarrow> 'm \<Rightarrow> 'e \<Rightarrow> 'e) \<Rightarrow> 'm \<Rightarrow> event_bus \<Rightarrow> 'e \<Rightarrow> 'e \<times> ((nat \<times> unit result) list \<Rightarrow> unit result option)" where
  "publishCommandMessage invoke m b e =
     (call_listeners invoke m (commandListeners b) e, promise_all (commandListeners b))"

subsection \<open>The interface: a set of listeners\<close>

locale listener_set =
  fixes add :: "nat \<Rightarrow> 'b \<Rightarrow> 'b" and dispose :: "nat \<Rightarrow> 'b \<Rightarrow> 'b" and listeners :: "'b \<Rightarrow> nat list"
  assumes listeners_add: "listeners (add l b) = js_set_add l (listeners b)"
    and listeners_dispose: "listeners (dispose l b) = js_set_delete l (listeners b)"
begin

lemma added: "l \<in> set (listeners (add l b))"
  by (simp add: listeners_add js_set_add_def)

lemma disposed: "l \<notin> set (listeners (dispose l b))"
  by (simp add: listeners_dispose js_set_delete_def)

lemma others_kept:
  assumes "k \<noteq> l"
  shows "k \<in> set (listeners (add l b)) \<longleftrightarrow> k \<in> set (listeners b)"
    and "k \<in> set (listeners (dispose l b)) \<longleftrightarrow> k \<in> set (listeners b)"
  using assms by (auto simp: listeners_add listeners_dispose js_set_add_def js_set_delete_def)

lemma once:
  assumes "distinct (listeners b)"
  shows "distinct (listeners (add l b))" and "distinct (listeners (dispose l b))"
  using assms by (auto simp: listeners_add listeners_dispose js_set_add_def js_set_delete_def)

lemma dispose_add:
  assumes "l \<notin> set (listeners b)"
  shows "listeners (dispose l (add l b)) = listeners b"
proof -
  have "filter (\<lambda>y. y \<noteq> l) (listeners b) = listeners b"
    using assms by (intro filter_True) auto
  with assms show ?thesis
    by (simp add: listeners_add listeners_dispose js_set_add_def js_set_delete_def)
qed

lemma dispose_again: "listeners (dispose l (dispose l b)) = listeners (dispose l b)"
  by (simp add: listeners_dispose js_set_delete_def)

end

interpretation parser_side: listener_set addParserListener disposeParserListener parserListeners
  by unfold_locales (simp_all add: addParserListener_def disposeParserListener_def)

interpretation command_side: listener_set addCommandListener disposeCommandListener commandListeners
  by unfold_locales (simp_all add: addCommandListener_def disposeCommandListener_def)

lemma sides_independent [simp]:
  "commandListeners (addParserListener l b) = commandListeners b"
  "commandListeners (disposeParserListener l b) = commandListeners b"
  "parserListeners (addCommandListener l b) = parserListeners b"
  "parserListeners (disposeCommandListener l b) = parserListeners b"
  by (simp_all add: addParserListener_def disposeParserListener_def addCommandListener_def
      disposeCommandListener_def)

subsection \<open>What a publication awaits\<close>

lemma call_listeners_fold: "call_listeners invoke m ls e = fold (\<lambda>l. invoke l m) ls e"
  by (induction ls arbitrary: e) simp_all

lemma promise_all_resolved:
  "promise_all ps evs = Some (Inr ()) \<Longrightarrow> l \<in> set ps \<Longrightarrow> (l, Inr ()) \<in> set evs"
  by (induction ps evs rule: promise_all.induct) (auto simp: js_set_delete_def split: if_splits)

lemma promise_all_rejected:
  "promise_all ps evs = Some (Inl e) \<Longrightarrow> \<exists>l \<in> set ps. (l, Inl e) \<in> set evs"
  by (induction ps evs rule: promise_all.induct) (auto simp: js_set_delete_def split: if_splits)

lemma promise_all_pending:
  "promise_all ps evs = None \<Longrightarrow> \<exists>l \<in> set ps. l \<notin> fst ` set evs"
  by (induction ps evs rule: promise_all.induct) (force simp: js_set_delete_def split: if_splits)+

lemma promise_all_settled_once:
  "promise_all ps evs = Some r \<Longrightarrow> promise_all ps (evs @ evs') = Some r"
  by (induction ps evs rule: promise_all.induct) (auto split: if_splits)

text \<open>One rejection decides the outcome, whatever has not settled yet.\<close>

lemma promise_all_first_rejection:
  assumes "l \<in> set ps" and "\<forall>(k, r) \<in> set evs. k \<noteq> l \<and> r = Inr ()"
  shows "promise_all ps (evs @ [(l, Inl e)]) = Some (Inl e)"
  using assms
proof (induction ps evs rule: promise_all.induct)
  case (2 p ps)
  then show ?case by simp
next
  case (3 p ps k u evs)
  then show ?case by (auto simp: js_set_delete_def)
qed auto

subsection \<open>Properties\<close>

text \<open>
  Publishing a parser message calls every registered listener once, in registration order.
  The returned promise stays pending while no listener has failed and one has not settled, it
  resolves only when every listener has fulfilled, it rejects with a listener's error, and
  its outcome never changes. The first failing listener makes it reject although others may
  still run, so it does not always wait for every current listener, as its comment says.
\<close>

theorem publish_awaits_listeners:
  assumes "publishParserMessage invoke m b e = (e', outcome)"
  shows "e' = fold (\<lambda>l. invoke l m) (parserListeners b) e \<and>
    (outcome evs = None \<longrightarrow> (\<exists>l \<in> set (parserListeners b). l \<notin> fst ` set evs)) \<and>
    (outcome evs = Some (Inr ()) \<longrightarrow> (\<forall>l \<in> set (parserListeners b). (l, Inr ()) \<in> set evs)) \<and>
    (outcome evs = Some (Inl x) \<longrightarrow> (\<exists>l \<in> set (parserListeners b). (l, Inl x) \<in> set evs)) \<and>
    (outcome evs = Some r \<longrightarrow> outcome (evs @ evs') = Some r) \<and>
    (l \<in> set (parserListeners b) \<and> (\<forall>(k, r) \<in> set evs. k \<noteq> l \<and> r = Inr ()) \<longrightarrow>
       outcome (evs @ [(l, Inl x)]) = Some (Inl x))"
proof -
  have *: "e' = call_listeners invoke m (parserListeners b) e" "outcome = promise_all (parserListeners b)"
    using assms by (simp_all add: publishParserMessage_def)
  let ?ls = "parserListeners b"
  have "call_listeners invoke m ?ls e = fold (\<lambda>l. invoke l m) ?ls e" by (rule call_listeners_fold)
  moreover have "promise_all ?ls evs = None \<longrightarrow> (\<exists>l \<in> set ?ls. l \<notin> fst ` set evs)"
    by (rule impI, rule promise_all_pending)
  moreover have "promise_all ?ls evs = Some (Inr ()) \<longrightarrow> (\<forall>l \<in> set ?ls. (l, Inr ()) \<in> set evs)"
    by (intro impI ballI, rule promise_all_resolved)
  moreover have "promise_all ?ls evs = Some (Inl x) \<longrightarrow> (\<exists>l \<in> set ?ls. (l, Inl x) \<in> set evs)"
    by (rule impI, rule promise_all_rejected)
  moreover have "promise_all ?ls evs = Some r \<longrightarrow> promise_all ?ls (evs @ evs') = Some r"
    by (rule impI, rule promise_all_settled_once)
  moreover have "l \<in> set ?ls \<and> (\<forall>(k, r) \<in> set evs. k \<noteq> l \<and> r = Inr ()) \<longrightarrow>
      promise_all ?ls (evs @ [(l, Inl x)]) = Some (Inl x)"
    by (intro impI, elim conjE, rule promise_all_first_rejection)
  ultimately show ?thesis unfolding * by (intro conjI)
qed

theorem publish_awaits_listeners_witness:
  "snd (publishParserMessage (\<lambda>l m e. e @ [(l, m)]) ''telemetry''
      (addParserListener 1 (addParserListener 0 new_EventBus)) []) [(1, Inl (PlainError ''broker''))] =
   Some (Inl (PlainError ''broker''))"
proof -
  let ?b = "addParserListener 1 (addParserListener 0 new_EventBus)"
  let ?p = "publishParserMessage (\<lambda>l m e. e @ [(l, m)]) ''telemetry'' ?b []"
  have "1 \<in> set (parserListeners ?b)" by (rule parser_side.added)
  then show ?thesis
    using publish_awaits_listeners [of "\<lambda>l m e. e @ [(l, m)]" "''telemetry''" ?b "[]" "fst ?p" "snd ?p"
        "[]" "PlainError ''broker''" "Inr ()" "[]" 1]
    by simp
qed

end
