(* ===== verification/Payload.thy ===== *)
theory Payload
  imports Json Device Registry
begin

text \<open>
  MQTT topics and payloads (\<open>broker/payload-utils.ts\<close>, \<open>broker/constants.ts\<close> and the topic pattern
  of \<open>broker/client.ts\<close>): how telemetry values become text, how command texts become setter
  values, and how topics name devices and fields.
\<close>

definition COMMAND_SUBSCRIPTION_TOPIC :: string where "COMMAND_SUBSCRIPTION_TOPIC = ''bluetti/command/#''"
definition STATE_TOPIC_PREFIX :: string where "STATE_TOPIC_PREFIX = ''bluetti/state/''"
definition COMMAND_TOPIC_PREFIX :: string where "COMMAND_TOPIC_PREFIX = ''bluetti/command/''"
definition RAW_SNAPSHOT_SUFFIX :: string where "RAW_SNAPSHOT_SUFFIX = ''_raw''"
definition BOOLEAN_ON_VALUE :: string where "BOOLEAN_ON_VALUE = ''ON''"
definition BOOLEAN_OFF_VALUE :: string where "BOOLEAN_OFF_VALUE = ''OFF''"

subsection \<open>Values to text\<close>

definition int_text :: "int \<Rightarrow> string" where
  "int_text i = (if i < 0 then CHR ''-'' # decimal_string (nat (- i)) else decimal_string (nat i))"

fun serializeValue :: "parsed_value \<Rightarrow> string" where
  "serializeValue (VBool b) = (if b then BOOLEAN_ON_VALUE else BOOLEAN_OFF_VALUE)"
| "serializeValue (VBigInt i) = int_text i"
| "serializeValue (VNums vs) = json_text (JArr (map (\<lambda>v. JNum (Fin v)) vs))"
| "serializeValue (VEnum name n) = name"
| "serializeValue (VNum v) = js_number_text v"
| "serializeValue (VStr s) = s"

text \<open>The snapshot: bigints as text, enums by name.\<close>

fun normalizeValue :: "parsed_value \<Rightarrow> json" where
  "normalizeValue (VBigInt i) = JStr (int_text i)"
| "normalizeValue (VNums vs) = JArr (map (\<lambda>v. JNum (Fin v)) vs)"
| "normalizeValue (VEnum name n) = JStr name"
| "normalizeValue (VBool b) = JBool b"
| "normalizeValue (VNum v) = JNum (Fin v)"
| "normalizeValue (VStr s) = JStr s"

definition normalizeRecord :: "parsed_field_map \<Rightarrow> json" where
  "normalizeRecord m = JObj (map (\<lambda>(k, v). (k, normalizeValue v)) m)"

subsection \<open>Text to setter values\<close>

text \<open>\<open>/^-?\d+$/\<close>.\<close>

definition INTEGER_PAYLOAD_PATTERN :: "string \<Rightarrow> bool" where
  "INTEGER_PAYLOAD_PATTERN s =
     (let digits = (case s of [] \<Rightarrow> [] | c # cs \<Rightarrow> if c = CHR ''-'' then cs else s)
      in digits \<noteq> [] \<and> list_all is_digit digits)"

text \<open>\<open>Number(s)\<close> of such a text: the nearest double, infinite from \<open>2 ^ 1024 - 2 ^ 970\<close> on.\<close>

definition number_of_digits :: "nat \<Rightarrow> jsnum" where
  "number_of_digits n = (if n < 2 ^ 1024 - 2 ^ 970 then Fin (double_of n 1) else PosInf)"

definition js_Number :: "string \<Rightarrow> jsnum" where
  "js_Number s =
     (case s of
        [] \<Rightarrow> Fin 0
      | c # cs \<Rightarrow>
          if c = CHR ''-''
          then (case number_of_digits (decimal_value cs) of Fin v \<Rightarrow> Fin (- v) | _ \<Rightarrow> NegInf)
          else number_of_digits (decimal_value s))"

definition parseCommandValue :: "string \<Rightarrow> setter_value" where
  "parseCommandValue payload =
     (if payload = BOOLEAN_ON_VALUE then SetBool True
      else if payload = BOOLEAN_OFF_VALUE then SetBool False
      else if INTEGER_PAYLOAD_PATTERN payload then SetNum (js_Number payload)
      else SetStr payload)"

text \<open>\<open>String.prototype.trim\<close> on the white space of Latin-1.\<close>

definition is_js_space :: "char \<Rightarrow> bool" where
  "is_js_space c = (let n = (of_char c :: nat) in 9 \<le> n \<and> n \<le> 13 \<or> n = 32 \<or> n = 160)"

definition js_trim :: "string \<Rightarrow> string" where
  "js_trim s = rev (dropWhile is_js_space (rev (dropWhile is_js_space s)))"

subsection \<open>Topics\<close>

definition deviceKey :: "bluetti_device \<Rightarrow> string" where
  "deviceKey dev = dev_type dev @ CHR ''-'' # dev_serialNumber dev"

definition state_topic :: "bluetti_device \<Rightarrow> string \<Rightarrow> string" where
  "state_topic dev name = STATE_TOPIC_PREFIX @ dev_type dev @ CHR ''-'' # dev_serialNumber dev @ CHR ''/'' # name"

definition is_letter :: "char \<Rightarrow> bool" where
  "is_letter c = (let n = (of_char c :: nat) in 65 \<le> n \<and> n \<le> 90 \<or> 97 \<le> n \<and> n \<le> 122)"

text \<open>
  \<open>/^bluetti\/command\/([A-Z0-9]+)-(\d+)\/([a-z0-9_]+)$/i\<close>: the classes exclude the separators,
  so the match, where there is one, is unique.
\<close>

definition COMMAND_TOPIC :: "string \<Rightarrow> (string \<times> string \<times> string) option" where
  "COMMAND_TOPIC topic =
     (if to_lower (take (length COMMAND_TOPIC_PREFIX) topic) \<noteq> COMMAND_TOPIC_PREFIX then None
      else (let rest = drop (length COMMAND_TOPIC_PREFIX) topic;
                model = takeWhile (\<lambda>c. is_letter c \<or> is_digit c) rest
            in case drop (length model) rest of
                 [] \<Rightarrow> None
               | sep # rest \<Rightarrow>
                   (let serial = takeWhile is_digit rest
                    in case drop (length serial) rest of
                         [] \<Rightarrow> None
                       | sep' # field \<Rightarrow>
                           if sep = CHR ''-'' \<and> sep' = CHR ''/'' \<and> model \<noteq> [] \<and> serial \<noteq> [] \<and> field \<noteq> [] \<and>
                              list_all (\<lambda>c. is_letter c \<or> is_digit c \<or> c = CHR ''_'') field
                           then Some (model, serial, field) else None)))"

definition stringifyError :: "js_error \<Rightarrow> string" where
  "stringifyError e = error_message e"

subsection \<open>What topics and payloads preserve\<close>

lemma takeWhile_all_stop:
  "\<lbrakk>list_all P xs; \<not> P y\<rbrakk> \<Longrightarrow> takeWhile P (xs @ y # ys) = xs"
  by (induction xs) auto

lemma command_topic_match:
  assumes "list_all (\<lambda>c. is_letter c \<or> is_digit c) model" and "model \<noteq> []"
    and "list_all is_digit serial" and "serial \<noteq> []"
    and "list_all (\<lambda>c. is_letter c \<or> is_digit c \<or> c = CHR ''_'') field" and "field \<noteq> []"
  shows "COMMAND_TOPIC (COMMAND_TOPIC_PREFIX @ model @ CHR ''-'' # serial @ CHR ''/'' # field) =
    Some (model, serial, field)"
proof -
  have "to_lower COMMAND_TOPIC_PREFIX = COMMAND_TOPIC_PREFIX"
    by (simp add: COMMAND_TOPIC_PREFIX_def to_lower_def lower_char_def)
  moreover have "\<not> (is_letter CHR ''-'' \<or> is_digit CHR ''-'')" "\<not> is_digit CHR ''/''"
    by (simp_all add: is_letter_def is_digit_def)
  ultimately show ?thesis
    using assms
    by (simp add: COMMAND_TOPIC_def takeWhile_all_stop Let_def)
qed

text \<open>The names of the products and of their fields use the characters the pattern allows.\<close>

lemma table_names:
  "list_all (\<lambda>d. list_all (\<lambda>c. is_letter c \<or> is_digit c) (def_type d) \<and> def_type d \<noteq> []) BLUETTI_DEFINITIONS"
  by (simp add: definition_defs is_letter_def is_digit_def)

lemma table_field_names:
  "list_all (\<lambda>d. list_all (\<lambda>f. list_all (\<lambda>c. is_letter c \<or> is_digit c \<or> c = CHR ''_'') (field_name f) \<and>
      field_name f \<noteq> []) (writable_entry_fields d)) BLUETTI_DEFINITIONS"
  by (simp add: definition_defs writable_entry_fields_def isAddressWritable_def struct_defs
      struct_builder_defs enum_defs is_letter_def is_digit_def)

lemma integer_pattern_digits: "s \<noteq> [] \<Longrightarrow> list_all is_digit s \<Longrightarrow> INTEGER_PAYLOAD_PATTERN s"
  by (auto simp: INTEGER_PAYLOAD_PATTERN_def is_digit_def split: list.split)

lemma integer_number_text:
  assumes "n < 2 ^ 30"
  shows "js_number_text (of_nat n) = decimal_string n"
proof -
  obtain k m where "k \<le> 0" "m * 10 ^ (0 - k) = n" "js_number_text (double_of n (10 ^ 0)) = decimals_text m k"
    using decimal_number_text [of 0 n] assms by auto
  moreover have "double_of n 1 = of_nat n" using assms by (intro double_of_integer) simp
  ultimately show ?thesis by (simp add: decimals_text_def)
qed

lemma js_trim_plain: "list_all (\<lambda>c. \<not> is_js_space c) s \<Longrightarrow> js_trim s = s"
proof -
  assume s: "list_all (\<lambda>c. \<not> is_js_space c) s"
  then have "dropWhile is_js_space s = s" by (cases s) auto
  moreover have "dropWhile is_js_space (rev s) = rev s" using s by (cases "rev s") (auto simp: list_all_iff)
  ultimately show ?thesis by (simp add: js_trim_def)
qed

lemma digits_not_spaces: "list_all is_digit s \<Longrightarrow> list_all (\<lambda>c. \<not> is_js_space c) s"
  by (auto simp: list_all_iff is_digit_def is_js_space_def Let_def)

lemma decimal_string_all_digits: "list_all is_digit (decimal_string n)"
  by (auto simp: list_all_iff dest: decimal_string_digits)

end
