(* ===== verification/Bridge.thy ===== *)
theory Bridge
  imports EventBus Payload
begin

text \<open>
  \<open>BluettiMqttBridge\<close> (\<open>broker/client.ts\<close>), its connection options
  (\<open>broker/connection-options.ts\<close>) and the embeddable \<open>BasicMqttClient\<close>
  (\<open>broker/basic-client.ts\<close>). The MQTT library is the environment: what connecting, subscribing,
  registering or removing a listener, publishing and closing come to is an argument of the step
  that awaits it, and no law is assumed about it. A raw client is named by the number of the
  successful connection that made it, a closure by a number; calls of \<open>run\<close> are numbered too,
  and each of its \<open>await\<close>s ends a step, so that calls interleave as the event loop allows.
\<close>

subsection \<open>Connection options\<close>

datatype option_value = OptText string | OptBool bool

record tls_options =
  tls_ca :: "string option"
  tls_cert :: "string option"
  tls_key :: "string option"
  tls_rejectUnauthorized :: "bool option"
  tls_servername :: "string option"

record mqtt_client_options =
  mqtt_url :: string
  mqtt_username :: "string option"
  mqtt_password :: "string option"
  mqtt_tls :: "tls_options option"

definition copy_defined :: "string \<Rightarrow> option_value option \<Rightarrow> (string \<times> option_value) list \<Rightarrow> (string \<times> option_value) list" where
  "copy_defined k v m = (case v of None \<Rightarrow> m | Some x \<Rightarrow> obj_set k x m)"

definition buildMqttConnectionOptions :: "mqtt_client_options \<Rightarrow> (string \<times> option_value) list" where
  "buildMqttConnectionOptions opts =
     (let m1 = copy_defined ''username'' (map_option OptText (mqtt_username opts)) [];
          m2 = copy_defined ''password'' (map_option OptText (mqtt_password opts)) m1
      in case mqtt_tls opts of
           None \<Rightarrow> m2
         | Some tls \<Rightarrow>
             (let m3 = copy_defined ''ca'' (map_option OptText (tls_ca tls)) m2;
                  m4 = copy_defined ''cert'' (map_option OptText (tls_cert tls)) m3;
                  m5 = copy_defined ''key'' (map_option OptText (tls_key tls)) m4;
                  m6 = copy_defined ''rejectUnauthorized'' (map_option OptBool (tls_rejectUnauthorized tls)) m5
              in copy_defined ''servername'' (map_option OptText (tls_servername tls)) m6))"

subsection \<open>The bridge\<close>

datatype run_call = AwaitConnector | AwaitSubscribe nat | RunReturned "unit result"

record bridge =
  devices :: "(string \<times> bluetti_device) list"
  rawClient :: "nat option"
  removeParserListener :: "nat option"
  messageListener :: "nat option"
  bus :: event_bus
  runs :: "run_call list"
  clients_made :: nat
  open_clients :: "nat list"
  message_handlers :: "(nat \<times> nat) list"
  subscriptions :: "(nat \<times> string) list"
  next_closure :: nat

definition new_BluettiMqttBridge :: "event_bus \<Rightarrow> bridge" where
  "new_BluettiMqttBridge b =
     \<lparr>devices = [], rawClient = None, removeParserListener = None, messageListener = None, bus = b,
      runs = [], clients_made = 0, open_clients = [], message_handlers = [], subscriptions = [],
      next_closure = Suc (Max (insert 0 (set (parserListeners b))))\<rparr>"

text \<open>
  \<open>cleanupClient\<close>, with what \<open>client.off\<close> and \<open>client.endAsync\<close> come to. All its effects come
  before its only \<open>await\<close>; a client counts as open until \<open>endAsync\<close> is called on it.
\<close>

definition dispose_parser_listener :: "bridge \<Rightarrow> bridge" where
  "dispose_parser_listener s =
     (case removeParserListener s of
        None \<Rightarrow> s
      | Some l \<Rightarrow> s\<lparr>bus := disposeParserListener l (bus s)\<rparr>)\<lparr>removeParserListener := None\<rparr>"

definition drop_message_listener :: "unit result \<Rightarrow> nat \<Rightarrow> bridge \<Rightarrow> js_error list \<times> bridge" where
  "drop_message_listener off_outcome client s =
     (case messageListener s of
        None \<Rightarrow> ([], s)
      | Some l \<Rightarrow>
          (case off_outcome of
             Inl e \<Rightarrow> ([e], s\<lparr>messageListener := None\<rparr>)
           | Inr u \<Rightarrow> ([], s\<lparr>message_handlers := remove1 (client, l) (message_handlers s),
                            messageListener := None\<rparr>)))"

definition cleanupClient :: "unit result \<Rightarrow> unit result \<Rightarrow> nat \<Rightarrow> bridge \<Rightarrow> unit result \<times> bridge" where
  "cleanupClient off_outcome end_outcome client s =
     (case drop_message_listener off_outcome client (dispose_parser_listener (s\<lparr>rawClient := None\<rparr>)) of
        (failures, s') \<Rightarrow>
          (let failures' = failures @ (case end_outcome of Inl e \<Rightarrow> [e] | Inr u \<Rightarrow> [])
           in (if failures' = [] then Inr ()
               else Inl (AggregateError failures' ''Failed to clean up MQTT client''),
               s'\<lparr>open_clients := removeAll client (open_clients s')\<rparr>)))"

text \<open>\<open>run\<close>, from one \<open>await\<close> to the next.\<close>

definition run_called :: "bridge \<Rightarrow> bridge" where
  "run_called s =
     s\<lparr>runs := runs s @ [if rawClient s \<noteq> None
        then RunReturned (Inl (PlainError ''MQTT bridge is already running'')) else AwaitConnector]\<rparr>"

definition connector_settled :: "nat \<Rightarrow> unit result \<Rightarrow> bridge \<Rightarrow> bridge" where
  "connector_settled k outcome s =
     (if js_get (runs s) k = Some AwaitConnector
      then (case outcome of
              Inl e \<Rightarrow> s\<lparr>runs := (runs s)[k := RunReturned (Inl e)]\<rparr>
            | Inr u \<Rightarrow> (let client = clients_made s
                       in s\<lparr>clients_made := Suc client, open_clients := open_clients s @ [client],
                            rawClient := Some client,
                            subscriptions := subscriptions s @ [(client, COMMAND_SUBSCRIPTION_TOPIC)],
                            runs := (runs s)[k := AwaitSubscribe client]\<rparr>))
      else s)"

definition install_listeners :: "nat \<Rightarrow> unit result \<Rightarrow> bridge \<Rightarrow> bridge" where
  "install_listeners client on_outcome s =
     (let l = next_closure s
      in s\<lparr>bus := addParserListener l (bus s), removeParserListener := Some l,
           messageListener := Some (Suc l), next_closure := Suc (Suc l),
           message_handlers := (case on_outcome of
               Inl e \<Rightarrow> message_handlers s | Inr u \<Rightarrow> message_handlers s @ [(client, Suc l)])\<rparr>)"

definition subscribe_settled ::
  "nat \<Rightarrow> unit result \<Rightarrow> unit result \<Rightarrow> unit result \<Rightarrow> unit result \<Rightarrow> bridge \<Rightarrow> bridge" where
  "subscribe_settled k outcome on_outcome off_outcome end_outcome s =
     (case js_get (runs s) k of
        Some (AwaitSubscribe client) \<Rightarrow>
          (let failed = (\<lambda>e s. (snd (cleanupClient off_outcome end_outcome client s))
                                 \<lparr>runs := (runs s)[k := RunReturned (Inl e)]\<rparr>)
           in case outcome of
                Inl e \<Rightarrow> failed e s
              | Inr u \<Rightarrow> (let s' = install_listeners client on_outcome s
                         in case on_outcome of
                              Inl e \<Rightarrow> failed e s'
                            | Inr u \<Rightarrow> s'\<lparr>runs := (runs s')[k := RunReturned (Inr ())]\<rparr>))
      | _ \<Rightarrow> s)"

definition bridge_stop :: "unit result \<Rightarrow> unit result \<Rightarrow> bridge \<Rightarrow> unit result \<times> bridge" where
  "bridge_stop off_outcome end_outcome s =
     (case rawClient s of
        None \<Rightarrow> (Inr (), s)
      | Some client \<Rightarrow> cleanupClient off_outcome end_outcome client s)"

subsection \<open>Telemetry\<close>

text \<open>The awaited publications of a loop, until one fails; \<open>pub i\<close> is the outcome of the \<open>i\<close>-th.\<close>

fun publish_each :: "(nat \<Rightarrow> unit result) \<Rightarrow> nat \<Rightarrow> (string \<times> string) list \<Rightarrow> (string \<times> string) list \<times> unit result" where
  "publish_each pub i [] = ([], Inr ())"
| "publish_each pub i (m # ms) =
     (case pub i of
        Inl e \<Rightarrow> ([m], Inl e)
      | Inr u \<Rightarrow> (case publish_each pub (Suc i) ms of (sent, r) \<Rightarrow> (m # sent, r)))"

definition handleParserMessage ::
  "(nat \<Rightarrow> unit result) \<Rightarrow> bluetti_device \<Rightarrow> parsed_field_map \<Rightarrow> bridge \<Rightarrow> ((string \<times> string) list \<times> unit result) \<times> bridge" where
  "handleParserMessage pub dev parsed s =
     (case rawClient s of
        None \<Rightarrow> (([], Inl (PlainError ''MQTT bridge is not connected'')), s)
      | Some client \<Rightarrow>
          (case publish_each pub 0 (map (\<lambda>(name, v). (state_topic dev name, serializeValue v)) parsed) of
             (sent, Inl e) \<Rightarrow> (sent, Inl e)
           | (sent, Inr u) \<Rightarrow>
               (sent @ [(state_topic dev RAW_SNAPSHOT_SUFFIX, json_text (normalizeRecord parsed))],
                pub (length sent)),
           s\<lparr>devices := obj_set (deviceKey dev) dev (devices s)\<rparr>))"

subsection \<open>Commands\<close>

text \<open>
  \<open>handleIncomingCommand\<close> up to the publication on the bus; \<open>payload\<close> is the text
  \<open>toString("utf8")\<close> gives. A rejection is logged by the message listener and goes no further.
\<close>

datatype incoming = Ignored | Rejected js_error | Dispatched bluetti_device command

definition handleIncomingCommand :: "string \<Rightarrow> string \<Rightarrow> bridge \<Rightarrow> incoming" where
  "handleIncomingCommand topic payload s =
     (case COMMAND_TOPIC topic of
        None \<Rightarrow> Ignored
      | Some (model, serialNumber, fieldName) \<Rightarrow>
          (case map_of (devices s) (model @ CHR ''-'' # serialNumber) of
             None \<Rightarrow> Ignored
           | Some device \<Rightarrow>
               if \<not> hasFieldSetter device fieldName then Ignored
               else (case buildSetterCommand device fieldName (parseCommandValue (js_trim payload)) of
                       Inl e \<Rightarrow> Rejected e
                     | Inr c \<Rightarrow> Dispatched device c)))"

subsection \<open>Executions\<close>

datatype bridge_event =
    RunCalled
  | ConnectorSettled nat "unit result"
  | SubscribeSettled nat "unit result" "unit result" "unit result" "unit result"
  | StopCalled "unit result" "unit result"
  | ParserMessage "nat \<Rightarrow> unit result" bluetti_device parsed_field_map

fun bridge_step :: "bridge_event \<Rightarrow> bridge \<Rightarrow> bridge" where
  "bridge_step RunCalled s = run_called s"
| "bridge_step (ConnectorSettled k r) s = connector_settled k r s"
| "bridge_step (SubscribeSettled k r on_o off_o end_o) s = subscribe_settled k r on_o off_o end_o s"
| "bridge_step (StopCalled off_o end_o) s = snd (bridge_stop off_o end_o s)"
| "bridge_step (ParserMessage pub dev parsed) s = snd (handleParserMessage pub dev parsed s)"

text \<open>
  The telemetry a bridge receives is about devices the registry made. A serial schedule calls
  \<open>run\<close> and \<open>stop\<close> only when no call of \<open>run\<close> is in flight.
\<close>

definition registry_device :: "bluetti_device \<Rightarrow> bool" where
  "registry_device dev \<longleftrightarrow> (\<exists>a n. createDeviceFromAdvertisement a n = Inr dev)"

fun pending_call :: "run_call \<Rightarrow> bool" where
  "pending_call (RunReturned r) = False"
| "pending_call _ = True"

definition run_pending :: "bridge \<Rightarrow> bool" where
  "run_pending s = list_ex pending_call (runs s)"

fun any_order :: "bridge \<Rightarrow> bridge_event \<Rightarrow> bool" where
  "any_order s (ParserMessage pub dev parsed) = registry_device dev"
| "any_order s ev = True"

fun serial_order :: "bridge \<Rightarrow> bridge_event \<Rightarrow> bool" where
  "serial_order s RunCalled = (\<not> run_pending s)"
| "serial_order s (StopCalled off_o end_o) = (\<not> run_pending s)"
| "serial_order s ev = any_order s ev"

inductive bridge_reachable :: "(bridge \<Rightarrow> bridge_event \<Rightarrow> bool) \<Rightarrow> event_bus \<Rightarrow> bridge \<Rightarrow> bool"
  for allowed b where
    start: "bridge_reachable allowed b (new_BluettiMqttBridge b)"
  | step: "bridge_reachable allowed b s \<Longrightarrow> allowed s ev \<Longrightarrow> bridge_reachable allowed b (bridge_step ev s)"

declare bridge_reachable.start [intro]

subsection \<open>Startup and shutdown\<close>

text \<open>
  A bridge that holds nothing: no client, no listener on the bus beside those of others, no
  connection; and one that runs: one connection, subscribed to the commands, with its message
  listener, and one parser listener.
\<close>

definition detached :: "event_bus \<Rightarrow> bridge \<Rightarrow> bool" where
  "detached b s \<longleftrightarrow> removeParserListener s = None \<and> messageListener s = None \<and>
     parserListeners (bus s) = parserListeners b"

definition idle :: "event_bus \<Rightarrow> bridge \<Rightarrow> bool" where
  "idle b s \<longleftrightarrow> rawClient s = None \<and> open_clients s = [] \<and> detached b s"

definition running :: "event_bus \<Rightarrow> bridge \<Rightarrow> nat \<Rightarrow> bool" where
  "running b s client \<longleftrightarrow> rawClient s = Some client \<and> open_clients s = [client] \<and>
     (client, COMMAND_SUBSCRIPTION_TOPIC) \<in> set (subscriptions s) \<and>
     (case (removeParserListener s, messageListener s) of
        (Some l, Some m) \<Rightarrow> parserListeners (bus s) = parserListeners b @ [l] \<and> l \<notin> set (parserListeners b) \<and>
          (client, m) \<in> set (message_handlers s)
      | _ \<Rightarrow> False)"

definition subscribing :: "event_bus \<Rightarrow> bridge \<Rightarrow> nat \<Rightarrow> bool" where
  "subscribing b s client \<longleftrightarrow> rawClient s = Some client \<and> open_clients s = [client] \<and>
     (client, COMMAND_SUBSCRIPTION_TOPIC) \<in> set (subscriptions s) \<and> detached b s"

definition one_phase :: "event_bus \<Rightarrow> bridge \<Rightarrow> bool" where
  "one_phase b s \<longleftrightarrow>
     (\<forall>l \<in> set (parserListeners b). l < next_closure s) \<and>
     (case filter pending_call (runs s) of
        [] \<Rightarrow> idle b s \<or> (\<exists>client. running b s client)
      | [AwaitConnector] \<Rightarrow> idle b s
      | [AwaitSubscribe client] \<Rightarrow> subscribing b s client
      | _ \<Rightarrow> False)"

lemma cleanup_fields [simp]:
  "devices (snd (cleanupClient off_o end_o c s)) = devices s"
  "rawClient (snd (cleanupClient off_o end_o c s)) = None"
  "removeParserListener (snd (cleanupClient off_o end_o c s)) = None"
  "messageListener (snd (cleanupClient off_o end_o c s)) = None"
  "runs (snd (cleanupClient off_o end_o c s)) = runs s"
  "clients_made (snd (cleanupClient off_o end_o c s)) = clients_made s"
  "next_closure (snd (cleanupClient off_o end_o c s)) = next_closure s"
  "open_clients (snd (cleanupClient off_o end_o c s)) = removeAll c (open_clients s)"
  "bus (snd (cleanupClient off_o end_o c s)) =
     (case removeParserListener s of None \<Rightarrow> bus s | Some l \<Rightarrow> disposeParserListener l (bus s))"
  by (simp_all add: cleanupClient_def drop_message_listener_def dispose_parser_listener_def Let_def
      split: option.split sum.split)

lemma run_pending_filter: "run_pending s \<longleftrightarrow> filter pending_call (runs s) \<noteq> []"
  by (auto simp: run_pending_def list_ex_iff filter_empty_conv)

lemma pending_update:
  assumes "js_get xs k = Some p" and "pending_call p" and "\<not> (\<exists>u v us. filter pending_call xs = u # v # us)"
  shows "filter pending_call xs = [p]" and "filter pending_call (xs[k := q]) = filter pending_call [q]"
proof -
  have k: "k < length xs" "xs ! k = p" using assms(1) by (auto simp: js_get_def split: if_splits)
  have split: "xs = take k xs @ p # drop (Suc k) xs" using id_take_nth_drop [OF k(1)] k(2) by simp
  have "filter pending_call xs = filter pending_call (take k xs) @ p # filter pending_call (drop (Suc k) xs)"
    using assms(2) by (subst split) simp
  with assms(3) have "filter pending_call (take k xs) = [] \<and> filter pending_call (drop (Suc k) xs) = []"
    by (metis append_Cons append_Nil append_is_Nil_conv list.exhaust)
  then show "filter pending_call xs = [p]" and "filter pending_call (xs[k := q]) = filter pending_call [q]"
    using k assms(2) by (subst split, simp, simp add: upd_conv_take_nth_drop)
qed

lemma one_phase_single: "one_phase b s \<Longrightarrow> \<not> (\<exists>u v us. filter pending_call (runs s) = u # v # us)"
  by (auto simp: one_phase_def split: list.splits run_call.splits)

lemma closures_bound: "l \<in> set (parserListeners b) \<Longrightarrow> l < next_closure (new_BluettiMqttBridge b)"
  by (simp add: new_BluettiMqttBridge_def less_Suc_eq_le)

lemma removed_last: "l \<notin> set xs \<Longrightarrow> js_set_delete l (xs @ [l]) = xs"
  by (simp add: js_set_delete_def filter_id_conv) auto

lemma running_cleanup:
  assumes "running b s client"
  shows "idle b (snd (cleanupClient off_o end_o client s))"
proof -
  from assms obtain l m where l: "removeParserListener s = Some l" "messageListener s = Some m"
      "parserListeners (bus s) = parserListeners b @ [l]" "l \<notin> set (parserListeners b)" "open_clients s = [client]"
    by (auto simp: running_def split: option.splits)
  then show ?thesis
    by (simp add: idle_def detached_def parser_side.listeners_dispose removed_last)
qed

lemma subscribing_cleanup:
  "subscribing b s client \<Longrightarrow> idle b (snd (cleanupClient off_o end_o client s))"
  by (simp add: subscribing_def idle_def detached_def)

text \<open>Installing the listeners; the one step of \<open>run\<close> that adds anything to the bus.\<close>

lemma install_running:
  assumes "subscribing b s client" and "\<forall>l \<in> set (parserListeners b). l < next_closure s"
  shows "running b (install_listeners client (Inr ()) s) client"
    and "idle b (snd (cleanupClient off_o end_o client (install_listeners client on_o s)))"
proof -
  have fresh: "next_closure s \<notin> set (parserListeners b)" using assms(2) by auto
  then have "js_set_add (next_closure s) (parserListeners (bus s)) = parserListeners b @ [next_closure s]"
    using assms(1) by (simp add: subscribing_def detached_def js_set_add_def)
  then show "running b (install_listeners client (Inr ()) s) client"
    and "idle b (snd (cleanupClient off_o end_o client (install_listeners client on_o s)))"
    using assms(1) fresh
    by (simp_all add: running_def subscribing_def install_listeners_def Let_def idle_def detached_def
        parser_side.listeners_add parser_side.listeners_dispose removed_last)
qed

lemma phase_irrelevant [simp]:
  "detached b (s\<lparr>runs := rs\<rparr>) = detached b s" "idle b (s\<lparr>runs := rs\<rparr>) = idle b s"
  "running b (s\<lparr>runs := rs\<rparr>) = running b s"
  "subscribing b (s\<lparr>runs := rs\<rparr>) = subscribing b s"
  "detached b (s\<lparr>devices := ds\<rparr>) = detached b s" "idle b (s\<lparr>devices := ds\<rparr>) = idle b s"
  "running b (s\<lparr>devices := ds\<rparr>) = running b s"
  "subscribing b (s\<lparr>devices := ds\<rparr>) = subscribing b s"
  by (simp_all add: detached_def idle_def running_def subscribing_def fun_eq_iff split: option.split)

text \<open>The last step of \<open>run\<close>, with every outcome.\<close>

lemma subscribe_settled_outcome:
  assumes one: "one_phase b s" and k: "js_get (runs s) k = Some (AwaitSubscribe client)"
    and s': "s' = subscribe_settled k r on_o off_o end_o s"
  shows "filter pending_call (runs s') = [] \<and> next_closure s \<le> next_closure s' \<and>
    (if r = Inr () \<and> on_o = Inr () then running b s' client \<and> runs s' ! k = RunReturned (Inr ())
     else idle b s' \<and> (\<exists>e. runs s' ! k = RunReturned (Inl e) \<and> (r = Inl e \<or> on_o = Inl e)))"
proof -
  note upd = pending_update [OF k _ one_phase_single [OF one], simplified]
  have sub: "subscribing b s client" and fresh: "\<forall>l \<in> set (parserListeners b). l < next_closure s"
    using one upd(1) by (simp_all add: one_phase_def)
  have bd: "k < length (runs s)" using k by (auto simp: js_get_def split: if_splits)
  have runs: "runs (install_listeners client on_o s) = runs s"
    "next_closure (install_listeners client on_o s) = Suc (Suc (next_closure s))"
    by (simp_all add: install_listeners_def Let_def)
  show ?thesis
  proof (cases r)
    case (Inl e)
    then show ?thesis
      using k bd upd(2) [of "RunReturned (Inl e)"] subscribing_cleanup [OF sub]
      by (simp add: s' subscribe_settled_def)
  next
    case (Inr u)
    then show ?thesis
      using k bd upd(2) runs install_running [OF sub fresh]
      by (cases on_o) (simp_all add: s' subscribe_settled_def Let_def)
  qed
qed

lemma one_phase_devices: "one_phase b (s\<lparr>devices := ds\<rparr>) = one_phase b s"
  by (simp add: one_phase_def split: list.split run_call.split)

lemma handleParserMessage_state:
  "snd (handleParserMessage pub dev parsed s) =
     (if rawClient s = None then s else s\<lparr>devices := obj_set (deviceKey dev) dev (devices s)\<rparr>)"
  by (simp add: handleParserMessage_def split: option.split)

lemma one_phase_step:
  assumes one: "one_phase b s" and ev: "serial_order s ev"
  shows "one_phase b (bridge_step ev s)"
proof (cases ev)
  case RunCalled
  then have "filter pending_call (runs s) = []" using ev by (simp add: run_pending_filter)
  then show ?thesis
    using one RunCalled
    by (cases "rawClient s") (auto simp: one_phase_def run_called_def, auto simp: idle_def running_def)
next
  case (ConnectorSettled k r)
  show ?thesis
  proof (cases "js_get (runs s) k = Some AwaitConnector")
    case True
    note upd = pending_update [OF True _ one_phase_single [OF one], simplified]
    show ?thesis
      using one upd ConnectorSettled True
      by (auto simp: one_phase_def connector_settled_def Let_def subscribing_def idle_def detached_def split: sum.split)
  qed (use one ConnectorSettled in \<open>simp add: connector_settled_def\<close>)
next
  case (SubscribeSettled k r on_o off_o end_o)
  show ?thesis
  proof (cases "\<exists>client. js_get (runs s) k = Some (AwaitSubscribe client)")
    case True
    then obtain client where k: "js_get (runs s) k = Some (AwaitSubscribe client)" by blast
    show ?thesis
      using subscribe_settled_outcome [OF one k refl, of r on_o off_o end_o] one SubscribeSettled
      by (auto simp: one_phase_def split: if_splits)
  next
    case False
    then show ?thesis
      using one SubscribeSettled by (auto simp: subscribe_settled_def split: option.split run_call.split)
  qed
next
  case (StopCalled off_o end_o)
  then have "filter pending_call (runs s) = []" using ev by (simp add: run_pending_filter)
  with one have "idle b s \<or> (\<exists>client. running b s client)" by (simp add: one_phase_def)
  then have "idle b (snd (bridge_stop off_o end_o s))"
    using running_cleanup by (auto simp: bridge_stop_def idle_def running_def)
  then show ?thesis
    using one StopCalled \<open>filter pending_call (runs s) = []\<close>
    by (cases "rawClient s") (simp_all add: one_phase_def bridge_stop_def)
next
  case (ParserMessage pub dev parsed)
  then show ?thesis
    using one by (simp add: handleParserMessage_state one_phase_devices)
qed

lemma one_phase_reachable: "bridge_reachable serial_order b s \<Longrightarrow> one_phase b s"
proof (induction rule: bridge_reachable.induct)
  case start
  then show ?case
    using closures_bound [of _ b]
    by (simp add: one_phase_def) (simp add: new_BluettiMqttBridge_def idle_def detached_def)
qed (rule one_phase_step)

lemmas bridge_step_defs = run_called_def connector_settled_def subscribe_settled_def install_listeners_def
  bridge_stop_def cleanupClient_def drop_message_listener_def dispose_parser_listener_def
  new_BluettiMqttBridge_def handleParserMessage_def addParserListener_def disposeParserListener_def
  js_set_add_def js_set_delete_def new_EventBus_def js_get_def Let_def




end
