(* ===== verification/BridgeTraffic.thy ===== *)
theory BridgeTraffic
  imports Bridge
begin

text \<open>
  What crosses the bridge: the commands it dispatches and the telemetry it publishes, and how
  the two fit together.
\<close>

subsection \<open>The devices a bridge knows\<close>

lemma registry_device_product:
  assumes "registry_device dev"
  obtains d a sn where "d \<in> set BLUETTI_DEFINITIONS" "sn \<noteq> []" "list_all is_digit sn"
    "dev = new_BluettiDeviceModel a sn d"
proof -
  from assms obtain a n where "createDeviceFromAdvertisement a n = Inr dev"
    by (auto simp: registry_device_def)
  then obtain m sn d where "DEVICE_NAME_PATTERN n = Some (m, sn)" "map_of BLUETTI_DEFINITION_MAP m = Some d"
      "dev = new_BluettiDeviceModel a sn d"
    by (auto simp: createDeviceFromAdvertisement_def split: option.splits)
  then show thesis by (intro that) (auto simp: pattern_iff definition_lookup)
qed

text \<open>The dash that ends the product's name is the first of the key.\<close>

lemma COMMAND_TOPIC_groups:
  assumes "COMMAND_TOPIC topic = Some (m, sn, n)"
  shows "list_all (\<lambda>c. is_letter c \<or> is_digit c) m" and "list_all is_digit sn"
  using assms set_takeWhileD
  by (fastforce simp: COMMAND_TOPIC_def Let_def list_all_iff split: if_splits list.splits)+

lemma key_unique:
  assumes "COMMAND_TOPIC topic = Some (m, sn, n)" and "d \<in> set BLUETTI_DEFINITIONS" and "list_all is_digit sn'"
    and "m @ CHR ''-'' # sn = def_type d @ CHR ''-'' # sn'"
  shows "m = def_type d \<and> sn = sn'"
proof -
  let ?P = "\<lambda>c. is_letter c \<or> is_digit c"
  have "\<not> ?P CHR ''-''" by (simp add: is_letter_def is_digit_def)
  moreover have "list_all ?P m" using COMMAND_TOPIC_groups(1) [OF assms(1)] .
  moreover have "list_all ?P (def_type d)" using table_names assms(2) by (simp add: list_all_iff)
  ultimately have "takeWhile ?P (m @ CHR ''-'' # sn) = m"
      "takeWhile ?P (def_type d @ CHR ''-'' # sn') = def_type d"
    by (simp_all add: takeWhile_all_stop)
  then have "m = def_type d" using assms(4) by simp
  then show ?thesis using assms(4) by simp
qed

lemma devices_kept [simp]:
  "devices (run_called s) = devices s"
  "devices (connector_settled k r s) = devices s"
  "devices (install_listeners c r s) = devices s"
  "devices (subscribe_settled k r on_o off_o end_o s) = devices s"
  "devices (snd (bridge_stop off_o end_o s)) = devices s"
  by (simp_all add: run_called_def connector_settled_def install_listeners_def subscribe_settled_def
      bridge_stop_def Let_def split: sum.split option.split run_call.split)

lemma known_devices:
  assumes "bridge_reachable any_order b s" and "map_of (devices s) k = Some dev"
  shows "k = deviceKey dev \<and> registry_device dev"
  using assms
proof (induction arbitrary: k dev)
  case start
  then show ?case by (simp add: new_BluettiMqttBridge_def)
next
  case (step s ev)
  then show ?case
    by (cases ev) (auto simp: handleParserMessage_state split: if_splits)
qed

subsection \<open>Commands\<close>

lemma handleIncomingCommand_Dispatched:
  assumes "handleIncomingCommand topic payload s = Dispatched dev c"
  obtains m sn n where "COMMAND_TOPIC topic = Some (m, sn, n)"
    "map_of (devices s) (m @ CHR ''-'' # sn) = Some dev"
    "buildSetterCommand dev n (parseCommandValue (js_trim payload)) = Inr c"
  using assms that
  by (auto simp: handleIncomingCommand_def split: option.splits sum.splits if_splits)

lemma dispatched_constructed:
  assumes "handleIncomingCommand topic payload s = Dispatched dev c"
  shows "constructed c"
proof -
  obtain m sn n where "buildSetterCommand dev n (parseCommandValue (js_trim payload)) = Inr c"
    using handleIncomingCommand_Dispatched [OF assms] .
  then obtain f enc where "new_WriteSingleRegister (Fin (of_nat (field_address f))) enc = Inr c" by (rule find_field)
  then show ?thesis by (rule constructed_write)
qed

text \<open>What a register that holds \<open>w\<close> is published as.\<close>

definition register_text :: "device_field \<Rightarrow> nat \<Rightarrow> string" where
  "register_text f w = serializeValue (field_value f [w])"

text \<open>The written register is published with the text of the command, or the command was a number.\<close>

lemma setter_text:
  assumes "settable f" and "encode_setter f (parseCommandValue t) = Inr (Fin (of_nat w))"
  shows "register_text f w = t \<or> INTEGER_PAYLOAD_PATTERN t \<and> js_Number t = Fin (of_nat w)"
proof -
  have "shows_value f (parseCommandValue t) w" by (rule encode_shows [OF assms])
  then show ?thesis
    by (auto simp: parseCommandValue_def register_text_def BOOLEAN_ON_VALUE_def BOOLEAN_OFF_VALUE_def
        split: if_splits)
qed

text \<open>A device to evaluate the bridge on.\<close>

definition sample_device :: bluetti_device where
  "sample_device = new_BluettiDeviceModel ''24:4C'' ''2237'' EB3A_definition"

lemma sample_registry_device: "registry_device sample_device"
proof -
  have "map_of BLUETTI_DEFINITION_MAP ''EB3A'' = Some EB3A_definition"
    by (simp add: definition_lookup BLUETTI_DEFINITIONS_def EB3A_definition_def)
  moreover have "DEVICE_NAME_PATTERN ''EB3A2237'' = Some (''EB3A'', ''2237'')"
    by (simp add: pattern_iff pattern_models_def is_digit_def)
  ultimately show ?thesis
    unfolding registry_device_def
    by (intro exI [of _ "''24:4C''"] exI [of _ "''EB3A2237''"])
       (simp add: createDeviceFromAdvertisement_def sample_device_def)
qed

lemmas sample_device_defs = sample_device_def new_BluettiDeviceModel_def writableRanges_def EB3A_definition_def
  buildEb3aStruct_def chain_def struct_builder_defs isAddressWritable_def CORE_def enum_lookup_def LedMode_def

text \<open>A connected bridge that has published telemetry of it.\<close>

definition sample_bridge :: bridge where
  "sample_bridge = bridge_step (ParserMessage (\<lambda>i. Inr ()) sample_device [])
     (bridge_step (ConnectorSettled 0 (Inr ())) (bridge_step RunCalled (new_BluettiMqttBridge new_EventBus)))"

lemma sample_bridge_reachable: "bridge_reachable any_order new_EventBus sample_bridge"
  unfolding sample_bridge_def
  by (intro bridge_reachable.step bridge_reachable.start) (simp_all add: sample_registry_device)

lemma sample_bridge_devices: "devices sample_bridge = [(''EB3A-2237'', sample_device)]"
  by (simp add: sample_bridge_def handleParserMessage_state run_called_def connector_settled_def
      new_BluettiMqttBridge_def deviceKey_def sample_device_def new_BluettiDeviceModel_def
      EB3A_definition_def js_get_def Let_def)

lemma sample_bridge_client: "rawClient sample_bridge = Some 0"
  by (simp add: sample_bridge_def run_called_def connector_settled_def new_BluettiMqttBridge_def js_get_def
      Let_def handleParserMessage_def)

lemma sample_has_led: "hasFieldSetter sample_device ''led_mode''"
  by (simp add: hasFieldSetter_def sample_device_defs)

lemma sample_set_led:
  "buildSetterCommand sample_device ''led_mode'' (SetStr ''SOS'') =
     Inr (WriteSingleRegister 3034 3 (write_frame 3034 3))"
  "buildSetterCommand sample_device ''led_mode'' (SetBool False) =
     Inl (PlainError ''Field expects a known enum option'')"
  using new_WriteSingleRegister_ok [of 3034 3]
  by (simp_all add: buildSetterCommand_def sample_device_defs)

lemma dispatched_write:
  assumes "bridge_reachable any_order b s"
    and "handleIncomingCommand topic payload s = Dispatched dev c"
  shows "\<exists>f \<in> set (dev_struct dev). \<exists>w < 65536.
    COMMAND_TOPIC topic = Some (dev_type dev, dev_serialNumber dev, field_name f) \<and>
    isAddressWritable (field_address f) (writableRanges dev) \<and>
    c = WriteSingleRegister (field_address f) w (write_frame (field_address f) w) \<and>
    (\<exists>v. field_parse f (register_bytes [w]) = Inr v \<and>
       (serializeValue v = js_trim payload \<or>
        INTEGER_PAYLOAD_PATTERN (js_trim payload) \<and> js_Number (js_trim payload) = Fin (of_nat w)))"
proof -
  obtain m sn n where topic: "COMMAND_TOPIC topic = Some (m, sn, n)"
    and dev: "map_of (devices s) (m @ CHR ''-'' # sn) = Some dev"
    and c: "buildSetterCommand dev n (parseCommandValue (js_trim payload)) = Inr c"
    using handleIncomingCommand_Dispatched [OF assms(2)] .
  have known: "m @ CHR ''-'' # sn = deviceKey dev" "registry_device dev"
    using known_devices [OF assms(1) dev] by blast+
  obtain d a sn' where d: "d \<in> set BLUETTI_DEFINITIONS" "list_all is_digit sn'" "dev = new_BluettiDeviceModel a sn' d"
    using known(2) by (rule registry_device_product)
  have names: "m = dev_type dev \<and> sn = dev_serialNumber dev"
    using topic known(1) key_unique [OF topic d(1,2)] d(3) by (simp add: deviceKey_def new_BluettiDeviceModel_def)
  obtain f enc where f: "f \<in> set (dev_struct dev)" "field_name f = n"
      "isAddressWritable (field_address f) (writableRanges dev)"
    and enc: "encode_setter f (parseCommandValue (js_trim payload)) = Inr enc"
      "new_WriteSingleRegister (Fin (of_nat (field_address f))) enc = Inr c"
    using find_field [OF c] .
  from enc(2) obtain w where w: "enc = Fin (of_nat w)" "w < 65536"
      "c = WriteSingleRegister (field_address f) w (write_frame (field_address f) w)"
    by (auto simp: new_WriteSingleRegister_Inr)
  have set: "settable f" using entry_settable [OF d(1)] f d(3) by simp
  then have "field_parse f (register_bytes [w]) = Inr (field_value f [w])"
    using w(2) by (intro field_parse_register_bytes) (cases f; simp)+
  moreover have "register_text f w = js_trim payload \<or>
      INTEGER_PAYLOAD_PATTERN (js_trim payload) \<and> js_Number (js_trim payload) = Fin (of_nat w)"
    using setter_text [OF set] enc(1) w(1) by simp
  ultimately show ?thesis
    using f w names topic by (intro bexI [of _ f] exI [of _ w]) (auto simp: register_text_def)
qed

text \<open>
  A command that the bridge dispatches is a write of one register: the topic names a
  device the bridge has published telemetry of, and a field of its product; the register
  belongs to that field and lies in a range the product declares writable; and once the device
  holds the written value, its telemetry publishes the very text of the command, except for
  a numeric command, whose number is the register's value.
\<close>

theorem command_writes_its_field:
  assumes "bridge_reachable any_order b s"
    and "handleIncomingCommand topic payload s = Dispatched dev c"
  shows "\<exists>f \<in> set (dev_struct dev). \<exists>w < 65536.
    COMMAND_TOPIC topic = Some (dev_type dev, dev_serialNumber dev, field_name f) \<and>
    isAddressWritable (field_address f) (writableRanges dev) \<and>
    c = WriteSingleRegister (field_address f) w (write_frame (field_address f) w) \<and>
    (\<exists>v. field_parse f (register_bytes [w]) = Inr v \<and>
       (serializeValue v = js_trim payload \<or>
        INTEGER_PAYLOAD_PATTERN (js_trim payload) \<and> js_Number (js_trim payload) = Fin (of_nat w)))"
  using dispatched_write [OF assms] .

lemma sample_dispatched:
  "handleIncomingCommand ''bluetti/command/EB3A-2237/led_mode'' '' SOS'' sample_bridge =
     Dispatched sample_device (WriteSingleRegister 3034 3 (write_frame 3034 3))"
  using command_topic_match [of "''EB3A''" "''2237''" "''led_mode''"]
  by (simp add: handleIncomingCommand_def COMMAND_TOPIC_PREFIX_def is_letter_def is_digit_def
      sample_has_led sample_set_led js_trim_def is_js_space_def parseCommandValue_def
      BOOLEAN_ON_VALUE_def BOOLEAN_OFF_VALUE_def INTEGER_PAYLOAD_PATTERN_def sample_bridge_devices)

theorem command_writes_its_field_witness:
  "\<exists>c. handleIncomingCommand ''bluetti/command/EB3A-2237/led_mode'' '' SOS'' sample_bridge = Dispatched sample_device c \<and>
     (\<exists>f w. c = WriteSingleRegister (field_address f) w (write_frame (field_address f) w) \<and> w < 65536)"
  using command_writes_its_field [OF sample_bridge_reachable sample_dispatched] sample_dispatched by blast

subsection \<open>Telemetry echoed as a command\<close>

text \<open>The values a writable field can be given by the text they are published as.\<close>

fun commandable :: "device_field \<Rightarrow> nat \<Rightarrow> bool" where
  "commandable (BoolField n a) w = (w \<le> 1)"
| "commandable (EnumField n a e) w = list_ex (\<lambda>(opt, v). v = w \<and> opt \<noteq> BOOLEAN_OFF_VALUE) e"
| "commandable (UintField n a r) w = (w < 65536)"
| "commandable f w = False"

lemma writable_names_distinct:
  "list_all (\<lambda>d. distinct (map field_name (writable_entry_fields d))) BLUETTI_DEFINITIONS"
  by (simp add: definition_defs writable_entry_fields_def isAddressWritable_def struct_defs
      struct_builder_defs enum_defs)

definition plain_option :: "string \<Rightarrow> bool" where
  "plain_option s = (list_all (\<lambda>c. \<not> is_js_space c) s \<and> \<not> INTEGER_PAYLOAD_PATTERN s \<and> s \<noteq> BOOLEAN_ON_VALUE)"

fun plain_options :: "device_field \<Rightarrow> bool" where
  "plain_options (EnumField n a e) = list_all (\<lambda>(opt, v). plain_option opt) e"
| "plain_options f = True"

lemma writable_options_plain:
  "list_all (\<lambda>d. list_all plain_options (writable_entry_fields d)) BLUETTI_DEFINITIONS"
  by (simp add: definition_defs writable_entry_fields_def isAddressWritable_def struct_defs
      struct_builder_defs enum_defs plain_option_def is_js_space_def INTEGER_PAYLOAD_PATTERN_def is_digit_def
      BOOLEAN_ON_VALUE_def)

lemma decimal_string_value: "n < 2 ^ 53 \<Longrightarrow> parseCommandValue (decimal_string n) = SetNum (Fin (of_nat n))"
proof -
  assume n: "n < 2 ^ 53"
  have pattern: "INTEGER_PAYLOAD_PATTERN (decimal_string n)"
    by (rule integer_pattern_digits) (simp_all add: decimal_string_all_digits)
  obtain c cs where c: "decimal_string n = c # cs" "is_digit c"
    using decimal_string_digits [of _ n] decimal_string_not_Nil [of n] by (cases "decimal_string n") auto
  then have "c \<noteq> CHR ''-''" "c \<noteq> CHR ''O''" by (auto simp: is_digit_def)
  moreover have "js_Number (decimal_string n) = number_of_digits n"
    using c \<open>c \<noteq> CHR ''-''\<close> decimal_value_string [of n] by (simp add: js_Number_def)
  moreover have "number_of_digits n = Fin (of_nat n)"
  proof -
    have "(2 :: nat) ^ 53 < 2 ^ 1024 - 2 ^ 970" by simp
    with n have "n < 2 ^ 1024 - 2 ^ 970" by (rule less_trans)
    with n show ?thesis by (simp add: number_of_digits_def double_of_integer del: One_nat_def)
  qed
  ultimately show ?thesis
    using pattern c by (simp add: parseCommandValue_def BOOLEAN_ON_VALUE_def BOOLEAN_OFF_VALUE_def)
qed

text \<open>The text of a register, given as a command, encodes to the register.\<close>

lemma echo_encodes:
  assumes "settable f" and "plain_options f" and "commandable f w"
  shows "encode_setter f (parseCommandValue (js_trim (register_text f w))) = Inr (Fin (of_nat w))" and "w < 65536"
proof -
  have "encode_setter f (parseCommandValue (js_trim (register_text f w))) = Inr (Fin (of_nat w)) \<and> w < 65536"
  proof (cases f)
    case (BoolField n a)
    then have "w = 0 \<or> w = 1" using assms(3) by auto
    then show ?thesis
      using BoolField
      by (auto simp: register_text_def BOOLEAN_ON_VALUE_def BOOLEAN_OFF_VALUE_def js_trim_def is_js_space_def
          parseCommandValue_def)
  next
    case (UintField n a r)
    then have w: "w < 65536" using assms(3) by simp
    then have "register_text f w = decimal_string w" using UintField by (simp add: register_text_def integer_number_text)
    moreover have "js_trim (decimal_string w) = decimal_string w"
      by (rule js_trim_plain [OF digits_not_spaces [OF decimal_string_all_digits]])
    ultimately show ?thesis using w UintField by (simp add: decimal_string_value)
  next
    case (EnumField n a e)
    then obtain opt where opt: "(opt, w) \<in> set e" "opt \<noteq> BOOLEAN_OFF_VALUE"
      using assms(3) by (auto simp: list_ex_iff)
    have dist: "distinct (map fst e)" "distinct (map snd e)" "\<forall>(n, v) \<in> set e. v < 65536"
      using assms(1) EnumField by (simp_all add: list_all_iff)
    from opt(1) dist(1) have look: "map_of e opt = Some w" by simp
    have shown: "register_text f w = opt"
      using enum_distinct_find [OF dist(2) look] EnumField by (simp add: register_text_def)
    have "plain_option opt" using assms(2) EnumField opt(1) by (auto simp: list_all_iff)
    then have "parseCommandValue (js_trim opt) = SetStr opt"
      using opt(2) by (simp add: plain_option_def js_trim_plain parseCommandValue_def)
    then show ?thesis using EnumField look shown dist(3) opt(1) by (auto simp: enum_lookup_def)
  qed (use assms in simp_all)
  then show "encode_setter f (parseCommandValue (js_trim (register_text f w))) = Inr (Fin (of_nat w))" and "w < 65536"
    by simp_all
qed

lemma find_by_name:
  assumes "distinct (map field_name (filter P fs))" and "f \<in> set fs" and "P f"
  shows "find (\<lambda>g. field_name g = field_name f \<and> P g) fs = Some f"
  using assms by (induction fs) (auto simp: image_iff split: if_splits)

lemma writable_entry:
  assumes "d \<in> set BLUETTI_DEFINITIONS" and "dev = new_BluettiDeviceModel a sn d"
    and "f \<in> set (dev_struct dev)" and "isAddressWritable (field_address f) (writableRanges dev)"
  shows "f \<in> set (writable_entry_fields d)"
    and "find (\<lambda>g. field_name g = field_name f \<and> isAddressWritable (field_address g) (writableRanges dev)) (dev_struct dev) = Some f"
proof -
  have ranges: "writableRanges dev = (case def_writableRanges d of None \<Rightarrow> [] | Some rs \<Rightarrow> rs)"
    using assms(2) by (simp add: writableRanges_def new_BluettiDeviceModel_def)
  then show "f \<in> set (writable_entry_fields d)" using assms by (simp add: writable_entry_fields_def)
  have "distinct (map field_name (writable_entry_fields d))"
    using writable_names_distinct assms(1) by (simp add: list_all_iff)
  then show "find (\<lambda>g. field_name g = field_name f \<and> isAddressWritable (field_address g) (writableRanges dev)) (dev_struct dev) = Some f"
    using assms ranges by (intro find_by_name) (simp_all add: writable_entry_fields_def)
qed



text \<open>
  An option called \<open>OFF\<close> is published as \<open>OFF\<close> but cannot be commanded by its name: the
  bridge takes the payload for a boolean, which an enum field rejects. The LED mode of the
  EB3A has this option.
\<close>

theorem off_option_rejected:
  "serializeValue (field_value (EnumField ''led_mode'' 3034 LedMode) [4]) = ''OFF'' \<and>
   hasFieldSetter sample_device ''led_mode'' \<and>
   handleIncomingCommand (COMMAND_TOPIC_PREFIX @ deviceKey sample_device @ ''/led_mode'') ''OFF'' sample_bridge =
     Rejected (PlainError ''Field expects a known enum option'')"
proof -
  have "COMMAND_TOPIC (COMMAND_TOPIC_PREFIX @ deviceKey sample_device @ ''/led_mode'') =
      Some (''EB3A'', ''2237'', ''led_mode'')"
    using command_topic_match [of "''EB3A''" "''2237''" "''led_mode''"]
    by (simp add: deviceKey_def sample_device_defs is_letter_def is_digit_def)
  then show ?thesis
    by (simp add: handleIncomingCommand_def sample_bridge_devices sample_has_led sample_set_led LedMode_def
        parseCommandValue_def BOOLEAN_ON_VALUE_def BOOLEAN_OFF_VALUE_def js_trim_def is_js_space_def)
qed

subsection \<open>Published telemetry\<close>

lemma publish_each_ok:
  "\<forall>k < length ms. pub (i + k) = Inr () \<Longrightarrow> publish_each pub i ms = (ms, Inr ())"
proof (induction ms arbitrary: i)
  case (Cons m ms)
  have "pub i = Inr ()" using Cons.prems [rule_format, of 0] by simp
  moreover have "publish_each pub (Suc i) ms = (ms, Inr ())"
  proof (rule Cons.IH, intro allI impI)
    fix k assume "k < length ms"
    then show "pub (Suc i + k) = Inr ()" using Cons.prems [rule_format, of "Suc k"] by simp
  qed
  ultimately show ?case by simp
qed simp

lemma publish_each_prefix:
  assumes "publish_each pub i ms = (sent, r)"
  shows "\<exists>k \<le> length ms. sent = take k ms \<and>
    (case r of Inr u \<Rightarrow> k = length ms | Inl e \<Rightarrow> 0 < k \<and> pub (i + k - 1) = Inl e)"
  using assms
proof (induction ms arbitrary: i sent r)
  case (Cons m ms)
  show ?case
  proof (cases "pub i")
    case (Inl e)
    then show ?thesis using Cons.prems by (intro exI [of _ 1]) (auto split: sum.splits)
  next
    case (Inr u)
    obtain sent' where "publish_each pub (Suc i) ms = (sent', r)" "sent = m # sent'"
      using Cons.prems Inr by (auto split: prod.splits)
    with Cons.IH [OF this(1)] obtain k where "k \<le> length ms" "sent' = take k ms"
        "case r of Inr u \<Rightarrow> k = length ms | Inl e \<Rightarrow> 0 < k \<and> pub (Suc i + k - 1) = Inl e"
      by blast
    then show ?thesis using \<open>sent = m # sent'\<close> by (intro exI [of _ "Suc k"]) (auto split: sum.splits)
  qed
qed auto

text \<open>What a parser message is published as.\<close>

definition telemetry_messages :: "bluetti_device \<Rightarrow> parsed_field_map \<Rightarrow> (string \<times> string) list" where
  "telemetry_messages dev parsed =
     map (\<lambda>(name, v). (state_topic dev name, serializeValue v)) parsed @
     [(state_topic dev RAW_SNAPSHOT_SUFFIX, json_text (normalizeRecord parsed))]"

lemma telemetry_all_sent:
  assumes "rawClient s = Some client"
  shows "fst (handleParserMessage (\<lambda>i. Inr ()) dev parsed s) = (telemetry_messages dev parsed, Inr ())"
  using assms publish_each_ok [of "map (\<lambda>(name, v). (state_topic dev name, serializeValue v)) parsed" "\<lambda>i. Inr ()" 0]
  by (simp add: handleParserMessage_def telemetry_messages_def)

text \<open>
  C29: while the bridge is connected, a parser message is published as one message per field, in
  the order of the map, each on the field's own topic, and then the snapshot; a failed
  publication ends the message after a prefix, with its error; when all succeed, every message
  is sent. The device can be commanded from then on.
\<close>

theorem telemetry_published:
  assumes "rawClient s = Some client" and "handleParserMessage pub dev parsed s = ((sent, r), s')"
  shows "(\<exists>k. sent = take k (telemetry_messages dev parsed) \<and>
      (case r of Inr u \<Rightarrow> sent = telemetry_messages dev parsed
       | Inl e \<Rightarrow> 0 < k \<and> k \<le> length (telemetry_messages dev parsed) \<and> pub (k - 1) = Inl e)) \<and>
    ((\<forall>i < length (telemetry_messages dev parsed). pub i = Inr ()) \<longrightarrow>
       r = Inr () \<and> sent = telemetry_messages dev parsed) \<and>
    map_of (devices s') (deviceKey dev) = Some dev"
proof -
  let ?ms = "map (\<lambda>(name, v). (state_topic dev name, serializeValue v)) parsed"
  let ?all = "telemetry_messages dev parsed"
  obtain sent0 r0 where each: "publish_each pub 0 ?ms = (sent0, r0)" by fastforce
  have len: "length ?all = Suc (length ?ms)" by (simp add: telemetry_messages_def)
  have all: "?all = ?ms @ [(state_topic dev RAW_SNAPSHOT_SUFFIX, json_text (normalizeRecord parsed))]"
    by (simp add: telemetry_messages_def)
  obtain k where k: "k \<le> length ?ms" "sent0 = take k ?ms"
      "case r0 of Inr u \<Rightarrow> k = length ?ms | Inl e \<Rightarrow> 0 < k \<and> pub (k - 1) = Inl e"
    using publish_each_prefix [OF each] unfolding add_0 by blast
  have res: "(sent, r) = (case r0 of Inl e \<Rightarrow> (sent0, Inl e)
      | Inr u \<Rightarrow> (sent0 @ [(state_topic dev RAW_SNAPSHOT_SUFFIX, json_text (normalizeRecord parsed))], pub (length sent0)))"
    and dev: "map_of (devices s') (deviceKey dev) = Some dev"
    using assms each by (auto simp: handleParserMessage_def split: sum.splits)
  have "\<exists>k. sent = take k ?all \<and> (case r of Inr u \<Rightarrow> sent = ?all
       | Inl e \<Rightarrow> 0 < k \<and> k \<le> length ?all \<and> pub (k - 1) = Inl e)"
  proof (cases r0)
    case (Inl e)
    then show ?thesis using res k len by (intro exI [of _ k]) (auto simp: all)
  next
    case (Inr u)
    then have "sent = ?all" "r = pub (length ?ms)" using res k by (simp_all add: all)
    then show ?thesis using len by (intro exI [of _ "length ?all"]) (auto split: sum.split)
  qed
  moreover have "r = Inr () \<and> sent = ?all" if ok: "\<forall>i < length ?all. pub i = Inr ()"
  proof -
    have "publish_each pub 0 ?ms = (?ms, Inr ())" using ok len by (intro publish_each_ok) simp
    then show ?thesis using res each ok len by (simp add: all)
  qed
  ultimately show ?thesis using dev by blast
qed

theorem telemetry_published_witness:
  "fst (fst (handleParserMessage (\<lambda>i. Inr ()) sample_device [(''dc_output_on'', VBool True)] sample_bridge)) =
   [(''bluetti/state/EB3A-2237/dc_output_on'', ''ON''),
    (''bluetti/state/EB3A-2237/_raw'', ''{'' @ [CHR 0x22] @ ''dc_output_on'' @ [CHR 0x22] @ '':true}'')]"
proof -
  let ?h = "handleParserMessage (\<lambda>i. Inr ()) sample_device [(''dc_output_on'', VBool True)] sample_bridge"
  have "fst (fst ?h) = telemetry_messages sample_device [(''dc_output_on'', VBool True)]"
    using telemetry_published [of sample_bridge 0 "\<lambda>i. Inr ()" sample_device
        "[(''dc_output_on'', VBool True)]" "fst (fst ?h)" "snd (fst ?h)" "snd ?h"] sample_bridge_client by simp
  then show ?thesis
    by (simp add: telemetry_messages_def state_topic_def STATE_TOPIC_PREFIX_def RAW_SNAPSHOT_SUFFIX_def
        sample_device_defs BOOLEAN_ON_VALUE_def normalizeRecord_def json_quote_def json_escape_def)
qed

end
