(* ===== verification/QueuedSession.thy ===== *)
theory QueuedSession
  imports Queue Session
begin

text \<open>
  The work queue and the sessions together, as \<open>app/device-executor.ts\<close> uses them: every command
  is the work of one job of the queue; when its turn comes the job asks the manager for the
  session of its address and calls \<open>perform\<close>, in one piece of code, and it ends when the call
  has returned. Sessions are opened and dropped by \<open>connectAll\<close>, \<open>reconnect\<close> and
  \<open>disconnectAll\<close> (\<open>bluetooth/manager.ts\<close>) at any time, and a dropped session lives on while calls
  refer to it. The queue's mutex is what the session's proofs assume of its callers.
\<close>

subsection \<open>State and steps\<close>

record device_lines =
  line_queue :: work_queue
  line_commands :: "command list"
  line_sessions :: "(string \<times> world) list"
  line_current :: "(string \<times> nat) list"
  line_calls :: "(nat \<times> nat \<times> nat) list"

definition new_device_lines :: device_lines where
  "new_device_lines = \<lparr>line_queue = new_DeviceWorkQueue, line_commands = [], line_sessions = [],
     line_current = [], line_calls = []\<rparr>"

definition session_world :: "device_lines \<Rightarrow> nat \<Rightarrow> world" where
  "session_world s i = snd (line_sessions s ! i)"

definition set_world :: "nat \<Rightarrow> world \<Rightarrow> device_lines \<Rightarrow> device_lines" where
  "set_world i w s = s\<lparr>line_sessions := (line_sessions s)[i := (fst (line_sessions s ! i), w)]\<rparr>"

text \<open>\<open>enqueueDeviceWork(address, \<dots>)\<close>.\<close>

definition submit :: "string \<Rightarrow> command \<Rightarrow> device_lines \<Rightarrow> device_lines" where
  "submit address c s =
     s\<lparr>line_queue := enqueue address (line_queue s), line_commands := line_commands s @ [c]\<rparr>"

text \<open>The start of the work; without a session, \<open>getSession\<close> throws and nothing is performed.\<close>

definition begin_work :: "nat \<Rightarrow> device_lines \<Rightarrow> device_lines option" where
  "begin_work k s =
     (case start_job k (line_queue s) of
        None \<Rightarrow> None
      | Some q \<Rightarrow>
          (case map_of (line_current s) (address_of q k) of
             None \<Rightarrow> Some (s\<lparr>line_queue := q\<rparr>)
           | Some i \<Rightarrow>
               (let w = session_world s i
                in Some ((set_world i (perform_start (line_commands s ! k) w) s)
                     \<lparr>line_queue := q, line_calls := obj_set k (i, fresh w) (line_calls s)\<rparr>))))"

definition work_over :: "device_lines \<Rightarrow> nat \<Rightarrow> bool" where
  "work_over s k = (case map_of (line_calls s) k of
     None \<Rightarrow> True | Some (i, n) \<Rightarrow> map_of (returned (session_world s i)) n \<noteq> None)"

definition end_work :: "nat \<Rightarrow> device_lines \<Rightarrow> device_lines option" where
  "end_work k s =
     (if work_over s k then map_option (\<lambda>q. s\<lparr>line_queue := q\<rparr>) (finish_job k (line_queue s)) else None)"

definition open_line :: "string \<Rightarrow> device_lines \<Rightarrow> device_lines" where
  "open_line address s =
     s\<lparr>line_sessions := line_sessions s @ [(address, ready_world)],
       line_current := obj_set address (length (line_sessions s)) (line_current s)\<rparr>"

definition drop_line :: "string \<Rightarrow> device_lines \<Rightarrow> device_lines" where
  "drop_line address s = s\<lparr>line_current := obj_delete address (line_current s)\<rparr>"

datatype line_event =
    Submit string command
  | BeginWork nat
  | EndWork nat
  | OpenLine string
  | DropLine string
  | InSession nat event

fun line_step :: "line_event \<Rightarrow> device_lines \<Rightarrow> device_lines option" where
  "line_step (Submit a c) s = Some (submit a c s)"
| "line_step (BeginWork k) s = begin_work k s"
| "line_step (EndWork k) s = end_work k s"
| "line_step (OpenLine a) s = Some (open_line a s)"
| "line_step (DropLine a) s = Some (drop_line a s)"
| "line_step (InSession i e) s =
     (if i < length (line_sessions s)
      then map_option (\<lambda>w. set_world i w s) (session_step e (session_world s i)) else None)"

text \<open>
  Commands come from the constructors of their classes, and only jobs call \<open>perform\<close>.
\<close>

fun line_guard :: "line_event \<Rightarrow> bool" where
  "line_guard (Submit a c) = constructed c"
| "line_guard (InSession i (Perform c)) = False"
| "line_guard e = True"

inductive lines_reachable :: "device_lines \<Rightarrow> bool" where
  start: "lines_reachable new_device_lines"
| step: "\<lbrakk>lines_reachable s; line_guard e; line_step e s = Some s'\<rbrakk> \<Longrightarrow> lines_reachable s'"

subsection \<open>The calls a session knows\<close>

definition known_calls :: "world \<Rightarrow> (nat \<times> command) set" where
  "known_calls w = (\<lambda>(n, c, pt). (n, c)) ` set (calls w) \<union> (\<lambda>(n, c, r). (n, c)) ` set (returned w)"

lemma known_calls_iff:
  "(n, c) \<in> known_calls w \<longleftrightarrow> (\<exists>pt. (n, c, pt) \<in> set (calls w)) \<or> (\<exists>r. (n, c, r) \<in> set (returned w))"
  by (force simp: known_calls_def)

lemma known_callsI:
  "(n, c, pt) \<in> set (calls w) \<Longrightarrow> (n, c) \<in> known_calls w"
  "(n, c, r) \<in> set (returned w) \<Longrightarrow> (n, c) \<in> known_calls w"
  by (auto simp: known_calls_iff)

definition open_ids :: "world \<Rightarrow> nat set" where "open_ids w = fst ` set (calls w)"
definition done_ids :: "world \<Rightarrow> nat set" where "done_ids w = fst ` set (returned w)"

text \<open>Call numbers in use are old, and a call that has returned is not in flight.\<close>

definition calls_sane :: "world \<Rightarrow> bool" where
  "calls_sane w \<longleftrightarrow> (\<forall>n c. (n, c) \<in> known_calls w \<longrightarrow> n < fresh w) \<and> open_ids w \<inter> done_ids w = {}"

lemma ids_simps [simp]:
  "done_ids (write_done n c w) = done_ids w" "done_ids (finish_call n c r w) = insert n (done_ids w)"
  "open_ids ready_world = {}"
  by (simp_all add: done_ids_def open_ids_def write_done_def finish_call_def ready_world_def)

lemma ready_sane: "calls_sane ready_world"
  by (simp add: calls_sane_def known_calls_iff open_ids_def) (simp add: ready_world_def)

lemma ids_frame: "calls w' = calls w \<Longrightarrow> open_ids w' = open_ids w" "returned w' = returned w \<Longrightarrow> done_ids w' = done_ids w"
  by (simp_all add: open_ids_def done_ids_def)

lemma open_ids_known: "map_of (calls w) n = Some (c, pt) \<Longrightarrow> (n, c) \<in> known_calls w \<and> n \<in> open_ids w"
  by (force simp: open_ids_def known_calls_iff dest: map_of_SomeD)

lemma open_ids_Nil: "open_ids w = {} \<longleftrightarrow> calls w = []"
  by (simp add: open_ids_def)

lemma done_ids_known: "n \<in> done_ids w \<longleftrightarrow> map_of (returned w) n \<noteq> None"
  by (simp add: done_ids_def map_of_eq_None_iff)

text \<open>What a step of the session that makes no new call does to the calls.\<close>

definition keeps :: "world \<Rightarrow> world \<Rightarrow> bool" where
  "keeps w w' \<longleftrightarrow> known_calls w' \<subseteq> known_calls w \<and> fresh w' = fresh w \<and>
     open_ids w' \<subseteq> open_ids w \<and> (calls_sane w \<longrightarrow> calls_sane w')"

lemma keeps_refl: "keeps w w"
  by (simp add: keeps_def)

lemma keeps_trans: "keeps w v \<Longrightarrow> keeps v u \<Longrightarrow> keeps w u"
  unfolding keeps_def by (metis subset_trans)

lemma keeps_frame:
  assumes "calls w' = calls w" and "returned w' = returned w" and "fresh w' = fresh w"
  shows "keeps w w'"
  using assms ids_frame(1) [OF assms(1)] ids_frame(2) [OF assms(2)]
  by (simp add: keeps_def known_calls_def calls_sane_def)

lemma set_update: "set (obj_set k v ps) \<subseteq> insert (k, v) (set ps)"
  by (induction ps) auto

lemma keeps_finish:
  assumes "map_of (calls w) n = Some (c, pt)"
  shows "keeps w (finish_call n c r w)"
proof -
  have n: "(n, c) \<in> known_calls w" "n \<in> open_ids w"
    using open_ids_known [OF assms] by simp_all
  have "known_calls (finish_call n c r w) \<subseteq> known_calls w"
    using n(1) by (intro subrelI) (auto simp: known_calls_iff finish_call_def AList.delete_eq)
  moreover have "open_ids (finish_call n c r w) \<subseteq> open_ids w - {n}"
    by (auto simp: open_ids_def finish_call_def AList.delete_eq)
  moreover have "fresh (finish_call n c r w) = fresh w" by (simp add: finish_call_def)
  ultimately show ?thesis by (auto simp: keeps_def calls_sane_def)
qed

lemma keeps_write_done:
  assumes "map_of (calls w) n = Some (c, pt)"
  shows "keeps w (write_done n c w)"
proof -
  have n: "(n, c) \<in> known_calls w" "n \<in> open_ids w"
    using open_ids_known [OF assms] by simp_all
  have "set (calls (write_done n c w)) \<subseteq> insert (n, c, AtResponse) (set (calls w))"
    using set_update [of n "(c, AtResponse)" "calls w"] by (simp add: write_done_def)
  moreover from this have "known_calls (write_done n c w) \<subseteq> known_calls w"
    using n(1) by (intro subrelI) (auto simp: known_calls_iff write_done_def)
  moreover have "open_ids (write_done n c w) \<subseteq> insert n (open_ids w)"
    using calculation(1) by (auto simp: open_ids_def)
  ultimately have "known_calls (write_done n c w) \<subseteq> known_calls w" "open_ids (write_done n c w) \<subseteq> open_ids w"
    using n(2) by auto
  moreover have "fresh (write_done n c w) = fresh w" by (simp add: write_done_def)
  ultimately show ?thesis by (auto simp: keeps_def calls_sane_def)
qed

lemma pending_frame:
  "calls (clearPendingState w) = calls w" "returned (clearPendingState w) = returned w" "fresh (clearPendingState w) = fresh w"
  "calls (settle_pending r w) = calls w" "returned (settle_pending r w) = returned w" "fresh (settle_pending r w) = fresh w"
  "fresh (set_state st w) = fresh w"
  by (simp_all add: clearPendingState_def settle_pending_def settle_def set_state_def split: option.split)

lemma keeps_notify: "keeps w (handleNotification d w)"
proof -
  have "returned (handleNotification d w) = returned w" "fresh (handleNotification d w) = fresh w"
    by (simp_all add: handleNotification_def rejectPending_def resolvePending_def pending_frame Let_def
        split: option.split)
  then show ?thesis by (intro keeps_frame) simp_all
qed

lemma keeps_step:
  assumes "session_step e w = Some w'" and "\<And>c. e \<noteq> Perform c"
  shows "keeps w w'"
proof (cases e)
  case (WriteDone n)
  then show ?thesis using assms(1) keeps_write_done by (auto split: option.splits call_point.splits)
next
  case (WriteFailed n err)
  then obtain c where c: "map_of (calls w) n = Some (c, AtWrite)" "w' = write_failed n c err w"
    using assms(1) by (auto split: option.splits call_point.splits)
  let ?v = "clearPendingState (settle_pending (Inl err) (set_state Disconnecting w))"
  have "keeps w ?v" by (rule keeps_frame) (simp_all add: pending_frame)
  moreover have "keeps ?v (finish_call n c (Inl err) ?v)"
    by (rule keeps_finish [where pt = AtWrite]) (simp add: pending_frame c(1))
  ultimately show ?thesis unfolding c(2) write_failed_def by (rule keeps_trans)
next
  case (Resume n)
  then obtain c r where c: "map_of (calls w) n = Some (c, AtResponse)" "w' = response_resumed n c r w"
    using assms(1) by (auto split: option.splits call_point.splits)
  have "keeps w (finish_call n c r (clearPendingState v))" if v: "v = w \<or> v = set_state Ready w" for v
  proof (rule keeps_trans)
    show "keeps w (clearPendingState v)" by (rule keeps_frame) (use v in \<open>auto simp: pending_frame\<close>)
    show "keeps (clearPendingState v) (finish_call n c r (clearPendingState v))"
      by (rule keeps_finish [where pt = AtResponse]) (use v c(1) in \<open>auto simp: pending_frame\<close>)
  qed
  then show ?thesis unfolding c(2) response_resumed_def by (cases r) simp_all
next
  case (TimerFires t)
  then show ?thesis
    using assms(1) by (auto simp: timeout_fired_def rejectPending_def pending_frame intro!: keeps_frame split: if_splits)
next
  case DisconnectEnd
  then show ?thesis using assms(1) by (auto simp: disconnect_end_def intro!: keeps_frame split: if_splits)
next
  case DisconnectStart
  then show ?thesis using assms(1) by (auto simp: disconnect_start_def pending_frame intro!: keeps_frame)
qed (use assms keeps_notify in auto)

text \<open>A call of \<open>perform\<close> when none is in flight.\<close>

lemma known_perform:
  "known_calls (perform_start c w) = insert (fresh w, c) (known_calls w)" "fresh (perform_start c w) = Suc (fresh w)"
  by (auto simp: known_calls_def perform_start_def)

lemma perform_calls:
  "calls w = [] \<Longrightarrow> calls (perform_start c w) = (if isReady (sess w) then [(fresh w, c, AtWrite)] else [])"
  by (simp add: perform_start_def)

lemma perform_sane:
  assumes "calls_sane w" and "calls w = []"
  shows "calls_sane (perform_start c w)"
proof -
  have "fresh w \<notin> done_ids w"
    using assms(1) by (fastforce simp: calls_sane_def done_ids_def known_calls_iff)
  then have "open_ids (perform_start c w) \<inter> done_ids (perform_start c w) = {}"
    using assms(2) by (simp add: perform_start_def open_ids_def done_ids_def)
  then show ?thesis
    using assms(1) by (auto simp: calls_sane_def known_perform less_Suc_eq)
qed

subsection \<open>Serial histories\<close>

lemma serial_run_append:
  "serial_run (es @ es') w = (case serial_run es w of None \<Rightarrow> None | Some v \<Rightarrow> serial_run es' v)"
  by (induction es arbitrary: w) (auto split: option.split)

definition serial_history :: "world \<Rightarrow> bool" where
  "serial_history w \<longleftrightarrow> (\<exists>es. serial_run es ready_world = Some w \<and> commands_constructed es)"

lemma history_start: "serial_history ready_world"
  using ready_run_nil unfolding serial_history_def by blast

lemma history_step:
  assumes "serial_history w" and "session_step e w = Some w'"
    and "\<And>c. e = Perform c \<Longrightarrow> calls w = [] \<and> constructed c"
  shows "serial_history w'"
proof -
  obtain es where es: "serial_run es ready_world = Some w" "commands_constructed es"
    using assms(1) by (auto simp: serial_history_def)
  have "serial_run (es @ [e]) ready_world = Some w'"
    using es(1) assms(2,3) by (auto simp: serial_run_append)
  moreover have "commands_constructed (es @ [e])"
    using es(2) assms(3) by (auto simp: commands_constructed_def)
  ultimately show ?thesis unfolding serial_history_def by blast
qed

lemma history_inv: "serial_history w \<Longrightarrow> session_inv w"
  using serial_run_inv by (auto simp: serial_history_def)

lemma history_calls: "serial_history w \<Longrightarrow> calls w = [] \<or> (\<exists>n c pt. calls w = [(n, c, pt)])"
  using history_inv by (auto simp: session_inv_def call_inv_def)

subsection \<open>The invariant of the composition\<close>

text \<open>Every session has a serial history, and a call in flight belongs to a running job of its address.\<close>

definition session_ok :: "device_lines \<Rightarrow> nat \<Rightarrow> bool" where
  "session_ok s i \<longleftrightarrow> serial_history (session_world s i) \<and> calls_sane (session_world s i) \<and>
     (\<forall>n \<in> open_ids (session_world s i). \<exists>k < length (jobs (line_queue s)).
        phase_of (line_queue s) k = Running \<and> address_of (line_queue s) k = fst (line_sessions s ! i) \<and>
        map_of (line_calls s) k = Some (i, n))"

lemma session_ok_job:
  assumes "session_ok s i" and "n \<in> open_ids (session_world s i)"
  obtains k where "k < length (jobs (line_queue s))" "phase_of (line_queue s) k = Running"
    "address_of (line_queue s) k = fst (line_sessions s ! i)" "map_of (line_calls s) k = Some (i, n)"
  using assms by (auto simp: session_ok_def)

definition job_ok :: "device_lines \<Rightarrow> nat \<Rightarrow> bool" where
  "job_ok s k \<longleftrightarrow> (case map_of (line_calls s) k of None \<Rightarrow> True
     | Some (i, n) \<Rightarrow> i < length (line_sessions s) \<and> n < fresh (session_world s i) \<and>
         k < length (line_commands s) \<and>
         (\<forall>c. (n, c) \<in> known_calls (session_world s i) \<longrightarrow> c = line_commands s ! k))"

definition lines_inv :: "device_lines \<Rightarrow> bool" where
  "lines_inv s \<longleftrightarrow> queue_reachable (line_queue s) \<and> length (line_commands s) = length (jobs (line_queue s)) \<and>
     list_all constructed (line_commands s) \<and>
     (\<forall>a i. map_of (line_current s) a = Some i \<longrightarrow> i < length (line_sessions s) \<and> fst (line_sessions s ! i) = a) \<and>
     (\<forall>i < length (line_sessions s). session_ok s i) \<and> (\<forall>k. job_ok s k)"

lemma set_world_simps [simp]:
  "line_queue (set_world i w s) = line_queue s" "line_commands (set_world i w s) = line_commands s"
  "line_current (set_world i w s) = line_current s" "line_calls (set_world i w s) = line_calls s"
  "length (line_sessions (set_world i w s)) = length (line_sessions s)"
  by (simp_all add: set_world_def)

lemma set_world_nth:
  assumes "i < length (line_sessions s)"
  shows "session_world (set_world i w s) j = (if j = i then w else session_world s j)"
    and "fst (line_sessions (set_world i w s) ! j) = fst (line_sessions s ! j)"
  using assms by (cases "j = i"; simp add: set_world_def session_world_def)+

lemma session_world_frame [simp]:
  "session_world (s\<lparr>line_queue := q\<rparr>) = session_world s" "session_world (s\<lparr>line_calls := x\<rparr>) = session_world s"
  "session_world (s\<lparr>line_queue := q, line_calls := x\<rparr>) = session_world s"
  "session_world (s\<lparr>line_current := y\<rparr>) = session_world s"
  by (simp_all add: fun_eq_iff session_world_def)

text \<open>When a job starts, no call of its address's session is in flight.\<close>

lemma start_finds_no_call:
  assumes inv: "lines_inv s" and start: "start_job k (line_queue s) = Some q"
    and cur: "map_of (line_current s) (address_of q k) = Some i"
  shows "calls (session_world s i) = []"
proof (rule ccontr)
  let ?q = "line_queue s"
  assume "calls (session_world s i) \<noteq> []"
  then obtain n where "n \<in> open_ids (session_world s i)" using open_ids_Nil by blast
  moreover have "session_ok s i" "fst (line_sessions s ! i) = address_of q k"
    using inv cur by (auto simp: lines_inv_def)
  ultimately obtain j where j: "j < length (jobs ?q)" "phase_of ?q j = Running" "address_of ?q j = address_of q k"
    by (auto simp: session_ok_def)
  have k: "k < length (jobs ?q)" "phase_of ?q k = Waiting" "q = set_phase k Running ?q"
    using start by (auto simp: start_job_def split: if_splits)
  have "queue_reachable q"
    using inv start queue_reachable.step [of ?q "StartJob k" q] by (simp add: lines_inv_def)
  moreover have "mutex.inside q j" "mutex.inside q k" "address_of q j = address_of q k"
    using j k by (auto simp: mutex.inside_def set_phase_nth)
  ultimately have "j = k" by (rule mutex.exclusive)
  then show False using j(2) k(2) by simp
qed

lemma inv_frame:
  assumes "lines_inv s" and "queue_reachable q" and "length (jobs q) = length (jobs (line_queue s))"
    and "\<And>k. address_of q k = address_of (line_queue s) k"
    and "\<And>i n k. \<lbrakk>i < length (line_sessions s); n \<in> open_ids (session_world s i);
       map_of (line_calls s) k = Some (i, n); phase_of (line_queue s) k = Running\<rbrakk> \<Longrightarrow> phase_of q k = Running"
  shows "lines_inv (s\<lparr>line_queue := q\<rparr>)"
proof -
  have "session_ok (s\<lparr>line_queue := q\<rparr>) i" if i: "i < length (line_sessions s)" for i
  proof -
    have ok: "session_ok s i" using assms(1) i by (simp add: lines_inv_def)
    have "\<exists>k < length (jobs q). phase_of q k = Running \<and> address_of q k = fst (line_sessions s ! i) \<and>
        map_of (line_calls s) k = Some (i, n)" if "n \<in> open_ids (session_world s i)" for n
      using ok that assms(3-5) i unfolding session_ok_def by metis
    then show ?thesis using ok by (simp add: session_ok_def)
  qed
  moreover have "job_ok (s\<lparr>line_queue := q\<rparr>) k = job_ok s k" for k
    by (simp add: job_ok_def cong: option.case_cong prod.case_cong)
  ultimately show ?thesis using assms(1-3) by (simp add: lines_inv_def)
qed

lemma begin_work_inv:
  assumes inv: "lines_inv s" and step: "begin_work k s = Some s'"
  shows "lines_inv s'"
proof -
  let ?q = "line_queue s"
  obtain q where start: "start_job k ?q = Some q" using step by (auto simp: begin_work_def split: option.splits)
  have k: "k < length (jobs ?q)" "phase_of ?q k = Waiting" "q = set_phase k Running ?q"
    using start by (auto simp: start_job_def split: if_splits)
  have reach: "queue_reachable q"
    using inv start queue_reachable.step [of ?q "StartJob k" q] by (simp add: lines_inv_def)
  have frame: "lines_inv (s\<lparr>line_queue := q\<rparr>)"
    using k by (intro inv_frame [OF inv reach]) (simp_all add: set_phase_nth)
  show ?thesis
  proof (cases "map_of (line_current s) (address_of q k)")
    case None
    then show ?thesis using step start frame by (simp add: begin_work_def)
  next
    case (Some i)
    let ?w = "session_world s i" and ?c = "line_commands s ! k"
    let ?s = "(set_world i (perform_start ?c ?w) s)\<lparr>line_queue := q, line_calls := obj_set k (i, fresh ?w) (line_calls s)\<rparr>"
    have s': "s' = ?s" using step start Some by (simp add: begin_work_def Let_def)
    have i: "i < length (line_sessions s)" "fst (line_sessions s ! i) = address_of q k"
      using inv Some by (auto simp: lines_inv_def)
    have none: "calls ?w = []" by (rule start_finds_no_call [OF inv start Some])
    have c: "constructed ?c" "k < length (line_commands s)" using inv k(1) by (auto simp: lines_inv_def list_all_length)
    have ok: "serial_history ?w" "calls_sane ?w" using inv i(1) by (auto simp: lines_inv_def session_ok_def)
    note worlds = set_world_nth [OF i(1)]
    have "session_ok ?s j" if j: "j < length (line_sessions s)" for j
    proof (cases "j = i")
      case True
      have "serial_history (perform_start ?c ?w)"
        using history_step [OF ok(1), of "Perform ?c"] none c(1) by simp
      then show ?thesis
        using perform_sane [OF ok(2) none] none i(2) k
        by (auto simp: session_ok_def worlds True perform_calls open_ids_def set_phase_nth split: if_splits intro!: exI [of _ k])
    next
      case False
      have ok: "session_ok s j" using inv j by (simp add: lines_inv_def)
      have "\<exists>m < length (jobs q). phase_of q m = Running \<and> address_of q m = fst (line_sessions s ! j) \<and>
          m \<noteq> k \<and> map_of (line_calls s) m = Some (j, n)" if n: "n \<in> open_ids (session_world s j)" for n
      proof -
        obtain m where m: "m < length (jobs ?q)" "phase_of ?q m = Running" "address_of ?q m = fst (line_sessions s ! j)"
            "map_of (line_calls s) m = Some (j, n)"
          by (rule session_ok_job [OF ok n])
        have mk: "m \<noteq> k" using m(2) k(2) by auto
        have "phase_of q m = Running" unfolding k(3) set_phase_nth(3) [OF k(1)] using mk m(2) by simp
        moreover have "address_of q m = fst (line_sessions s ! j)" unfolding k(3) set_phase_nth(1) [OF k(1)] by (rule m(3))
        moreover have "m < length (jobs q)" unfolding k(3) set_phase_simps by (rule m(1))
        ultimately show ?thesis using mk m(4) by blast
      qed
      then have "\<forall>n \<in> open_ids (session_world s j). \<exists>m < length (jobs q). phase_of q m = Running \<and>
          address_of q m = fst (line_sessions s ! j) \<and> map_of (obj_set k (i, fresh ?w) (line_calls s)) m = Some (j, n)"
        by fastforce
      then show ?thesis using ok False by (simp add: session_ok_def worlds)
    qed
    moreover have "job_ok ?s j" for j
    proof (cases "j = k")
      case True
      have "\<forall>d. (fresh ?w, d) \<notin> known_calls ?w" using ok(2) by (auto simp: calls_sane_def)
      then show ?thesis using True i(1) c(2) by (simp add: job_ok_def worlds known_perform)
    next
      case False
      have "job_ok s j" using inv by (simp add: lines_inv_def)
      then show ?thesis
        using False by (auto simp: job_ok_def worlds known_perform split: option.splits)
    qed
    ultimately show ?thesis
      using inv reach k i unfolding s' by (simp add: lines_inv_def worlds)
  qed
qed

text \<open>A job ends when its call has returned, so no call in flight loses its job.\<close>

lemma end_work_inv:
  assumes inv: "lines_inv s" and step: "end_work k s = Some s'"
  shows "lines_inv s'"
proof -
  obtain q where q: "finish_job k (line_queue s) = Some q" "s' = s\<lparr>line_queue := q\<rparr>" and over: "work_over s k"
    using step by (auto simp: end_work_def split: if_splits)
  have k: "k < length (jobs (line_queue s))" "jobs q = jobs (set_phase k Finished (line_queue s))"
    using q(1) by (auto simp: finish_job_def Let_def split: if_splits)
  have phases: "address_of q j = address_of (line_queue s) j"
      "phase_of q j = (if j = k then Finished else phase_of (line_queue s) j)" for j
    using k set_phase_nth [OF k(1), of Finished j] by (simp_all add: address_of_def phase_of_def)
  have "j \<noteq> k" if "i < length (line_sessions s)" "n \<in> open_ids (session_world s i)"
      "map_of (line_calls s) j = Some (i, n)" for i n j
  proof
    assume "j = k"
    then have "n \<in> done_ids (session_world s i)"
      using over that(3) by (simp add: work_over_def done_ids_known)
    moreover have "calls_sane (session_world s i)" using inv that(1) by (simp add: lines_inv_def session_ok_def)
    ultimately show False using that(2) by (auto simp: calls_sane_def)
  qed
  moreover have "queue_reachable q"
    using inv q(1) queue_reachable.step [of "line_queue s" "FinishJob k" q] by (simp add: lines_inv_def)
  ultimately show ?thesis
    unfolding q(2) using phases k by (intro inv_frame [OF inv]) (auto simp: k(2))
qed

lemma submit_inv:
  assumes inv: "lines_inv s" and c: "constructed c"
  shows "lines_inv (submit a c s)"
proof -
  let ?s = "submit a c s"
  have world: "session_world ?s = session_world s" by (simp add: submit_def session_world_def fun_eq_iff)
  have frame: "line_queue ?s = enqueue a (line_queue s)" "line_commands ?s = line_commands s @ [c]"
      "line_sessions ?s = line_sessions s" "line_calls ?s = line_calls s" "line_current ?s = line_current s"
    by (simp_all add: submit_def)
  have "session_ok ?s i" if i: "i < length (line_sessions s)" for i
  proof -
    have ok: "session_ok s i" using inv i by (simp add: lines_inv_def)
    have "\<exists>k < Suc (length (jobs (line_queue s))). phase_of (enqueue a (line_queue s)) k = Running \<and>
        address_of (enqueue a (line_queue s)) k = fst (line_sessions s ! i) \<and> map_of (line_calls s) k = Some (i, n)"
      if "n \<in> open_ids (session_world s i)" for n
      using ok that unfolding session_ok_def by (metis enqueue_simps(2,4) less_Suc_eq)
    then show ?thesis using ok by (simp add: session_ok_def world frame)
  qed
  moreover have "job_ok ?s k" for k
  proof -
    have "job_ok s k" using inv by (simp add: lines_inv_def)
    then show ?thesis
      by (auto simp: job_ok_def world frame nth_append split: option.splits)
  qed
  moreover have "queue_reachable (enqueue a (line_queue s))"
    using inv queue_reachable.step [of "line_queue s" "Enqueue a"] by (simp add: lines_inv_def)
  ultimately show ?thesis using inv c by (simp add: lines_inv_def frame)
qed

lemma open_line_inv:
  assumes inv: "lines_inv s"
  shows "lines_inv (open_line a s)"
proof -
  let ?s = "open_line a s" and ?n = "length (line_sessions s)"
  have world: "session_world ?s i = (if i < ?n then session_world s i else if i = ?n then ready_world else session_world ?s i)"
      "i < Suc ?n \<Longrightarrow> fst (line_sessions ?s ! i) = (if i < ?n then fst (line_sessions s ! i) else a)" for i
    by (auto simp: session_world_def open_line_def nth_append less_Suc_eq)
  have new: "session_ok ?s ?n"
    using history_start world(1) [of ?n] ready_sane by (simp add: session_ok_def)
  have "session_ok ?s i" if "i < ?n" for i
    using inv that world(1) [of i] world(2) [of i]
    by (simp add: lines_inv_def session_ok_def) (simp add: open_line_def)
  then have "\<forall>i < Suc ?n. session_ok ?s i" using new by (simp add: less_Suc_eq)
  moreover have "job_ok ?s k" for k
  proof -
    have ok: "job_ok s k" using inv by (simp add: lines_inv_def)
    have lc: "line_calls ?s = line_calls s" "line_commands ?s = line_commands s" "length (line_sessions ?s) = Suc ?n"
      by (simp_all add: open_line_def)
    show ?thesis
    proof (cases "map_of (line_calls s) k")
      case (Some x)
      then obtain i n where x: "map_of (line_calls s) k = Some (i, n)" "i < ?n"
        using ok by (cases x) (auto simp: job_ok_def)
      then show ?thesis using ok world(1) [of i] by (simp add: job_ok_def lc)
    qed (simp add: job_ok_def lc)
  qed
  moreover have "i < Suc ?n \<and> fst (line_sessions ?s ! i) = b" if "map_of (line_current ?s) b = Some i" for b i
  proof (cases "b = a")
    case True
    then show ?thesis using that world(2) [of ?n] by (simp add: open_line_def)
  next
    case False
    then have "i < ?n" "fst (line_sessions s ! i) = b" using that inv by (simp_all add: open_line_def lines_inv_def)
    then show ?thesis using world(2) [of i] by simp
  qed
  ultimately show ?thesis using inv by (simp add: lines_inv_def) (simp add: open_line_def)
qed

lemma in_session_inv:
  assumes inv: "lines_inv s" and i: "i < length (line_sessions s)"
    and step: "session_step e (session_world s i) = Some w" and no: "\<And>c. e \<noteq> Perform c"
  shows "lines_inv (set_world i w s)"
proof -
  let ?s = "set_world i w s"
  note world = set_world_nth [OF i]
  have keeps: "keeps (session_world s i) w" by (rule keeps_step [OF step no])
  have "session_ok ?s j" if j: "j < length (line_sessions s)" for j
  proof -
    have ok: "session_ok s j" using inv j by (simp add: lines_inv_def)
    show ?thesis
    proof (cases "j = i")
      case True
      have "serial_history w" using ok True no by (intro history_step [OF _ step]) (auto simp: session_ok_def)
      moreover have "\<forall>n \<in> open_ids w. \<exists>k < length (jobs (line_queue s)). phase_of (line_queue s) k = Running \<and>
          address_of (line_queue s) k = fst (line_sessions s ! i) \<and> map_of (line_calls s) k = Some (i, n)"
        using ok keeps unfolding True session_ok_def keeps_def by blast
      ultimately show ?thesis using ok keeps True by (simp add: session_ok_def world keeps_def)
    next
      case False
      then show ?thesis using ok by (simp add: session_ok_def world)
    qed
  qed
  moreover have "job_ok ?s k" for k
  proof -
    have "job_ok s k" using inv by (simp add: lines_inv_def)
    then show ?thesis using keeps by (auto simp: job_ok_def world keeps_def split: option.splits)
  qed
  ultimately show ?thesis using inv by (simp add: lines_inv_def world)
qed

lemma lines_reachable_inv: "lines_reachable s \<Longrightarrow> lines_inv s"
proof (induction rule: lines_reachable.induct)
  case start
  have "jobs new_DeviceWorkQueue = []" by (simp add: new_DeviceWorkQueue_def)
  then show ?case by (simp add: lines_inv_def new_device_lines_def job_ok_def queue_reachable.initial)
next
  case (step s e s')
  show ?case
  proof (cases e)
    case (Submit a c)
    then show ?thesis using step submit_inv by auto
  next
    case (BeginWork k)
    then show ?thesis using step begin_work_inv by simp
  next
    case (EndWork k)
    then show ?thesis using step end_work_inv by simp
  next
    case (OpenLine a)
    then show ?thesis using step open_line_inv by auto
  next
    case (DropLine a)
    have "session_ok (drop_line a s) i = session_ok s i" "job_ok (drop_line a s) k = job_ok s k" for i k
      by (simp_all add: session_ok_def job_ok_def drop_line_def cong: option.case_cong prod.case_cong)
    then have "lines_inv (drop_line a s)" using step.IH
      by (simp add: lines_inv_def) (simp add: drop_line_def)
    then show ?thesis using step DropLine by simp
  next
    case (InSession i ev)
    have "\<And>c. ev \<noteq> Perform c" using step.hyps(2) InSession by auto
    then show ?thesis using step InSession in_session_inv by (auto split: if_splits)
  qed
qed

text \<open>What a job gets is for its own command.\<close>

lemma job_response:
  assumes "lines_reachable s" and "i < length (line_sessions s)"
    and "map_of (line_calls s) k = Some (i, n)" and "(n, c, Inr r) \<in> set (returned (session_world s i))"
  shows "c = line_commands s ! k \<and> isValidResponse c r"
proof
  have inv: "lines_inv s" using assms(1) by (rule lines_reachable_inv)
  then have "job_ok s k" by (simp add: lines_inv_def)
  then show "c = line_commands s ! k" using assms(3) known_callsI(2) [OF assms(4)] by (simp add: job_ok_def)
  have "serial_history (session_world s i)" using inv assms(2) by (simp add: lines_inv_def session_ok_def)
  then show "isValidResponse c r"
    using history_inv assms(4) by (force simp: session_inv_def result_inv_def)
qed

text \<open>What a job that starts on a ready session puts on the wire.\<close>

lemma begin_work_wire:
  assumes "lines_reachable s" and "begin_work k s = Some s'"
    and "map_of (line_current s) (address_of (line_queue s) k) = Some i" and "isReady (sess (session_world s i))"
  shows "wire (session_world s' i) = wire (session_world s i) @ [toBytes (line_commands s ! k)]"
proof -
  obtain q where q: "start_job k (line_queue s) = Some q" "k < length (jobs (line_queue s))" "q = set_phase k Running (line_queue s)"
    using assms(2) by (auto simp: begin_work_def start_job_def split: option.splits if_splits)
  then have "address_of q k = address_of (line_queue s) k" by (simp add: set_phase_nth)
  moreover have "i < length (line_sessions s)"
    using lines_reachable_inv [OF assms(1)] assms(3) by (simp add: lines_inv_def)
  ultimately show ?thesis
    using assms(2-4) q(1) by (auto simp: begin_work_def Let_def set_world_nth perform_start_def)
qed

text \<open>Runs of the composition; the command of a job never changes.\<close>

fun line_run :: "line_event list \<Rightarrow> device_lines \<Rightarrow> device_lines option" where
  "line_run [] s = Some s"
| "line_run (e # es) s =
     (if line_guard e then (case line_step e s of None \<Rightarrow> None | Some s' \<Rightarrow> line_run es s') else None)"

lemma line_run_reachable: "line_run es s = Some s' \<Longrightarrow> lines_reachable s \<Longrightarrow> lines_reachable s'"
  by (induction es arbitrary: s) (auto intro: lines_reachable.step split: if_splits option.splits)

lemma line_step_commands: "line_step e s = Some s' \<Longrightarrow> \<exists>cs. line_commands s' = line_commands s @ cs"
  by (cases e) (auto simp: submit_def begin_work_def end_work_def open_line_def drop_line_def Let_def
      split: option.splits if_splits)

lemma line_run_commands: "line_run es s = Some s' \<Longrightarrow> \<exists>cs. line_commands s' = line_commands s @ cs"
proof (induction es arbitrary: s)
  case (Cons e es)
  then obtain v where "line_step e s = Some v" "line_run es v = Some s'" by (auto split: if_splits option.splits)
  then show ?case using Cons.IH line_step_commands by fastforce
qed simp

subsection \<open>Properties\<close>

text \<open>
  C3: the work queue gives every session the serial callers its protocol needs, whatever the
  order of submissions, job steps, session events, reconnects and disconnects: each session, also
  one that has been replaced, has a history in which no call of \<open>perform\<close> starts while another is
  in flight (so the properties of serial sessions hold of it), and the response a job gets is a
  valid one for the very command that was submitted with that job.
\<close>

theorem queue_serializes_sessions:
  assumes "lines_reachable s" and "i < length (line_sessions s)"
  shows "(\<exists>es. serial_run es ready_world = Some (session_world s i) \<and> commands_constructed es) \<and>
    length (calls (session_world s i)) \<le> 1 \<and>
    (map_of (line_calls s) k = Some (i, n) \<and> (n, c, Inr r) \<in> set (returned (session_world s i)) \<longrightarrow>
       c = line_commands s ! k \<and> isValidResponse c r)"
proof -
  have inv: "lines_inv s" using assms(1) by (rule lines_reachable_inv)
  then have history: "serial_history (session_world s i)" using assms(2) by (simp add: lines_inv_def session_ok_def)
  moreover have "map_of (line_calls s) k = Some (i, n) \<and> (n, c, Inr r) \<in> set (returned (session_world s i)) \<longrightarrow>
      c = line_commands s ! k \<and> isValidResponse c r"
    using job_response [OF assms] by blast
  ultimately show ?thesis
    using history_calls [OF history] by (auto simp: serial_history_def)
qed

lemma in_session_reachable:
  assumes "lines_reachable s" and "i < length (line_sessions s)" and "session_step e (session_world s i) = Some w"
    and "\<And>c. e \<noteq> Perform c"
  shows "lines_reachable (set_world i w s)"
proof (rule lines_reachable.step [OF assms(1)])
  show "line_guard (InSession i e)" using assms(4) by (cases e) (simp_all, use assms(4) in auto)
qed (use assms(2,3) in simp)

text \<open>The run of one job: its command, the acknowledgement, the answer in one piece.\<close>

lemma exchange_run:
  assumes c: "constructed c" and valid: "isValidResponse c r" and plain: "\<not> isAsciiControlMessage r"
  shows "\<exists>w. serial_run [Perform c, WriteDone 0, Notify r, Resume 0] ready_world = Some w \<and> returned w = [(0, c, Inr r)]"
proof -
  let ?p = "(perform_start c ready_world)\<lparr>calls := [(0, c, AtResponse)]\<rparr>"
  have "waiting (fresh ready_world) c (perform_start c ready_world)"
    by (intro perform_ready c) (simp_all add: ready_world_def isReady_def idle_def)
  then have "waiting 0 c ?p" by (simp add: waiting_def ready_world_def)
  moreover have "chunk_verdict c [] r = Some (Inr r, Ready)"
    using verdict_prefix [OF c, of "[]" r "[]"] valid plain by simp
  moreover have "responseBuffer (sess ?p) = []" by (simp add: perform_start_def ready_world_def isReady_def)
  ultimately have "handleNotification r ?p = conclude 0 (Inr r) Ready ?p" by (simp add: notify_waiting)
  moreover have "calls (perform_start c ready_world) = [(0, c, AtWrite)]"
      "returned (perform_start c ready_world) = []" "calls ready_world = []"
    by (simp_all add: perform_start_def ready_world_def isReady_def)
  ultimately show ?thesis
    by (simp add: write_done_def response_resumed_def finish_call_def clearPendingState_def set_state_def conclude_def)
qed

lemma job_exchange:
  assumes c: "constructed c" and valid: "isValidResponse c r" and plain: "\<not> isAsciiControlMessage r"
  obtains s where "lines_reachable s" "line_commands s = [c]" "map_of (line_calls s) 0 = Some (0, 0)"
    "length (line_sessions s) = 1" "returned (session_world s 0) = [(0, c, Inr r)]"
proof -
  let ?w0 = "perform_start c ready_world"
  let ?s2 = "submit ''A'' c (open_line ''A'' new_device_lines)"
  obtain w where run: "serial_run [Perform c, WriteDone 0, Notify r, Resume 0] ready_world = Some w"
      "returned w = [(0, c, Inr r)]" using exchange_run [OF assms] by blast
  obtain w1 w2 where steps: "session_step (WriteDone 0) ?w0 = Some w1"
      "session_step (Notify r) w1 = Some w2" "session_step (Resume 0) w2 = Some w"
    using run(1) by (auto simp del: session_step.simps simp: session_step.simps(1) split: if_splits option.splits)
  have s2: "lines_reachable ?s2"
    using lines_reachable.step [OF lines_reachable.start, of "OpenLine ''A''"]
      lines_reachable.step [of "open_line ''A'' new_device_lines" "Submit ''A'' c"] c
    by simp
  obtain s3 where s3: "begin_work 0 ?s2 = Some s3" "line_commands s3 = [c]" "line_calls s3 = [(0, 0, 0)]"
      "length (line_sessions s3) = 1" "session_world s3 0 = ?w0"
    by (simp add: begin_work_def submit_def open_line_def new_device_lines_def new_DeviceWorkQueue_def enqueue_def
        start_job_def phase_of_def address_of_def set_phase_def set_world_def session_world_def Let_def)
      (simp add: ready_world_def)
  have s3_reach: "lines_reachable s3" using lines_reachable.step [OF s2, of "BeginWork 0"] s3(1) by simp
  have "session_step (WriteDone 0) (session_world s3 0) = Some w1" unfolding s3(5) by (rule steps(1))
  from in_session_reachable [OF s3_reach _ this] have "lines_reachable (set_world 0 w1 s3)" using s3(4) by simp
  then have "lines_reachable (set_world 0 w2 (set_world 0 w1 s3))"
    by (rule in_session_reachable [where e = "Notify r"])
      (simp_all del: session_step.simps add: set_world_nth s3(4) steps(2))
  then have "lines_reachable (set_world 0 w (set_world 0 w2 (set_world 0 w1 s3)))"
    by (rule in_session_reachable [where e = "Resume 0"])
      (simp_all del: session_step.simps add: set_world_nth s3(4) steps(3))
  then show thesis by (rule that) (simp_all add: set_world_nth s3 run(2))
qed

text \<open>A job that has performed its command and got the response.\<close>

theorem queue_serializes_sessions_witness:
  "\<exists>s. lines_reachable s \<and> (0, sample_command, Inr sample_response) \<in> set (returned (session_world s 0)) \<and>
     line_commands s = [sample_command] \<and> isValidResponse (line_commands s ! 0) sample_response"
proof -
  obtain s where s: "lines_reachable s" "line_commands s = [sample_command]" "map_of (line_calls s) 0 = Some (0, 0)"
      "length (line_sessions s) = 1" "returned (session_world s 0) = [(0, sample_command, Inr sample_response)]"
    using job_exchange [OF constructed_sample sample_valid sample_not_control] .
  then show ?thesis
    using queue_serializes_sessions [OF s(1), of 0 0 0 sample_command sample_response] by auto
qed

end
