(* ===== verification/Wiring.thy ===== *)
theory Wiring
  imports BridgeTraffic QueuedSession
begin

text \<open>
  The parts wired together: the MQTT bridge, the event bus, and the work queue with its sessions.
  The bus is the one of the bridge's state. \<open>DeviceHandler.connectAll\<close> registers the command
  listener on it, once; a command the bridge publishes is submitted to the work queue by that
  listener, in the same piece of code (\<open>DeviceCommandRunner.handleCommand\<close> up to its first \<open>await\<close>);
  a reading the executor publishes reaches the bridge by the listener that \<open>run\<close> has registered.
\<close>

subsection \<open>State and steps\<close>

record wiring =
  wired_bridge :: bridge
  wired_lines :: device_lines
  wired_attached :: bool
  wired_sent :: "(string \<times> string) list"

definition new_wiring :: wiring where
  "new_wiring = \<lparr>wired_bridge = new_BluettiMqttBridge new_EventBus, wired_lines = new_device_lines, wired_attached = False,
     wired_sent = []\<rparr>"

text \<open>The closure \<open>connectAll\<close> registers; closures of the two sides of the bus are never mixed.\<close>

definition executor_listener :: nat where "executor_listener = 0"

definition attach_executor :: "wiring \<Rightarrow> wiring" where
  "attach_executor w =
     (if wired_attached w then w
      else w\<lparr>wired_bridge := (wired_bridge w)\<lparr>bus := addCommandListener executor_listener (bus (wired_bridge w))\<rparr>,
             wired_attached := True\<rparr>)"

definition executor_listens :: "nat \<Rightarrow> bluetti_device \<times> command \<Rightarrow> device_lines \<Rightarrow> device_lines" where
  "executor_listens l m lines =
     (case m of (dev, c) \<Rightarrow> if l = executor_listener then submit (dev_address dev) c lines else lines)"

text \<open>One call of the bridge's message listener, and a message: every listener of its client is called.\<close>

definition message_delivered :: "string \<Rightarrow> string \<Rightarrow> wiring \<Rightarrow> wiring" where
  "message_delivered topic payload w =
     (case handleIncomingCommand topic payload (wired_bridge w) of
        Dispatched dev c \<Rightarrow>
          w\<lparr>wired_lines := fst (publishCommandMessage executor_listens (dev, c) (bus (wired_bridge w)) (wired_lines w))\<rparr>
      | _ \<Rightarrow> w)"

definition message_arrives :: "nat \<Rightarrow> string \<Rightarrow> string \<Rightarrow> wiring \<Rightarrow> wiring" where
  "message_arrives client topic payload w =
     fold (\<lambda>_. message_delivered topic payload) (filter (\<lambda>(c, l). c = client) (message_handlers (wired_bridge w))) w"

text \<open>
  A reading on the bus: the bridge's own listener handles it; what it gives to the MQTT client is
  kept in \<open>wired_sent\<close>. A response of a read command becomes such a reading when something was
  decoded.
\<close>

definition bridge_listens ::
  "(nat \<Rightarrow> unit result) \<Rightarrow> nat \<Rightarrow> bluetti_device \<times> parsed_field_map \<Rightarrow> bridge \<times> (string \<times> string) list \<Rightarrow>
     bridge \<times> (string \<times> string) list" where
  "bridge_listens pub l m s =
     (case (m, s) of ((dev, parsed), (b, sent)) \<Rightarrow>
        if removeParserListener b = Some l
        then (case handleParserMessage pub dev parsed b of ((ms, r), b) \<Rightarrow> (b, sent @ ms)) else (b, sent))"

definition reading_published :: "(nat \<Rightarrow> unit result) \<Rightarrow> bluetti_device \<Rightarrow> parsed_field_map \<Rightarrow> wiring \<Rightarrow> wiring" where
  "reading_published pub dev parsed w =
     (case fst (publishParserMessage (bridge_listens pub) (dev, parsed) (bus (wired_bridge w)) (wired_bridge w, wired_sent w)) of
        (b, sent) \<Rightarrow> w\<lparr>wired_bridge := b, wired_sent := sent\<rparr>)"

definition response_read :: "(nat \<Rightarrow> unit result) \<Rightarrow> bluetti_device \<Rightarrow> command \<Rightarrow> bytes \<Rightarrow> wiring \<Rightarrow> wiring" where
  "response_read pub dev c response w =
     (case device_parse dev (startingAddress c) (parseResponse c response) of
        Inl e \<Rightarrow> w
      | Inr parsed \<Rightarrow> (if parsed \<noteq> [] then reading_published pub dev parsed w else w))"

datatype wiring_event =
    BridgeEvent bridge_event
  | LineEvent line_event
  | ConnectAllDone
  | MqttMessage nat string string
  | ReadingPublished "nat \<Rightarrow> unit result" bluetti_device parsed_field_map

fun wiring_step :: "wiring_event \<Rightarrow> wiring \<Rightarrow> wiring option" where
  "wiring_step (BridgeEvent ev) w = Some (w\<lparr>wired_bridge := bridge_step ev (wired_bridge w)\<rparr>)"
| "wiring_step (LineEvent ev) w = map_option (\<lambda>l. w\<lparr>wired_lines := l\<rparr>) (line_step ev (wired_lines w))"
| "wiring_step ConnectAllDone w = Some (attach_executor w)"
| "wiring_step (MqttMessage client topic payload) w = Some (message_arrives client topic payload w)"
| "wiring_step (ReadingPublished pub dev parsed) w = Some (reading_published pub dev parsed w)"

text \<open>
  The server calls \<open>run\<close> and \<open>stop\<close> of its bridge one after another; readings are published by the
  executor, of devices the handler has registered after \<open>connectAll\<close>.
\<close>

fun is_parser_message :: "bridge_event \<Rightarrow> bool" where
  "is_parser_message (ParserMessage pub dev parsed) = True"
| "is_parser_message _ = False"

fun wiring_guard :: "wiring \<Rightarrow> wiring_event \<Rightarrow> bool" where
  "wiring_guard w (BridgeEvent ev) = (serial_order (wired_bridge w) ev \<and> \<not> is_parser_message ev)"
| "wiring_guard w (LineEvent ev) = line_guard ev"
| "wiring_guard w (ReadingPublished pub dev parsed) = (registry_device dev \<and> wired_attached w)"
| "wiring_guard w _ = True"

inductive wiring_reachable :: "wiring \<Rightarrow> bool" where
  start: "wiring_reachable new_wiring"
| step: "\<lbrakk>wiring_reachable w; wiring_guard w ev; wiring_step ev w = Some w'\<rbrakk> \<Longrightarrow> wiring_reachable w'"

fun wiring_run :: "wiring_event list \<Rightarrow> wiring \<Rightarrow> wiring option" where
  "wiring_run [] w = Some w"
| "wiring_run (ev # es) w =
     (if wiring_guard w ev then (case wiring_step ev w of None \<Rightarrow> None | Some v \<Rightarrow> wiring_run es v) else None)"

lemma wiring_run_reachable: "wiring_run es w = Some w' \<Longrightarrow> wiring_reachable w \<Longrightarrow> wiring_reachable w'"
  by (induction es arbitrary: w) (auto split: if_splits option.splits intro: wiring_reachable.step)

subsection \<open>The bridge does not touch the command side\<close>

text \<open>A bridge with one command listener more behaves as before.\<close>

abbreviation with_command_listener :: "nat \<Rightarrow> bridge \<Rightarrow> bridge" where
  "with_command_listener l s \<equiv> s\<lparr>bus := addCommandListener l (bus s)\<rparr>"

lemma command_side_commutes:
  "addParserListener k (addCommandListener l b) = addCommandListener l (addParserListener k b)"
  "disposeParserListener k (addCommandListener l b) = addCommandListener l (disposeParserListener k b)"
  by (simp_all add: addParserListener_def disposeParserListener_def addCommandListener_def)

lemma cleanup_command_side:
  "snd (cleanupClient off_o end_o c (with_command_listener l s)) =
     with_command_listener l (snd (cleanupClient off_o end_o c s))"
  by (simp add: cleanupClient_def drop_message_listener_def dispose_parser_listener_def command_side_commutes Let_def
      split: option.split sum.split)

lemma install_command_side:
  "install_listeners c r (with_command_listener l s) = with_command_listener l (install_listeners c r s)"
  by (cases r) (simp_all add: install_listeners_def command_side_commutes Let_def)

lemma bridge_step_command_side:
  "bridge_step ev (with_command_listener l s) = with_command_listener l (bridge_step ev s)"
proof (cases ev)
  case (SubscribeSettled k r on_o off_o end_o)
  then show ?thesis
    by (simp add: subscribe_settled_def cleanup_command_side install_command_side Let_def
        split: option.split run_call.split sum.split)
qed (simp_all add: run_called_def connector_settled_def bridge_stop_def handleParserMessage_state cleanup_command_side Let_def
    split: option.split sum.split)

lemma new_bridge_command_side:
  "new_BluettiMqttBridge (addCommandListener l b) = with_command_listener l (new_BluettiMqttBridge b)"
  by (simp add: new_BluettiMqttBridge_def addCommandListener_def)

lemma serial_order_command_side [simp]: "serial_order (with_command_listener l s) ev = serial_order s ev"
  by (cases ev) (simp_all add: run_pending_def)

lemma reachable_command_side:
  "bridge_reachable serial_order b s \<Longrightarrow> bridge_reachable serial_order (addCommandListener l b) (with_command_listener l s)"
proof (induction rule: bridge_reachable.induct)
  case start
  then show ?case unfolding new_bridge_command_side [symmetric] by (rule bridge_reachable.start)
next
  case (step s ev)
  then show ?case
    unfolding bridge_step_command_side [symmetric] by (intro bridge_reachable.step) simp_all
qed

lemma serial_is_allowed: "bridge_reachable serial_order b s \<Longrightarrow> bridge_reachable any_order b s"
proof (induction rule: bridge_reachable.induct)
  case (step s ev)
  from step.hyps(2) have "any_order s ev" by (cases ev) simp_all
  with step.IH show ?case by (rule bridge_reachable.step)
qed blast

lemma bridge_command_listeners: "bridge_reachable allowed b s \<Longrightarrow> commandListeners (bus s) = commandListeners b"
proof (induction rule: bridge_reachable.induct)
  case start
  show ?case by (simp add: new_BluettiMqttBridge_def)
next
  case (step s ev)
  have "commandListeners (bus (bridge_step ev s)) = commandListeners (bus s)"
    by (cases ev) (simp_all add: run_called_def connector_settled_def subscribe_settled_def install_listeners_def
        bridge_stop_def handleParserMessage_state Let_def split: option.split sum.split run_call.split)
  then show ?case using step.IH by simp
qed

subsection \<open>One message listener per client\<close>

text \<open>
  No client gets a second message listener, in any order of the calls: a client is new when it is
  connected, and the call of \<open>run\<close> that connected it installs its listener at most once.
\<close>

definition awaits :: "bridge \<Rightarrow> nat \<Rightarrow> nat \<Rightarrow> bool" where
  "awaits s k c \<longleftrightarrow> js_get (runs s) k = Some (AwaitSubscribe c)"

definition handlers_once :: "bridge \<Rightarrow> bool" where
  "handlers_once s \<longleftrightarrow> distinct (map fst (message_handlers s)) \<and>
     (\<forall>c \<in> fst ` set (message_handlers s). c < clients_made s \<and> (\<forall>k. \<not> awaits s k c)) \<and>
     (\<forall>k c. awaits s k c \<longrightarrow> c < clients_made s \<and> (\<forall>j. awaits s j c \<longrightarrow> j = k))"

lemma distinct_map_remove1: "distinct (map f xs) \<Longrightarrow> distinct (map f (remove1 x xs))"
  by (induction xs) (auto dest: notin_set_remove1 [rotated] simp: image_iff dest!: set_remove1_subset [THEN subsetD])

lemma cleanup_handlers:
  "message_handlers (snd (cleanupClient off_o end_o c s)) = message_handlers s \<or>
   (\<exists>x. message_handlers (snd (cleanupClient off_o end_o c s)) = remove1 x (message_handlers s))"
  by (auto simp: cleanupClient_def drop_message_listener_def dispose_parser_listener_def Let_def
      split: option.split sum.split)

lemma handlers_once_fewer:
  assumes "handlers_once s" and "\<And>k c. awaits s' k c \<Longrightarrow> awaits s k c" and "clients_made s' = clients_made s"
    and "message_handlers s' = message_handlers s \<or> (\<exists>x. message_handlers s' = remove1 x (message_handlers s))"
  shows "handlers_once s'"
proof -
  have "set (message_handlers s') \<subseteq> set (message_handlers s)" using assms(4) by (auto dest: set_remove1_subset [THEN subsetD])
  then have "fst ` set (message_handlers s') \<subseteq> fst ` set (message_handlers s)" by (rule image_mono)
  moreover have "distinct (map fst (message_handlers s'))"
    using assms(1,4) distinct_map_remove1 by (auto simp: handlers_once_def)
  ultimately show ?thesis
    using assms(1) unfolding handlers_once_def assms(3)
    by (intro conjI ballI allI impI) (blast dest: assms(2))+
qed

lemma list_update_at: "j < length xs \<Longrightarrow> xs[k := v] ! j = (if j = k then v else xs ! j)"
  by simp

lemma handlers_once_step:
  assumes inv: "handlers_once s"
  shows "handlers_once (bridge_step ev s)"
proof (cases ev)
  case RunCalled
  then show ?thesis
    by (intro handlers_once_fewer [OF inv]) (auto simp: run_called_def awaits_def js_get_def nth_append split: if_splits)
next
  case (ConnectorSettled k r)
  show ?thesis
  proof (cases "js_get (runs s) k = Some AwaitConnector \<and> r = Inr ()")
    case True
    let ?s = "connector_settled k r s"
    have aw: "awaits ?s j c \<longleftrightarrow> (if j = k then c = clients_made s else awaits s j c)" for j c
      using True by (auto simp: connector_settled_def awaits_def js_get_def list_update_at Let_def split: if_splits)
    have "message_handlers ?s = message_handlers s" "clients_made ?s = Suc (clients_made s)"
      using True by (simp_all add: connector_settled_def Let_def)
    then show ?thesis
      using inv unfolding ConnectorSettled bridge_step.simps handlers_once_def aw
      by (auto simp: less_Suc_eq)
  next
    case False
    then show ?thesis
      using ConnectorSettled
      by (intro handlers_once_fewer [OF inv])
        (auto simp: connector_settled_def Let_def awaits_def js_get_def list_update_at split: if_splits sum.splits)
  qed
next
  case (SubscribeSettled k r on_o off_o end_o)
  show ?thesis
  proof (cases "\<exists>client. js_get (runs s) k = Some (AwaitSubscribe client)")
    case False
    then show ?thesis
      using SubscribeSettled inv by (auto simp: subscribe_settled_def split: option.split run_call.split)
  next
    case True
    then obtain c where c: "js_get (runs s) k = Some (AwaitSubscribe c)" by blast
    show ?thesis
    proof (cases "r = Inr () \<and> on_o = Inr ()")
      case True
      let ?s = "subscribe_settled k r on_o off_o end_o s"
      have s': "message_handlers ?s = message_handlers s @ [(c, Suc (next_closure s))]" "clients_made ?s = clients_made s"
          "runs ?s = (runs s)[k := RunReturned (Inr ())]"
        using True c by (simp_all add: subscribe_settled_def install_listeners_def Let_def)
      have aw: "awaits ?s j d \<longleftrightarrow> j \<noteq> k \<and> awaits s j d" for j d
        using c by (auto simp: awaits_def s' js_get_def list_update_at split: if_splits)
      have "awaits s k c" using c by (simp add: awaits_def)
      then show ?thesis
        using inv unfolding SubscribeSettled bridge_step.simps handlers_once_def aw s' by auto
    next
      case False
      define v where "v = (if r = Inr () then install_listeners c on_o s else s)"
      have v: "message_handlers v = message_handlers s" "runs v = runs s" "clients_made v = clients_made s"
        using False by (auto simp: v_def install_listeners_def Let_def split: sum.split)
      have "\<exists>e. subscribe_settled k r on_o off_o end_o s =
          (snd (cleanupClient off_o end_o c v))\<lparr>runs := (runs s)[k := RunReturned (Inl e)]\<rparr>"
        using False c by (auto simp: subscribe_settled_def v_def install_listeners_def Let_def split: sum.split)
      then show ?thesis
        using SubscribeSettled c cleanup_handlers [of off_o end_o c v]
        by (intro handlers_once_fewer [OF inv]) (auto simp: v awaits_def js_get_def list_update_at split: if_splits)
    qed
  qed
next
  case (StopCalled off_o end_o)
  then show ?thesis
    using cleanup_handlers
    by (intro handlers_once_fewer [OF inv]) (auto simp: bridge_stop_def awaits_def split: option.splits)
next
  case (ParserMessage pub dev parsed)
  then show ?thesis
    by (intro handlers_once_fewer [OF inv]) (auto simp: handleParserMessage_state awaits_def split: if_splits)
qed

lemma reachable_handlers_once: "bridge_reachable allowed b s \<Longrightarrow> handlers_once s"
proof (induction rule: bridge_reachable.induct)
  case start
  show ?case by (simp add: handlers_once_def new_BluettiMqttBridge_def awaits_def js_get_def)
qed (rule handlers_once_step)

subsection \<open>The invariant\<close>

definition wired_bus :: "wiring \<Rightarrow> event_bus" where
  "wired_bus w = (if wired_attached w then addCommandListener executor_listener new_EventBus else new_EventBus)"

definition wiring_inv :: "wiring \<Rightarrow> bool" where
  "wiring_inv w \<longleftrightarrow> bridge_reachable serial_order (wired_bus w) (wired_bridge w) \<and> lines_reachable (wired_lines w) \<and>
     (devices (wired_bridge w) \<noteq> [] \<longrightarrow> wired_attached w)"

lemma wired_commands: "commandListeners (wired_bus w) = (if wired_attached w then [executor_listener] else [])"
  by (simp add: wired_bus_def addCommandListener_def js_set_add_def new_EventBus_def)

lemma message_delivered_cases:
  assumes inv: "wiring_inv w"
  shows "message_delivered topic payload w =
    (case handleIncomingCommand topic payload (wired_bridge w) of
       Dispatched dev c \<Rightarrow> w\<lparr>wired_lines := submit (dev_address dev) c (wired_lines w)\<rparr>
     | _ \<Rightarrow> w)"
proof (cases "handleIncomingCommand topic payload (wired_bridge w)")
  case (Dispatched dev c)
  then have "devices (wired_bridge w) \<noteq> []" by (auto simp: handleIncomingCommand_def split: option.splits)
  then have "commandListeners (bus (wired_bridge w)) = [executor_listener]"
    using inv bridge_command_listeners wired_commands [of w] by (fastforce simp: wiring_inv_def)
  then show ?thesis
    using Dispatched by (simp add: message_delivered_def publishCommandMessage_def executor_listens_def)
qed (simp_all add: message_delivered_def)

lemma message_delivered_inv:
  assumes inv: "wiring_inv w"
  shows "wiring_inv (message_delivered topic payload w)"
proof (cases "handleIncomingCommand topic payload (wired_bridge w)")
  case (Dispatched dev c)
  have "constructed c" by (rule dispatched_constructed [OF Dispatched])
  then have "lines_reachable (submit (dev_address dev) c (wired_lines w))"
    using inv lines_reachable.step [of "wired_lines w" "Submit (dev_address dev) c"] by (simp add: wiring_inv_def)
  then show ?thesis using inv Dispatched by (simp add: message_delivered_cases wiring_inv_def wired_bus_def)
qed (simp_all add: message_delivered_cases inv)

lemma filter_key_once:
  "distinct (map fst ms) \<Longrightarrow> length (filter (\<lambda>(c, l). c = k) ms) = (if k \<in> fst ` set ms then 1 else 0)"
  by (induction ms) (auto simp: image_iff)

text \<open>A message is handled once, or not at all.\<close>

lemma message_arrives_once:
  assumes "wiring_inv w"
  shows "message_arrives client topic payload w =
    (if client \<in> fst ` set (message_handlers (wired_bridge w)) then message_delivered topic payload w else w)"
proof -
  let ?P = "\<lambda>(c, l). c = client" and ?ms = "message_handlers (wired_bridge w)"
  have "distinct (map fst ?ms)"
    using reachable_handlers_once assms by (auto simp: wiring_inv_def handlers_once_def)
  then have "length (filter ?P ?ms) = (if client \<in> fst ` set ?ms then 1 else 0)" by (rule filter_key_once)
  then show ?thesis
    unfolding message_arrives_def by (cases "filter ?P ?ms") (auto split: if_splits)
qed

text \<open>A reading makes steps of the bridge.\<close>

lemma reading_reachable:
  assumes "bridge_reachable serial_order b s" and "registry_device dev"
  shows "bridge_reachable serial_order b (fst (call_listeners (bridge_listens pub) (dev, parsed) ls (s, sent)))"
  using assms(1)
proof (induction ls arbitrary: s sent)
  case (Cons l ls)
  have "bridge_reachable serial_order b (fst (bridge_listens pub l (dev, parsed) (s, sent)))"
    using bridge_reachable.step [OF Cons.prems, of "ParserMessage pub dev parsed"] Cons.prems assms(2)
    by (auto simp: bridge_listens_def split: prod.split)
  then show ?case using Cons.IH by (cases "bridge_listens pub l (dev, parsed) (s, sent)") simp
qed simp

lemma reading_published_bridge:
  "wired_bridge (reading_published pub dev parsed w) =
     fst (call_listeners (bridge_listens pub) (dev, parsed) (parserListeners (bus (wired_bridge w))) (wired_bridge w, wired_sent w))"
  "wired_attached (reading_published pub dev parsed w) = wired_attached w"
  "wired_lines (reading_published pub dev parsed w) = wired_lines w"
  by (simp_all add: reading_published_def publishParserMessage_def split: prod.split)

text \<open>A bridge that runs gives the client all messages of a reading, once.\<close>

lemma reading_sent:
  assumes "running (wired_bus w) (wired_bridge w) client"
  shows "wired_sent (reading_published (\<lambda>i. Inr ()) dev parsed w) = wired_sent w @ telemetry_messages dev parsed"
proof -
  obtain l where l: "removeParserListener (wired_bridge w) = Some l" "parserListeners (bus (wired_bridge w)) = [l]"
      "rawClient (wired_bridge w) = Some client"
    using assms by (auto simp: running_def wired_bus_def new_EventBus_def addCommandListener_def split: option.splits if_splits)
  then show ?thesis
    using telemetry_all_sent [OF l(3), of dev parsed]
    by (auto simp: reading_published_def publishParserMessage_def bridge_listens_def split: prod.splits)
qed

lemma wiring_step_inv:
  assumes inv: "wiring_inv w" and guard: "wiring_guard w ev" and step: "wiring_step ev w = Some w'"
  shows "wiring_inv w'"
proof (cases ev)
  case (BridgeEvent bev)
  have "devices (bridge_step bev (wired_bridge w)) = devices (wired_bridge w)"
    using guard BridgeEvent by (cases bev) simp_all
  then show ?thesis
    using inv guard step BridgeEvent bridge_reachable.step [of serial_order "wired_bus w" "wired_bridge w" bev]
    by (auto simp: wiring_inv_def wired_bus_def)
next
  case (LineEvent lev)
  then show ?thesis
    using inv guard step lines_reachable.step [of "wired_lines w" lev] by (auto simp: wiring_inv_def wired_bus_def)
next
  case ConnectAllDone
  then show ?thesis
    using inv step reachable_command_side [of new_EventBus "wired_bridge w" executor_listener]
    by (auto simp: attach_executor_def wiring_inv_def wired_bus_def)
next
  case (MqttMessage client topic payload)
  then show ?thesis using step inv message_delivered_inv by (auto simp: message_arrives_once split: if_splits)
next
  case (ReadingPublished pub dev parsed)
  then show ?thesis
    using inv guard step reading_reachable [of "wired_bus w" "wired_bridge w" dev pub parsed]
    by (auto simp: reading_published_bridge wiring_inv_def wired_bus_def)
qed

lemma wiring_reachable_inv: "wiring_reachable w \<Longrightarrow> wiring_inv w"
proof (induction rule: wiring_reachable.induct)
  case start
  show ?case
    by (auto simp: wiring_inv_def new_wiring_def wired_bus_def new_BluettiMqttBridge_def intro: lines_reachable.start
        bridge_reachable.start [of serial_order new_EventBus, unfolded new_BluettiMqttBridge_def])
qed (rule wiring_step_inv)

lemma wiring_run_inv: "wiring_run es w = Some w' \<Longrightarrow> wiring_inv w \<Longrightarrow> wiring_inv w'"
  by (induction es arbitrary: w) (auto split: if_splits option.splits intro: wiring_step_inv)

subsection \<open>Jobs keep their command and address\<close>

text \<open>A job keeps its command and its address while the work queue and the sessions run on.\<close>

lemma line_step_address:
  assumes "line_step e s = Some s'" and "k < length (jobs (line_queue s))"
  shows "k < length (jobs (line_queue s')) \<and> address_of (line_queue s') k = address_of (line_queue s) k"
proof (cases e)
  case (BeginWork j)
  then obtain q where "start_job j (line_queue s) = Some q" "line_queue s' = q"
    using assms(1) by (auto simp: begin_work_def Let_def split: option.splits)
  then have "j < length (jobs (line_queue s))" "line_queue s' = set_phase j Running (line_queue s)"
    by (auto simp: start_job_def split: if_splits)
  then show ?thesis using assms(2) by (simp add: set_phase_nth)
next
  case (EndWork j)
  then obtain q where q: "finish_job j (line_queue s) = Some q" "line_queue s' = q"
    using assms(1) by (auto simp: end_work_def split: if_splits)
  from q(1) have "j < length (jobs (line_queue s))" "jobs q = jobs (set_phase j Finished (line_queue s))"
    by (auto simp: finish_job_def Let_def split: if_splits)
  then show ?thesis using assms(2) q(2) set_phase_nth(1) [of j "line_queue s" Finished k] by (simp add: address_of_def)
qed (use assms in \<open>auto simp: submit_def open_line_def drop_line_def split: if_splits\<close>)

definition extends :: "device_lines \<Rightarrow> device_lines \<Rightarrow> bool" where
  "extends s s' \<longleftrightarrow> (\<exists>cs. line_commands s' = line_commands s @ cs) \<and>
     (\<forall>k < length (jobs (line_queue s)). k < length (jobs (line_queue s')) \<and>
        address_of (line_queue s') k = address_of (line_queue s) k)"

lemma extends_refl [simp]: "extends s s"
  by (simp add: extends_def)

lemma extends_trans: "extends s v \<Longrightarrow> extends v s' \<Longrightarrow> extends s s'"
  by (fastforce simp: extends_def)

lemma extends_step: "line_step e s = Some s' \<Longrightarrow> extends s s'"
  using line_step_commands line_step_address by (simp add: extends_def)

lemma wiring_step_extends:
  assumes "wiring_inv w" and "wiring_step ev w = Some w'"
  shows "extends (wired_lines w) (wired_lines w')"
proof (cases ev)
  case (MqttMessage client topic payload)
  have "extends s (submit a c s)" for s a c using extends_step [of "Submit a c" s] by simp
  then show ?thesis
    using assms MqttMessage
    by (auto simp: message_arrives_once message_delivered_cases split: if_splits incoming.splits)
next
  case (LineEvent lev)
  then show ?thesis using assms extends_step by auto
qed (use assms in \<open>auto simp: attach_executor_def reading_published_bridge\<close>)

lemma wiring_run_extends: "wiring_run es w = Some w' \<Longrightarrow> wiring_inv w \<Longrightarrow> extends (wired_lines w) (wired_lines w')"
proof (induction es arbitrary: w)
  case (Cons ev es)
  then obtain v where v: "wiring_guard w ev" "wiring_step ev w = Some v" "wiring_run es v = Some w'"
    by (auto split: if_splits option.splits)
  have "extends (wired_lines v) (wired_lines w')" by (rule Cons.IH [OF v(3) wiring_step_inv [OF Cons.prems(2) v(1,2)]])
  then show ?case using wiring_step_extends [OF Cons.prems(2) v(2)] extends_trans by blast
qed simp

text \<open>Work starts when all earlier work of its address is over.\<close>

lemma begin_work_in_order:
  assumes "lines_reachable s" and "begin_work k s = Some s'" and "j < k"
    and "address_of (line_queue s) j = address_of (line_queue s) k"
  shows "phase_of (line_queue s) j = Finished"
proof -
  obtain q where q: "start_job k (line_queue s) = Some q" "k < length (jobs (line_queue s))" "q = set_phase k Running (line_queue s)"
    using assms(2) by (auto simp: begin_work_def start_job_def split: option.splits if_splits)
  have "queue_reachable q"
    using lines_reachable_inv [OF assms(1)] q(1) queue_reachable.step [of "line_queue s" "StartJob k" q]
    by (simp add: lines_inv_def)
  from mutex.no_overtaking [OF this, of j k] show ?thesis
    using assms(3,4) q(2,3) by (auto simp: set_phase_nth)
qed

subsection \<open>A sample\<close>

text \<open>The process of one EB3A: connected, its bridge running, one reading published.\<close>

definition sample_events :: "wiring_event list" where
  "sample_events = [ConnectAllDone, BridgeEvent RunCalled, BridgeEvent (ConnectorSettled 0 (Inr ())),
     BridgeEvent (SubscribeSettled 0 (Inr ()) (Inr ()) (Inr ()) (Inr ())), ReadingPublished (\<lambda>i. Inr ()) sample_device []]"

lemma wiring_with_lines:
  assumes "wiring_reachable w" and "wired_lines w = new_device_lines" and "lines_reachable l"
  shows "wiring_reachable (w\<lparr>wired_lines := l\<rparr>)"
  using assms(3)
proof (induction rule: lines_reachable.induct)
  case start
  then show ?case using assms(1,2) by (metis wiring.surjective wiring.update_convs(2))
next
  case (step s e s')
  then show ?case using wiring_reachable.step [of "w\<lparr>wired_lines := s\<rparr>" "LineEvent e"] by simp
qed

text \<open>It can be in any state of the queue and the sessions.\<close>

lemma sample_wiring:
  assumes "lines_reachable l"
  obtains w where "wiring_reachable w" "devices (wired_bridge w) = devices sample_bridge"
    "message_handlers (wired_bridge w) = [(0, 2)]" "running (wired_bus w) (wired_bridge w) 0" "wired_lines w = l"
proof -
  have key: "deviceKey sample_device = ''EB3A-2237''" by (simp add: deviceKey_def sample_device_defs)
  have "\<exists>w. wiring_run sample_events new_wiring = Some w \<and> devices (wired_bridge w) = devices sample_bridge \<and>
    message_handlers (wired_bridge w) = [(0, 2)] \<and> running (wired_bus w) (wired_bridge w) 0 \<and>
    wired_lines w = new_device_lines"
    by (simp add: sample_events_def new_wiring_def attach_executor_def bridge_step_defs addCommandListener_def
        run_pending_def sample_registry_device reading_published_def publishParserMessage_def bridge_listens_def
        sample_bridge_devices key running_def wired_bus_def)
  then obtain w where w: "wiring_run sample_events new_wiring = Some w" "devices (wired_bridge w) = devices sample_bridge"
      "message_handlers (wired_bridge w) = [(0, 2)]" "running (wired_bus w) (wired_bridge w) 0"
      "wired_lines w = new_device_lines"
    by blast
  have "wiring_reachable (w\<lparr>wired_lines := l\<rparr>)"
    using wiring_with_lines [OF wiring_run_reachable [OF w(1) wiring_reachable.start] w(5) assms] .
  then show thesis by (rule that) (use w in \<open>simp_all add: wired_bus_def\<close>)
qed

lemma sample_message:
  assumes "devices b = devices sample_bridge"
  shows "handleIncomingCommand ''bluetti/command/EB3A-2237/led_mode'' '' SOS'' b =
    Dispatched sample_device (WriteSingleRegister 3034 3 (write_frame 3034 3))"
proof -
  have "handleIncomingCommand t p b = handleIncomingCommand t p sample_bridge" for t p
    unfolding handleIncomingCommand_def assms ..
  then show ?thesis by (simp only: sample_dispatched)
qed

end
