(* ===== verification/BasicClient.thy ===== *)
theory BasicClient
  imports Transport
begin

text \<open>
  \<open>BasicMqttClient\<close> (\<open>broker/basic-client.ts\<close>): the adapter from topics to callbacks for
  programs that embed the package. Callbacks are identities; how a call of one ends, and what the
  MQTT library answers, come with the events.
\<close>

record published_message =
  pub_topic :: string
  pub_payload :: string
  pub_retain :: "bool option"

record received_message =
  rec_topic :: string
  rec_payload :: "8 word list"

datatype subscribe_call =
    Subscribing string nat "nat option"
  | Subscribed string nat
  | SubscribeFailed js_error

record basic_client =
  callbacks :: "string \<rightharpoonup> nat"
  subscribes :: "subscribe_call list"
  calls_made :: "(nat \<times> received_message) list"
  message_errors :: "(js_error \<times> received_message) list"

definition new_BasicMqttClient :: basic_client where
  "new_BasicMqttClient = \<lparr>callbacks = (\<lambda>t. None), subscribes = [], calls_made = [], message_errors = []\<rparr>"

text \<open>\<open>publish\<close>, over the library's \<open>publishAsync\<close> (topic, payload, retain).\<close>

definition basic_publish :: "(string \<Rightarrow> string \<Rightarrow> bool \<Rightarrow> unit result) \<Rightarrow> published_message \<Rightarrow> unit result" where
  "basic_publish publishAsync m =
     publishAsync (pub_topic m) (pub_payload m) (case pub_retain m of None \<Rightarrow> False | Some r \<Rightarrow> r)"

text \<open>\<open>subscribe\<close> up to its \<open>await\<close>, and from there on.\<close>

definition subscribe_called :: "string \<Rightarrow> nat \<Rightarrow> basic_client \<Rightarrow> basic_client" where
  "subscribe_called topic onMessage s =
     (let previous = callbacks s topic
      in s\<lparr>callbacks := (callbacks s)(topic \<mapsto> onMessage),
           subscribes := subscribes s @ [Subscribing topic onMessage previous]\<rparr>)"

definition subscribe_answered :: "nat \<Rightarrow> unit result \<Rightarrow> basic_client \<Rightarrow> basic_client" where
  "subscribe_answered k r s =
     (case js_get (subscribes s) k of
        Some (Subscribing topic onMessage previous) \<Rightarrow>
          (case r of
             Inr _ \<Rightarrow> s\<lparr>subscribes := (subscribes s)[k := Subscribed topic onMessage]\<rparr>
           | Inl e \<Rightarrow> s\<lparr>callbacks := (callbacks s)(topic := previous),
                        subscribes := (subscribes s)[k := SubscribeFailed e]\<rparr>)
      | _ \<Rightarrow> s)"

text \<open>
  The listener of the constructor. The call of a callback throws, or returns a promise that
  settles, at once or later; either error goes to \<open>onMessageError\<close>.
\<close>

datatype callback_end = Throws js_error | Settles "unit result"

definition message_received :: "callback_end \<Rightarrow> received_message \<Rightarrow> basic_client \<Rightarrow> basic_client" where
  "message_received ending m s =
     (case callbacks s (rec_topic m) of
        None \<Rightarrow> s
      | Some callback \<Rightarrow>
          (let s = s\<lparr>calls_made := calls_made s @ [(callback, m)]\<rparr>
           in case ending of
                Throws e \<Rightarrow> s\<lparr>message_errors := message_errors s @ [(e, m)]\<rparr>
              | Settles (Inl e) \<Rightarrow> s\<lparr>message_errors := message_errors s @ [(e, m)]\<rparr>
              | Settles (Inr _) \<Rightarrow> s))"

datatype basic_event =
    SubscribeCalled string nat
  | SubscribeAnswered nat "unit result"
  | MessageReceived callback_end received_message

fun basic_step :: "basic_client \<Rightarrow> basic_event \<Rightarrow> basic_client" where
  "basic_step s (SubscribeCalled t f) = subscribe_called t f s"
| "basic_step s (SubscribeAnswered k r) = subscribe_answered k r s"
| "basic_step s (MessageReceived ending m) = message_received ending m s"

subsection \<open>Subscriptions one at a time per topic\<close>

fun live_on :: "string \<Rightarrow> subscribe_call \<Rightarrow> nat option" where
  "live_on t (Subscribing u f p) = (if u = t then Some f else None)"
| "live_on t (Subscribed u f) = (if u = t then Some f else None)"
| "live_on t (SubscribeFailed e) = None"

fun pending_on :: "string \<Rightarrow> subscribe_call \<Rightarrow> bool" where
  "pending_on t (Subscribing u f p) = (u = t)"
| "pending_on t _ = False"

text \<open>The promise of the module: the callback of the latest subscription that has not failed.\<close>

definition subscriber :: "string \<Rightarrow> subscribe_call list \<Rightarrow> nat option" where
  "subscriber t cs = foldl (\<lambda>now f. if f = None then now else f) None (map (live_on t) cs)"

fun serial_event :: "basic_client \<Rightarrow> basic_event \<Rightarrow> bool" where
  "serial_event s (SubscribeCalled t f) = list_all (\<lambda>c. \<not> pending_on t c) (subscribes s)"
| "serial_event s _ = True"

inductive serial_subscriptions :: "basic_client \<Rightarrow> bool" where
  start: "serial_subscriptions new_BasicMqttClient"
| step: "serial_subscriptions s \<Longrightarrow> serial_event s e \<Longrightarrow> serial_subscriptions (basic_step s e)"

lemma subscriber_append [simp]:
  "subscriber t (cs @ [c]) = (if live_on t c = None then subscriber t cs else live_on t c)"
  by (simp add: subscriber_def)

lemma subscriber_silent:
  "list_all (\<lambda>c. live_on t c = None) cs' \<Longrightarrow> subscriber t (cs @ cs') = subscriber t cs"
  by (induction cs' rule: rev_induct) (simp_all flip: append_assoc)

lemma subscriber_same: "map (live_on t) cs = map (live_on t) cs' \<Longrightarrow> subscriber t cs = subscriber t cs'"
  by (simp add: subscriber_def)

lemma live_on_update:
  "k < length cs \<Longrightarrow> live_on t c = live_on t (cs ! k) \<Longrightarrow> map (live_on t) (cs[k := c]) = map (live_on t) cs"
  by (simp add: map_update list_update_same_conv)

lemma subscriber_drop:
  assumes "k < length cs" and "list_all (\<lambda>c. live_on t c = None) (drop (Suc k) cs)" and "live_on t c = None"
  shows "subscriber t (cs[k := c]) = subscriber t (take k cs)"
proof -
  have "cs[k := c] = (take k cs @ [c]) @ drop (Suc k) cs" using assms(1) by (simp add: upd_conv_take_nth_drop)
  then show ?thesis using assms(2,3) by (simp only: subscriber_silent subscriber_append) simp
qed

lemma all_after:
  "list_all P (drop (Suc i) xs) \<longleftrightarrow> (\<forall>j < length xs. i < j \<longrightarrow> P (xs ! j))"
proof -
  have "list_all P (drop (Suc i) xs) \<longleftrightarrow> (\<forall>d. d < length xs - Suc i \<longrightarrow> P (xs ! (Suc i + d)))"
    by (auto simp: list_all_length)
  also have "\<dots> \<longleftrightarrow> (\<forall>j < length xs. i < j \<longrightarrow> P (xs ! j))"
  proof (intro iffI allI impI)
    fix j assume "\<forall>d. d < length xs - Suc i \<longrightarrow> P (xs ! (Suc i + d))" "j < length xs" "i < j"
    then show "P (xs ! j)" by (elim allE [where x = "j - Suc i"]) auto
  qed auto
  finally show ?thesis .
qed

text \<open>A pending subscription is the latest live one of its topic and remembers the one before.\<close>

definition remembers :: "subscribe_call list \<Rightarrow> nat \<Rightarrow> bool" where
  "remembers cs i \<longleftrightarrow> (\<forall>t f p. cs ! i = Subscribing t f p \<longrightarrow>
     p = subscriber t (take i cs) \<and> list_all (\<lambda>c. live_on t c = None) (drop (Suc i) cs))"

definition subscriptions_inv :: "basic_client \<Rightarrow> bool" where
  "subscriptions_inv s \<longleftrightarrow> (\<forall>t. callbacks s t = subscriber t (subscribes s)) \<and>
     (\<forall>i < length (subscribes s). remembers (subscribes s) i)"

lemma remembers_append:
  assumes "i < length cs" and "remembers cs i" and "\<forall>t. live_on t c \<noteq> None \<longrightarrow> list_all (\<lambda>c. \<not> pending_on t c) cs"
  shows "remembers (cs @ [c]) i"
  unfolding remembers_def
proof (intro allI impI)
  fix t f p assume at: "(cs @ [c]) ! i = Subscribing t f p"
  then have "pending_on t (cs ! i)" using assms(1) by (simp add: nth_append)
  then have "live_on t c = None" using assms(1,3) by (auto simp: list_all_length)
  then show "p = subscriber t (take i (cs @ [c])) \<and> list_all (\<lambda>c. live_on t c = None) (drop (Suc i) (cs @ [c]))"
    using at assms(1,2) by (simp add: remembers_def nth_append)
qed

lemma subscribe_called_inv:
  assumes inv: "subscriptions_inv s" and serial: "serial_event s (SubscribeCalled t f)"
  shows "subscriptions_inv (subscribe_called t f s)"
proof -
  let ?c = "Subscribing t f (callbacks s t)" and ?cs = "subscribes s"
  have "remembers (?cs @ [?c]) i" if "i < Suc (length ?cs)" for i
  proof (cases "i = length ?cs")
    case True
    then show ?thesis using inv by (simp add: remembers_def subscriptions_inv_def)
  next
    case False
    then show ?thesis
      using that inv serial by (intro remembers_append) (auto simp: subscriptions_inv_def split: if_splits)
  qed
  then show ?thesis using inv by (simp add: subscriptions_inv_def subscribe_called_def Let_def)
qed

lemma answered_remembers:
  assumes all: "\<forall>i < length cs. remembers cs i" and k: "k < length cs" "cs ! k = Subscribing t f p"
    and c: "c = Subscribed t f \<or> (\<exists>e. c = SubscribeFailed e)" and i: "i < length cs"
  shows "remembers (cs[k := c]) i"
  unfolding remembers_def
proof (intro allI impI)
  fix u g q assume at: "cs[k := c] ! i = Subscribing u g q"
  have ne: "i \<noteq> k" using at c k(1) by auto
  then have ati: "cs ! i = Subscribing u g q" using at by simp
  have one: "u \<noteq> t"
  proof
    assume "u = t"
    have "\<forall>j < length cs. k < j \<longrightarrow> live_on t (cs ! j) = None" "\<forall>j < length cs. i < j \<longrightarrow> live_on u (cs ! j) = None"
      using all i k ati by (simp_all add: remembers_def all_after)
    then have "live_on t (cs ! i) = None \<or> live_on u (cs ! k) = None"
      using i k(1) ne by (cases i k rule: linorder_cases) metis+
    then show False using ati k \<open>u = t\<close> by auto
  qed
  then have same: "live_on u c = live_on u (cs ! k)" using c k by auto
  have "map (live_on u) (take i (cs[k := c])) = map (live_on u) (take i cs)"
    using live_on_update [OF k(1) same] by (simp flip: take_map)
  then have "subscriber u (take i (cs[k := c])) = subscriber u (take i cs)" by (rule subscriber_same)
  moreover have "live_on u (cs[k := c] ! j) = live_on u (cs ! j)" for j
    using same k(1) by (cases "j = k") simp_all
  ultimately show "q = subscriber u (take i (cs[k := c])) \<and> list_all (\<lambda>c. live_on u c = None) (drop (Suc i) (cs[k := c]))"
    using all i ati by (simp add: remembers_def all_after)
qed

lemma subscribe_answered_inv:
  assumes inv: "subscriptions_inv s"
  shows "subscriptions_inv (subscribe_answered k r s)"
proof (cases "\<exists>t f p. js_get (subscribes s) k = Some (Subscribing t f p)")
  case False
  then show ?thesis using inv by (auto simp: subscribe_answered_def split: option.split subscribe_call.split)
next
  case True
  then obtain t f p where k: "k < length (subscribes s)" "subscribes s ! k = Subscribing t f p"
    by (auto simp: js_get_def split: if_splits)
  let ?cs = "subscribes s"
  have all: "\<forall>i < length ?cs. remembers ?cs i" and cb: "callbacks s = (\<lambda>t. subscriber t ?cs)"
    using inv by (auto simp: subscriptions_inv_def)
  have keep: "subscriber u (?cs[k := c]) = subscriber u ?cs" if "live_on u c = live_on u (?cs ! k)" for u c
    by (rule subscriber_same [OF live_on_update [OF k(1) that]])
  have p: "p = subscriber t (take k ?cs)" "list_all (\<lambda>c. live_on t c = None) (drop (Suc k) ?cs)"
    using all k by (simp_all add: remembers_def)
  show ?thesis
    using answered_remembers [OF all k] k p keep subscriber_drop [OF k(1), of t]
    by (cases r) (auto simp: subscribe_answered_def js_get_def subscriptions_inv_def cb fun_eq_iff)
qed

lemma serial_subscriptions_inv: "serial_subscriptions s \<Longrightarrow> subscriptions_inv s"
proof (induction rule: serial_subscriptions.induct)
  case start
  show ?case by (simp add: subscriptions_inv_def new_BasicMqttClient_def subscriber_def)
next
  case (step s e)
  show ?case
  proof (cases e)
    case (SubscribeCalled t f)
    then show ?thesis using step subscribe_called_inv by simp
  next
    case (SubscribeAnswered k r)
    then show ?thesis using step subscribe_answered_inv by simp
  next
    case (MessageReceived ending m)
    then show ?thesis
      using step.IH by (simp add: message_received_def subscriptions_inv_def Let_def
          split: option.split callback_end.split sum.split)
  qed
qed

subsection \<open>Properties\<close>

text \<open>
  C30: \<open>subscribe\<close> is transactional, as long as the subscriptions to one topic do not overlap: a
  message goes to the callback of the latest subscription to exactly its topic that has not
  failed, and to nobody when there is none; a callback that throws or rejects is reported with
  the message it was given, and changes nothing else.
\<close>

theorem latest_subscription_called:
  assumes "serial_subscriptions s" and "s' = message_received ending m s"
  shows "(case subscriber (rec_topic m) (subscribes s) of
      None \<Rightarrow> s' = s
    | Some f \<Rightarrow> calls_made s' = calls_made s @ [(f, m)] \<and>
        message_errors s' = message_errors s @
          (case ending of Throws e \<Rightarrow> [(e, m)] | Settles (Inl e) \<Rightarrow> [(e, m)] | Settles (Inr _) \<Rightarrow> []) \<and>
        callbacks s' = callbacks s \<and> subscribes s' = subscribes s)"
  using serial_subscriptions_inv [OF assms(1)] assms(2)
  by (auto simp: subscriptions_inv_def message_received_def Let_def split: option.split callback_end.split sum.split)

text \<open>
  Overlapping subscriptions to one topic break it: when the earlier of two fails after the later
  one has succeeded, its rollback removes the callback of the later one.
\<close>

theorem rollback_removes_later_subscription:
  assumes "callbacks s t = None" and "k = length (subscribes s)"
    and "s' = foldl basic_step s [SubscribeCalled t f, SubscribeCalled t g,
      SubscribeAnswered (Suc k) (Inr ()), SubscribeAnswered k (Inl e)]"
  shows "js_get (subscribes s') (Suc k) = Some (Subscribed t g) \<and> callbacks s' t = None"
  using assms
  by (simp add: subscribe_called_def subscribe_answered_def js_get_def Let_def nth_append)

theorem latest_subscription_called_witness:
  "\<exists>s. serial_subscriptions s \<and> subscribes s = [Subscribed ''t'' 1, SubscribeFailed (PlainError ''no'')] \<and>
     calls_made (message_received (Throws (PlainError ''bad'')) \<lparr>rec_topic = ''t'', rec_payload = [1]\<rparr> s) =
       [(1, \<lparr>rec_topic = ''t'', rec_payload = [1]\<rparr>)]"
proof -
  let ?s = "foldl basic_step new_BasicMqttClient [SubscribeCalled ''t'' 1, SubscribeAnswered 0 (Inr ()),
      SubscribeCalled ''t'' 2, SubscribeAnswered 1 (Inl (PlainError ''no''))]"
  let ?m = "\<lparr>rec_topic = ''t'', rec_payload = [1 :: 8 word]\<rparr>"
  note ev = new_BasicMqttClient_def subscribe_called_def subscribe_answered_def js_get_def Let_def
  have run: "serial_subscriptions ?s"
    unfolding foldl.simps by (intro serial_subscriptions.intros) (simp_all add: ev)
  have "subscribes ?s = [Subscribed ''t'' 1, SubscribeFailed (PlainError ''no'')]" "calls_made ?s = []"
    by (simp_all add: ev)
  then show ?thesis
    using run latest_subscription_called [OF run refl, of "Throws (PlainError ''bad'')" ?m]
    by (intro exI [of _ ?s] conjI) (simp_all only: subscriber_def list.map foldl.simps, simp_all)
qed

end
