(* ===== verification/Server.thy ===== *)
theory Server
  imports Handler Queue Manager Bridge
begin

text \<open>
  \<open>BluettiMqttServer\<close> (\<open>app/server.ts\<close>): the MQTT bridge, the device manager and the polling loops in
  one life cycle. \<open>run\<close> is a step function on events, one event per piece of code between two
  suspension points that decide something: the phases of \<open>run\<close> itself and of
  \<open>connectAllWithRecovery\<close>, and one state per polling loop. What an iteration of a loop reads is
  theory \<open>Handler\<close>; here an iteration publishes anything and ends in any of the four ways it can.
  Loops do not end when \<open>Promise.all\<close> rejects: their events stay enabled. The outcomes of the MQTT
  library are arguments, the helper's are those of any helper client.
\<close>

subsection \<open>State\<close>

datatype loop_state = LoopPolling | LoopRecovering | LoopWaiting | LoopOver "unit result"

datatype run_phase = BridgeStarting | Connecting | Retrying | LoopsRunning | CleaningUp "unit result" | RunOver "unit result"

record 'c server =
  srv_manager :: "'c helper_env manager"
  srv_bridge :: bridge
  srv_queue :: work_queue
  srv_loops :: "loop_state list"
  srv_phase :: run_phase
  srv_warnings :: "(string \<times> string) list"

text \<open>The constructor, and \<open>run\<close> called.\<close>

definition new_BluettiMqttServer :: "'c \<Rightarrow> 'c server" where
  "new_BluettiMqttServer c = \<lparr>srv_manager = new_manager c, srv_bridge = new_BluettiMqttBridge new_EventBus,
     srv_queue = new_DeviceWorkQueue, srv_loops = [], srv_phase = BridgeStarting, srv_warnings = []\<rparr>"

subsection \<open>Parts of the operations\<close>

text \<open>\<open>formatError\<close>; an empty message is replaced by the error's name (the
  classes of \<open>errors.ts\<close> inherit that of \<open>Error\<close>).\<close>

fun error_name :: "js_error \<Rightarrow> string" where
  "error_name (RangeError m) = ''RangeError''"
| "error_name (AggregateError es m) = ''AggregateError''"
| "error_name e = ''Error''"

fun formatError :: "js_error \<Rightarrow> string" where
  "formatError (AggregateError es m) = join_with ''; '' (map error_message es)"
| "formatError e = (if error_message e = [] then error_name e else error_message e)"

text \<open>The answers of the MQTT library during \<open>run\<close>.\<close>

record mqtt_outcomes =
  on_connect :: "unit result"
  on_subscribe :: "unit result"
  on_listen :: "unit result"
  on_off :: "unit result"
  on_end :: "unit result"

definition warn_failure :: "string \<Rightarrow> unit result \<Rightarrow> 'c server \<Rightarrow> 'c server" where
  "warn_failure what r s =
     (case r of Inr _ \<Rightarrow> s | Inl e \<Rightarrow> s\<lparr>srv_warnings := srv_warnings s @ [(what, formatError e)]\<rparr>)"

definition bridge_startup :: "mqtt_outcomes \<Rightarrow> bridge \<Rightarrow> bridge" where
  "bridge_startup q b =
     (let k = length (runs b)
      in subscribe_settled k (on_subscribe q) (on_listen q) (on_off q) (on_end q)
           (connector_settled k (on_connect q) (run_called b)))"

definition server_cleanup :: "'c helper_ops \<Rightarrow> mqtt_outcomes \<Rightarrow> 'c server \<Rightarrow> 'c server" where
  "server_cleanup hc q s =
     (case disconnectAll (helper_transport_ops hc) (srv_manager s) of
        (r, m) \<Rightarrow>
          (let s = warn_failure ''Bluetooth cleanup failed'' r (s\<lparr>srv_manager := m\<rparr>)
           in case bridge_stop (on_off q) (on_end q) (srv_bridge s) of
                (r, b) \<Rightarrow> warn_failure ''MQTT cleanup failed'' r (s\<lparr>srv_bridge := b\<rparr>)))"

subsection \<open>Operations\<close>

definition stop_flag :: "'c server \<Rightarrow> bool" where
  "stop_flag s = stopRequested (srv_queue s)"

definition server_stop :: "'c server \<Rightarrow> 'c server" where
  "server_stop s = s\<lparr>srv_queue := queue_stop (srv_queue s)\<rparr>"

text \<open>\<open>await this.mqttBridge.run()\<close> settles; polling starts with a reset of the queue.\<close>

definition bridge_settled :: "mqtt_outcomes \<Rightarrow> 'c server \<Rightarrow> 'c server option" where
  "bridge_settled q s =
     (let k = length (runs (srv_bridge s)); b = bridge_startup q (srv_bridge s)
      in if srv_phase s \<noteq> BridgeStarting then None
         else case js_get (runs b) k of
                Some (RunReturned (Inr _)) \<Rightarrow>
                  Some (s\<lparr>srv_bridge := b, srv_queue := queue_reset (srv_queue s), srv_phase := Connecting\<rparr>)
              | Some (RunReturned (Inl e)) \<Rightarrow> Some (s\<lparr>srv_bridge := b, srv_phase := RunOver (Inl e)\<rparr>)
              | _ \<Rightarrow> None)"

text \<open>Every \<open>while\<close> loop asks whether a stop was requested before it goes on.\<close>

definition guarded :: "'c server \<Rightarrow> loop_state \<Rightarrow> loop_state" where
  "guarded s st = (if stop_flag s then LoopOver (Inr ()) else st)"

fun loop_over :: "loop_state \<Rightarrow> bool" where
  "loop_over (LoopOver r) = True"
| "loop_over _ = False"

text \<open>\<open>Promise.all\<close>: resolved when every loop has returned.\<close>

definition all_returned :: "'c server \<Rightarrow> 'c server" where
  "all_returned s = (if list_all loop_over (srv_loops s) then s\<lparr>srv_phase := CleaningUp (Inr ())\<rparr> else s)"

text \<open>
  \<open>connectAll\<close> settles; \<open>registered\<close> is the outcome of the registration that follows it
  (\<open>register_addresses\<close> of theory \<open>Handler\<close>).
\<close>

definition connect_settled ::
  "'c helper_ops \<Rightarrow> string list \<Rightarrow> bool \<Rightarrow> unit result \<Rightarrow> 'c server \<Rightarrow> 'c server option" where
  "connect_settled hc addresses runOnce registered s =
     (if srv_phase s \<noteq> Connecting then None
      else case connect_addresses (helper_transport_ops hc) helper_create addresses (srv_manager s) of
        (r, m) \<Rightarrow>
          (let s = s\<lparr>srv_manager := m\<rparr>
           in case (case r of Inl e \<Rightarrow> Inl e | Inr _ \<Rightarrow> registered) of
                Inr _ \<Rightarrow> Some (all_returned (s\<lparr>srv_phase := LoopsRunning,
                                srv_loops := replicate (length addresses) (guarded s LoopPolling)\<rparr>))
              | Inl e \<Rightarrow> Some (s\<lparr>srv_phase := (if runOnce \<or> \<not> is_bad_connection e then CleaningUp (Inl e) else Retrying)\<rparr>)))"

text \<open>The pause between two attempts ends, by its timer or by \<open>stop\<close>.\<close>

definition retry_elapsed :: "'c server \<Rightarrow> 'c server option" where
  "retry_elapsed s =
     (if srv_phase s \<noteq> Retrying then None
      else Some (s\<lparr>srv_phase := (if stop_flag s then CleaningUp (Inr ()) else Connecting)\<rparr>))"

text \<open>A loop changes state; the first that throws, or the last that returns, settles \<open>Promise.all\<close>.\<close>

definition set_loop :: "nat \<Rightarrow> loop_state \<Rightarrow> 'c server \<Rightarrow> 'c server" where
  "set_loop i st s =
     (let s' = s\<lparr>srv_loops := (srv_loops s)[i := st]\<rparr>
      in if srv_phase s \<noteq> LoopsRunning then s'
         else case st of
                LoopOver (Inl e) \<Rightarrow> s'\<lparr>srv_phase := CleaningUp (Inl e)\<rparr>
              | _ \<Rightarrow> all_returned s')"

text \<open>
  A reading is published on the bus; the bridge gets it while it listens. Then the ends of an
  iteration: it slept, it completed, the connection was lost, it threw.
\<close>

datatype iteration = Slept | Completed | Lost | Threw js_error

definition loop_publishes ::
  "nat \<Rightarrow> (nat \<Rightarrow> unit result) \<Rightarrow> bluetti_device \<Rightarrow> parsed_field_map \<Rightarrow> 'c server \<Rightarrow> 'c server option" where
  "loop_publishes i pub dev parsed s =
     (if js_get (srv_loops s) i \<noteq> Some LoopPolling then None
      else Some (if removeParserListener (srv_bridge s) = None then s
                 else s\<lparr>srv_bridge := snd (handleParserMessage pub dev parsed (srv_bridge s))\<rparr>))"

definition iteration_ends :: "bool \<Rightarrow> nat \<Rightarrow> iteration \<Rightarrow> 'c server \<Rightarrow> 'c server option" where
  "iteration_ends runOnce i out s =
     (if js_get (srv_loops s) i \<noteq> Some LoopPolling then None
      else Some (set_loop i
        (case out of
           Slept \<Rightarrow> guarded s LoopPolling
         | Completed \<Rightarrow> (if runOnce then LoopOver (Inr ()) else guarded s LoopPolling)
         | Lost \<Rightarrow> (if runOnce then LoopOver (Inr ()) else guarded s LoopRecovering)
         | Threw e \<Rightarrow> LoopOver (Inl e)) s))"

text \<open>\<open>recoverDeviceConnection\<close>: an attempt, and the pause after a failed one.\<close>

definition reconnect_settled :: "'c helper_ops \<Rightarrow> string list \<Rightarrow> nat \<Rightarrow> 'c server \<Rightarrow> 'c server option" where
  "reconnect_settled hc addresses i s =
     (if js_get (srv_loops s) i \<noteq> Some LoopRecovering then None
      else case reconnect (helper_transport_ops hc) helper_create (addresses ! i) (srv_manager s) of
        (r, m) \<Rightarrow> Some (set_loop i (case r of Inr _ \<Rightarrow> guarded s LoopPolling | Inl e \<Rightarrow> LoopWaiting) (s\<lparr>srv_manager := m\<rparr>)))"

definition wait_over :: "nat \<Rightarrow> 'c server \<Rightarrow> 'c server option" where
  "wait_over i s =
     (if js_get (srv_loops s) i \<noteq> Some LoopWaiting then None else Some (set_loop i (guarded s LoopRecovering) s))"

definition cleanup_done :: "'c helper_ops \<Rightarrow> mqtt_outcomes \<Rightarrow> 'c server \<Rightarrow> 'c server option" where
  "cleanup_done hc q s =
     (case srv_phase s of
        CleaningUp r \<Rightarrow> Some ((server_cleanup hc q s)\<lparr>srv_phase := RunOver r\<rparr>)
      | _ \<Rightarrow> None)"

datatype server_event =
    StopRequested
  | BridgeSettled mqtt_outcomes
  | ConnectSettled "unit result"
  | RetryElapsed
  | LoopPublishes nat "nat \<Rightarrow> unit result" bluetti_device parsed_field_map
  | IterationEnds nat iteration
  | ReconnectSettled nat
  | WaitOver nat
  | CleanupDone mqtt_outcomes

fun server_step :: "'c helper_ops \<Rightarrow> string list \<Rightarrow> bool \<Rightarrow> server_event \<Rightarrow> 'c server \<Rightarrow> 'c server option" where
  "server_step hc addresses runOnce StopRequested s = Some (server_stop s)"
| "server_step hc addresses runOnce (BridgeSettled q) s = bridge_settled q s"
| "server_step hc addresses runOnce (ConnectSettled r) s = connect_settled hc addresses runOnce r s"
| "server_step hc addresses runOnce RetryElapsed s = retry_elapsed s"
| "server_step hc addresses runOnce (LoopPublishes i pub dev parsed) s = loop_publishes i pub dev parsed s"
| "server_step hc addresses runOnce (IterationEnds i out) s = iteration_ends runOnce i out s"
| "server_step hc addresses runOnce (ReconnectSettled i) s = reconnect_settled hc addresses i s"
| "server_step hc addresses runOnce (WaitOver i) s = wait_over i s"
| "server_step hc addresses runOnce (CleanupDone q) s = cleanup_done hc q s"

inductive server_reachable :: "'c helper_ops \<Rightarrow> string list \<Rightarrow> bool \<Rightarrow> 'c server \<Rightarrow> bool"
  for hc addresses runOnce where
    constructed: "server_reachable hc addresses runOnce (new_BluettiMqttServer c)"
  | step: "\<lbrakk>server_reachable hc addresses runOnce s; server_step hc addresses runOnce ev s = Some s'\<rbrakk> \<Longrightarrow>
      server_reachable hc addresses runOnce s'"

subsection \<open>What the two parts keep\<close>

lemma startup_one_phase:
  assumes "one_phase b s" and "\<not> run_pending s"
  shows "one_phase b (bridge_startup q s)"
proof -
  let ?k = "length (runs s)"
  have "one_phase b (run_called s)" using one_phase_step [OF assms(1), of RunCalled] assms(2) by simp
  then have "one_phase b (connector_settled ?k (on_connect q) (run_called s))"
    using one_phase_step [of b "run_called s" "ConnectorSettled ?k (on_connect q)"] by simp
  then show ?thesis
    using one_phase_step [of b _ "SubscribeSettled ?k (on_subscribe q) (on_listen q) (on_off q) (on_end q)"]
    by (simp add: bridge_startup_def Let_def)
qed

text \<open>The three steps of \<open>run\<close> on an idle bridge.\<close>

lemma startup_outcome:
  assumes one: "one_phase b s" and quiet: "\<not> run_pending s" and idle: "idle b s" and k: "k = length (runs s)"
    and s': "s' = bridge_startup q s"
  shows "\<not> run_pending s' \<and>
    ((\<exists>cid. running b s' cid) \<and> js_get (runs s') k = Some (RunReturned (Inr ())) \<or>
     idle b s' \<and> (\<exists>e. js_get (runs s') k = Some (RunReturned (Inl e)) \<and>
       (on_connect q = Inl e \<or> on_subscribe q = Inl e \<or> on_listen q = Inl e)))"
proof -
  let ?s1 = "run_called s" let ?s2 = "connector_settled k (on_connect q) ?s1"
  have none: "filter pending_call (runs s) = []" using quiet by (simp add: run_pending_filter)
  have r1: "runs ?s1 = runs s @ [AwaitConnector]" "js_get (runs ?s1) k = Some AwaitConnector"
    using idle k by (simp_all add: run_called_def idle_def js_get_def)
  have one1: "one_phase b ?s1" using one_phase_step [OF one, of RunCalled] quiet by simp
  have one2: "one_phase b ?s2" using one_phase_step [OF one1, of "ConnectorSettled k (on_connect q)"] by simp
  have s2: "s' = subscribe_settled k (on_subscribe q) (on_listen q) (on_off q) (on_end q) ?s2"
    using s' k by (simp add: bridge_startup_def Let_def)
  show ?thesis
  proof (cases "on_connect q")
    case (Inl e)
    then have r2: "runs ?s2 = runs s @ [RunReturned (Inl e)]" using r1 k by (simp add: connector_settled_def)
    then have same: "s' = ?s2" using k by (simp add: s2 subscribe_settled_def js_get_def)
    have "idle b ?s2" using idle Inl r1(2) by (simp add: connector_settled_def run_called_def)
    then show ?thesis using same r2 none k Inl by (simp add: run_pending_filter js_get_def)
  next
    case (Inr u)
    then have r2: "js_get (runs ?s2) k = Some (AwaitSubscribe (clients_made ?s1))"
      using r1 k by (simp add: connector_settled_def Let_def js_get_def)
    have bd: "k < length (runs s')"
      using r1 k Inr by (simp add: s2 connector_settled_def subscribe_settled_def Let_def js_get_def
          install_listeners_def split: sum.split)
    from subscribe_settled_outcome [OF one2 r2 s2] bd show ?thesis
      by (auto simp: run_pending_filter js_get_def split: if_splits)
  qed
qed

lemma cleanup_manager:
  "srv_manager (server_cleanup hc q s) = snd (disconnectAll (helper_transport_ops hc) (srv_manager s))"
  "srv_bridge (server_cleanup hc q s) = snd (bridge_stop (on_off q) (on_end q) (srv_bridge s))"
  by (simp_all add: server_cleanup_def warn_failure_def Let_def split: prod.split sum.split)

subsection \<open>The invariant of the life cycle\<close>

definition bridge_up :: "bridge \<Rightarrow> bool" where
  "bridge_up b \<longleftrightarrow> (\<exists>cid. running new_EventBus b cid) \<and> one_phase new_EventBus b \<and> \<not> run_pending b"

definition loops_settled :: "nat \<Rightarrow> unit result \<Rightarrow> loop_state list \<Rightarrow> bool" where
  "loops_settled n r ls \<longleftrightarrow>
     (ls = [] \<or> length ls = n) \<and>
     (case r of Inr _ \<Rightarrow> list_all loop_over ls | Inl e \<Rightarrow> ls = [] \<or> LoopOver (Inl e) \<in> set ls)"

abbreviation manager_sound :: "'c helper_env manager \<Rightarrow> bool" where
  "manager_sound m \<equiv> manager_inv helper_opened (\<lambda>e h. h < created e) m"

definition server_inv :: "nat \<Rightarrow> 'c server \<Rightarrow> bool" where
  "server_inv n s \<longleftrightarrow> manager_sound (srv_manager s) \<and>
     (case srv_phase s of
        BridgeStarting \<Rightarrow> srv_bridge s = new_BluettiMqttBridge new_EventBus \<and> sessions (srv_manager s) = [] \<and> srv_loops s = []
      | LoopsRunning \<Rightarrow> bridge_up (srv_bridge s) \<and> length (srv_loops s) = n \<and> \<not> list_all loop_over (srv_loops s) \<and>
          (\<forall>e. LoopOver (Inl e) \<notin> set (srv_loops s))
      | CleaningUp r \<Rightarrow> bridge_up (srv_bridge s) \<and> loops_settled n r (srv_loops s)
      | RunOver r \<Rightarrow> Bridge.idle new_EventBus (srv_bridge s) \<and> loops_settled n r (srv_loops s) \<and>
          (sessions (srv_manager s) = [] \<or> (\<exists>e. r = Inl e) \<and> 1 < n)
      | _ \<Rightarrow> bridge_up (srv_bridge s) \<and> srv_loops s = [])"

lemma new_server_inv: "server_inv n (new_BluettiMqttServer c)"
  using new_manager_inv by (auto simp: server_inv_def new_BluettiMqttServer_def new_manager_def)

text \<open>A loop that is not over beside one that threw: there are two.\<close>

lemma two_loops:
  assumes "js_get ls i = Some st" and "\<not> loop_over st" and "LoopOver r \<in> set ls"
  shows "1 < length ls"
proof (rule ccontr)
  assume "\<not> 1 < length ls"
  moreover have "i < length ls" "ls ! i = st" using assms(1) by (auto simp: js_get_def split: if_splits)
  ultimately show False using assms(2,3) by (cases ls) auto
qed

lemma live_loop_phase:
  assumes "server_inv n s" and "js_get (srv_loops s) i = Some st" and "\<not> loop_over st"
  shows "srv_phase s = LoopsRunning \<or> (\<exists>e. LoopOver (Inl e) \<in> set (srv_loops s) \<and> 1 < n \<and>
    (srv_phase s = CleaningUp (Inl e) \<or> srv_phase s = RunOver (Inl e)))"
proof -
  have i: "i < length (srv_loops s)" "srv_loops s ! i = st" using assms(2) by (auto simp: js_get_def split: if_splits)
  have live: "\<not> list_all loop_over (srv_loops s)" using i assms(3) by (auto simp: list_all_length)
  have two: "LoopOver r \<in> set (srv_loops s) \<Longrightarrow> 1 < length (srv_loops s)" for r
    using two_loops assms(2,3) by blast
  have "\<exists>e. r = Inl e \<and> LoopOver (Inl e) \<in> set (srv_loops s) \<and> 1 < n" if "loops_settled n r (srv_loops s)" for r
    using that live two i by (cases r) (auto simp: loops_settled_def)
  then show ?thesis using assms(1) i live by (cases "srv_phase s") (auto simp: server_inv_def)
qed

lemma server_inv_manager:
  assumes "server_inv n s" and "js_get (srv_loops s) i = Some st" and "\<not> loop_over st" and "manager_sound m"
  shows "server_inv n (s\<lparr>srv_manager := m\<rparr>)"
  using live_loop_phase [OF assms(1-3)] assms(1,4) by (auto simp: server_inv_def)

lemma server_inv_loop:
  assumes inv: "server_inv n s" and live: "js_get (srv_loops s) i = Some st0" "\<not> loop_over st0"
  shows "server_inv n (set_loop i st s)"
proof -
  have i: "i < length (srv_loops s)" "srv_loops s ! i = st0" using live(1) by (auto simp: js_get_def split: if_splits)
  have keep: "LoopOver r \<in> set ((srv_loops s)[i := st])" if mem: "LoopOver r \<in> set (srv_loops s)" for r
  proof -
    obtain j where "j < length (srv_loops s)" "srv_loops s ! j = LoopOver r"
      using mem by (auto simp: in_set_conv_nth)
    then show ?thesis using i live(2) by (intro in_set_conv_nth [THEN iffD2] exI [of _ j]) (auto simp: nth_list_update)
  qed
  show ?thesis
  proof (cases "srv_phase s = LoopsRunning")
    case True
    then have s: "bridge_up (srv_bridge s)" "length (srv_loops s) = n" "\<forall>e. LoopOver (Inl e) \<notin> set (srv_loops s)"
        "manager_sound (srv_manager s)"
      using inv by (simp_all add: server_inv_def)
    show ?thesis
    proof (cases "\<exists>e. st = LoopOver (Inl e)")
      case True
      then show ?thesis
        using s i \<open>srv_phase s = LoopsRunning\<close>
        by (auto simp: server_inv_def set_loop_def loops_settled_def Let_def set_update_memI)
    next
      case False
      then have set: "set_loop i st s = all_returned (s\<lparr>srv_loops := (srv_loops s)[i := st]\<rparr>)"
        using True by (auto simp: set_loop_def Let_def split: loop_state.split sum.split)
      have "\<forall>e. LoopOver (Inl e) \<notin> set ((srv_loops s)[i := st])"
        using s(3) False set_update_subset_insert [of "srv_loops s" i st] by blast
      then show ?thesis
        using s True by (simp add: set all_returned_def server_inv_def loops_settled_def)
    qed
  next
    case False
    then show ?thesis
      using live_loop_phase [OF inv live] inv keep
      by (auto simp: server_inv_def set_loop_def loops_settled_def Let_def)
  qed
qed

lemma up_cleanup: "bridge_up b \<Longrightarrow> Bridge.idle new_EventBus (snd (bridge_stop off_o end_o b))"
  using running_cleanup by (auto simp: bridge_up_def bridge_stop_def running_def)

lemma up_telemetry: "bridge_up b \<Longrightarrow> bridge_up (snd (handleParserMessage pub dev parsed b))"
  by (auto simp: bridge_up_def handleParserMessage_state one_phase_devices run_pending_def)

lemma fresh_bridge:
  "one_phase new_EventBus (new_BluettiMqttBridge new_EventBus)" "\<not> run_pending (new_BluettiMqttBridge new_EventBus)"
  "Bridge.idle new_EventBus (new_BluettiMqttBridge new_EventBus)" "runs (new_BluettiMqttBridge new_EventBus) = []"
  using one_phase_reachable [OF bridge_reachable.start [of serial_order new_EventBus]]
  by (simp_all add: run_pending_def idle_def detached_def) (simp_all add: new_BluettiMqttBridge_def)

text \<open>The steps of \<open>run\<close> itself.\<close>

lemma bridge_settled_inv:
  assumes inv: "server_inv n s" and step: "bridge_settled q s = Some s'"
  shows "server_inv n s'" and "\<exists>e. srv_phase s' = RunOver (Inl e) \<and> srv_manager s' = srv_manager s \<or> srv_phase s' = Connecting"
proof -
  define b where "b = bridge_startup q (srv_bridge s)"
  have s: "srv_phase s = BridgeStarting" using step by (auto simp: bridge_settled_def Let_def split: if_splits)
  with inv have new: "srv_bridge s = new_BluettiMqttBridge new_EventBus" "srv_loops s = []" "sessions (srv_manager s) = []"
      "manager_sound (srv_manager s)"
    by (simp_all add: server_inv_def)
  note out = startup_outcome [OF fresh_bridge(1-3) refl b_def [unfolded new(1)]]
  have one: "one_phase new_EventBus b" unfolding b_def new(1) by (rule startup_one_phase [OF fresh_bridge(1,2)])
  from out consider (up) cid where "\<not> run_pending b" "running new_EventBus b cid"
        "js_get (runs b) (length (runs (srv_bridge s))) = Some (RunReturned (Inr ()))"
    | (down) e where "Bridge.idle new_EventBus b" "js_get (runs b) (length (runs (srv_bridge s))) = Some (RunReturned (Inl e))"
    unfolding new(1) by blast
  then have "server_inv n s' \<and>
      (\<exists>e. srv_phase s' = RunOver (Inl e) \<and> srv_manager s' = srv_manager s \<or> srv_phase s' = Connecting)"
  proof cases
    case up
    then have "s' = s\<lparr>srv_bridge := b, srv_queue := queue_reset (srv_queue s), srv_phase := Connecting\<rparr>"
      using step s by (simp add: bridge_settled_def Let_def b_def)
    then show ?thesis using up one new by (auto simp: server_inv_def bridge_up_def)
  next
    case down
    then have "s' = s\<lparr>srv_bridge := b, srv_phase := RunOver (Inl e)\<rparr>"
      using step s by (simp add: bridge_settled_def Let_def b_def)
    then show ?thesis using down new by (simp add: server_inv_def loops_settled_def)
  qed
  then show "server_inv n s'"
    and "\<exists>e. srv_phase s' = RunOver (Inl e) \<and> srv_manager s' = srv_manager s \<or> srv_phase s' = Connecting"
    by blast+
qed

lemma connect_settled_inv:
  assumes inv: "server_inv (length addresses) s" and step: "connect_settled hc addresses runOnce r s = Some s'"
  shows "server_inv (length addresses) s'"
proof -
  obtain ru m where m: "connect_addresses (helper_transport_ops hc) helper_create addresses (srv_manager s) = (ru, m)"
    by fastforce
  have s: "srv_phase s = Connecting" "bridge_up (srv_bridge s)" "srv_loops s = []" "manager_sound (srv_manager s)"
    using inv step by (auto simp: connect_settled_def server_inv_def split: if_splits)
  have "manager_sound m" using factory.connect_addresses_inv [OF s(4), of hc addresses] m by simp
  then show ?thesis
    using step s(1-3) m
    by (auto simp: connect_settled_def server_inv_def loops_settled_def all_returned_def guarded_def Let_def
        split: sum.splits if_splits)
qed

lemma cleanup_done_inv:
  assumes inv: "server_inv n s" and step: "cleanup_done hc q s = Some s'"
  shows "server_inv n s' \<and> sessions (srv_manager s') = []"
proof -
  obtain r where s: "srv_phase s = CleaningUp r" "s' = (server_cleanup hc q s)\<lparr>srv_phase := RunOver r\<rparr>"
    using step by (auto simp: cleanup_done_def split: run_phase.splits)
  have loops: "srv_loops (server_cleanup hc q s) = srv_loops s"
    by (simp add: server_cleanup_def warn_failure_def Let_def split: prod.split sum.split)
  from inv s(1) have "manager_sound (srv_manager s)" "bridge_up (srv_bridge s)" "loops_settled n r (srv_loops s)"
    by (simp_all add: server_inv_def)
  then show ?thesis
    using factory.disconnectAll_inv [of "srv_manager s" hc] by (simp add: server_inv_def s(2) loops cleanup_manager up_cleanup)
qed

lemma server_step_inv:
  assumes inv: "server_inv (length addresses) s" and step: "server_step hc addresses runOnce ev s = Some s'"
  shows "server_inv (length addresses) s'"
proof (cases ev)
  case StopRequested
  then have "s' = server_stop s" using step by simp
  then show ?thesis using inv by (cases "srv_phase s") (simp_all add: server_inv_def server_stop_def)
next
  case (BridgeSettled q)
  then show ?thesis using bridge_settled_inv(1) [OF inv] step by simp
next
  case (ConnectSettled r)
  then show ?thesis using connect_settled_inv [OF inv] step by simp
next
  case RetryElapsed
  then show ?thesis using inv step
    by (auto simp: retry_elapsed_def server_inv_def loops_settled_def split: if_splits)
next
  case (LoopPublishes i pub dev parsed)
  then show ?thesis
    using inv step live_loop_phase [OF inv, of i LoopPolling] up_telemetry [of "srv_bridge s" pub dev parsed]
    by (auto simp: loop_publishes_def server_inv_def idle_def detached_def split: if_splits)
next
  case (IterationEnds i out)
  then show ?thesis
    using step server_inv_loop [OF inv, of i LoopPolling] by (auto simp: iteration_ends_def split: if_splits)
next
  case (ReconnectSettled i)
  obtain r m where m: "reconnect (helper_transport_ops hc) helper_create (addresses ! i) (srv_manager s) = (r, m)"
    by fastforce
  have live: "js_get (srv_loops s) i = Some LoopRecovering"
    and s': "s' = set_loop i (case r of Inr _ \<Rightarrow> guarded s LoopPolling | Inl e \<Rightarrow> LoopWaiting) (s\<lparr>srv_manager := m\<rparr>)"
    using step ReconnectSettled m by (auto simp: reconnect_settled_def split: if_splits)
  have "manager_sound (srv_manager s)" using inv by (simp add: server_inv_def)
  then have "manager_sound m" using factory.reconnect_inv [of "srv_manager s" hc "addresses ! i"] m by simp
  then have with_m: "server_inv (length addresses) (s\<lparr>srv_manager := m\<rparr>)"
    using server_inv_manager [OF inv live] by simp
  show ?thesis unfolding s' using live by (intro server_inv_loop [OF with_m, of i LoopRecovering]) simp_all
next
  case (WaitOver i)
  then show ?thesis
    using step server_inv_loop [OF inv, of i LoopWaiting] by (auto simp: wait_over_def split: if_splits)
next
  case (CleanupDone q)
  then show ?thesis using cleanup_done_inv [OF inv] step by simp
qed

lemma server_reachable_inv: "server_reachable hc addresses runOnce s \<Longrightarrow> server_inv (length addresses) s"
  by (induction rule: server_reachable.induct) (auto intro: new_server_inv server_step_inv)

fun server_events :: "'c helper_ops \<Rightarrow> string list \<Rightarrow> bool \<Rightarrow> server_event list \<Rightarrow> 'c server \<Rightarrow> 'c server option" where
  "server_events hc addresses runOnce [] s = Some s"
| "server_events hc addresses runOnce (ev # es) s =
     (case server_step hc addresses runOnce ev s of None \<Rightarrow> None | Some s \<Rightarrow> server_events hc addresses runOnce es s)"

lemma server_events_reachable:
  "\<lbrakk>server_reachable hc addresses runOnce s; server_events hc addresses runOnce es s = Some s'\<rbrakk> \<Longrightarrow>
   server_reachable hc addresses runOnce s'"
  by (induction es arbitrary: s) (auto intro: server_reachable.step split: option.splits)

subsection \<open>A stop ends the run\<close>

text \<open>The turns of the phases and of the loops; publications and further stops are none.\<close>

fun is_turn :: "server_event \<Rightarrow> bool" where
  "is_turn StopRequested = False"
| "is_turn (LoopPublishes i pub dev parsed) = False"
| "is_turn _ = True"

text \<open>How many turns are left once a stop is requested.\<close>

fun loop_turns :: "loop_state \<Rightarrow> nat" where
  "loop_turns LoopPolling = 1"
| "loop_turns LoopWaiting = 1"
| "loop_turns LoopRecovering = 2"
| "loop_turns (LoopOver r) = 0"

fun phase_turns :: "run_phase \<Rightarrow> nat" where
  "phase_turns Connecting = 3"
| "phase_turns Retrying = 2"
| "phase_turns (RunOver r) = 0"
| "phase_turns _ = 1"

definition turns_left :: "'c server \<Rightarrow> nat" where
  "turns_left s = sum_list (map loop_turns (srv_loops s)) + phase_turns (srv_phase s)"

lemma sum_over: "list_all loop_over ls \<Longrightarrow> sum_list (map loop_turns ls) = 0"
proof (induction ls)
  case (Cons l ls)
  then show ?case by (cases l) auto
qed simp

lemma set_loop_simps [simp]:
  "srv_queue (set_loop i st s) = srv_queue s" "srv_loops (set_loop i st s) = (srv_loops s)[i := st]"
  by (simp_all add: set_loop_def all_returned_def Let_def split: loop_state.split sum.split)

lemma set_loop_phase:
  "srv_phase (set_loop i st s) = srv_phase s \<or> srv_phase s = LoopsRunning \<and> (\<exists>r. srv_phase (set_loop i st s) = CleaningUp r)"
  by (auto simp: set_loop_def all_returned_def Let_def split: loop_state.splits sum.splits if_splits)

lemma set_loop_turns:
  assumes "js_get (srv_loops s) i = Some st0" and "loop_turns st < loop_turns st0"
  shows "turns_left (set_loop i st s) < turns_left s"
proof -
  have i: "i < length (srv_loops s)" "srv_loops s ! i = st0" using assms(1) by (auto simp: js_get_def split: if_splits)
  then have "loop_turns st0 \<le> sum_list (map loop_turns (srv_loops s))"
    using member_le_sum_list [of "loop_turns st0" "map loop_turns (srv_loops s)"] by force
  then have "sum_list (map loop_turns ((srv_loops s)[i := st])) < sum_list (map loop_turns (srv_loops s))"
    using i assms(2) by (simp add: map_update sum_list_update)
  then show ?thesis using set_loop_phase [of i st s] by (auto simp: turns_left_def)
qed

lemma stopped_turn:
  assumes inv: "server_inv (length addresses) s" and stop: "stop_flag s" and phase: "srv_phase s \<noteq> BridgeStarting"
    and step: "server_step hc addresses runOnce ev s = Some s'"
  shows "stop_flag s' \<and> srv_phase s' \<noteq> BridgeStarting \<and>
    (if is_turn ev then turns_left s' < turns_left s else turns_left s' = turns_left s)"
proof -
  have loop: "stop_flag (set_loop i st s0) \<and> srv_phase (set_loop i st s0) \<noteq> BridgeStarting \<and>
      turns_left (set_loop i st s0) < turns_left s"
    if "js_get (srv_loops s) i = Some st0" "loop_turns st < loop_turns st0" "s0 = s\<lparr>srv_manager := m\<rparr>" for i st st0 s0 m
    using that set_loop_turns [of s0 i st0 st] set_loop_phase [of i st s0] stop phase
    by (auto simp: stop_flag_def turns_left_def)
  have same: "s = s\<lparr>srv_manager := srv_manager s\<rparr>" by simp
  have over: "guarded s st = LoopOver (Inr ())" for st using stop by (simp add: guarded_def)
  show ?thesis
  proof (cases ev)
    case (IterationEnds i out)
    then show ?thesis
      using step loop [OF _ _ same, of i LoopPolling]
      by (auto simp: iteration_ends_def over split: if_splits iteration.splits)
  next
    case (ReconnectSettled i)
    then show ?thesis
      using step loop [OF _ _ refl, of i LoopRecovering]
      by (auto simp: reconnect_settled_def over split: if_splits prod.splits sum.splits)
  next
    case (WaitOver i)
    then show ?thesis
      using step loop [OF _ _ same, of i LoopWaiting] by (auto simp: wait_over_def over split: if_splits)
  next
    case (ConnectSettled r)
    have "srv_loops s = []" if "srv_phase s = Connecting" using inv that by (simp add: server_inv_def)
    then show ?thesis
      using step ConnectSettled stop over
      by (auto simp: connect_settled_def all_returned_def turns_left_def stop_flag_def guarded_def Let_def
          list_all_iff sum_list_replicate split: if_splits prod.splits sum.splits)
  next
    case (CleanupDone q)
    then show ?thesis
      using step stop
      by (auto simp: cleanup_done_def server_cleanup_def warn_failure_def turns_left_def stop_flag_def Let_def
          split: run_phase.splits prod.splits sum.splits)
  qed (use step stop phase in \<open>auto simp: server_stop_def queue_stop_def bridge_settled_def retry_elapsed_def
        loop_publishes_def turns_left_def stop_flag_def Let_def split: if_splits\<close>)
qed

lemma live_loop_turn:
  assumes "js_get (srv_loops s) i = Some st" and "\<not> loop_over st"
  shows "\<exists>ev. is_turn ev \<and> server_step hc addresses runOnce ev s \<noteq> None"
proof (cases st)
  case LoopPolling
  then show ?thesis using assms(1) by (intro exI [of _ "IterationEnds i Completed"]) (simp add: iteration_ends_def)
next
  case LoopRecovering
  then show ?thesis
    using assms(1) by (intro exI [of _ "ReconnectSettled i"]) (simp add: reconnect_settled_def split: prod.split)
next
  case LoopWaiting
  then show ?thesis using assms(1) by (intro exI [of _ "WaitOver i"]) (simp add: wait_over_def)
qed (use assms in simp)

text \<open>Whoever waits for a turn gets one: \<open>run\<close> is never stuck.\<close>

lemma run_not_stuck:
  assumes inv: "server_inv n s" and stuck: "\<forall>ev. is_turn ev \<longrightarrow> server_step hc addresses runOnce ev s = None"
  shows "\<exists>r. srv_phase s = RunOver r \<and> list_all loop_over (srv_loops s)"
proof -
  have over: "list_all loop_over (srv_loops s)"
    unfolding list_all_length
  proof (intro allI impI)
    fix i
    assume "i < length (srv_loops s)"
    then have i: "js_get (srv_loops s) i = Some (srv_loops s ! i)" by (simp add: js_get_def)
    show "loop_over (srv_loops s ! i)"
    proof (rule ccontr)
      assume "\<not> loop_over (srv_loops s ! i)"
      from live_loop_turn [OF i this] obtain ev where "is_turn ev" "server_step hc addresses runOnce ev s \<noteq> None" by blast
      with stuck show False by simp
    qed
  qed
  show ?thesis
  proof (cases "srv_phase s")
    case BridgeStarting
    let ?q = "\<lparr>on_connect = Inr (), on_subscribe = Inr (), on_listen = Inr (), on_off = Inr (), on_end = Inr ()\<rparr>"
    have "bridge_settled ?q s \<noteq> None"
      using BridgeStarting inv startup_outcome [OF fresh_bridge(1-3) refl refl, of ?q]
      by (auto simp: bridge_settled_def server_inv_def Let_def)
    then show ?thesis using stuck [THEN spec, of "BridgeSettled ?q"] by simp
  next
    case Connecting
    then show ?thesis
      using stuck [THEN spec, of "ConnectSettled (Inr ())"]
      by (auto simp: connect_settled_def Let_def split: prod.splits sum.splits)
  next
    case Retrying
    then show ?thesis using stuck [THEN spec, of RetryElapsed] by (simp add: retry_elapsed_def)
  next
    case LoopsRunning
    then show ?thesis using inv over by (simp add: server_inv_def)
  next
    case (CleaningUp r)
    then show ?thesis using stuck [THEN spec, of "CleanupDone q" for q] by (simp add: cleanup_done_def)
  qed (simp add: over)
qed

lemma stopped_events:
  assumes "server_inv (length addresses) s" and "stop_flag s" and "srv_phase s \<noteq> BridgeStarting"
    and "server_events hc addresses runOnce es s = Some s'"
  shows "length (filter is_turn es) + turns_left s' \<le> turns_left s \<and> server_inv (length addresses) s'"
  using assms
proof (induction es arbitrary: s)
  case (Cons ev es)
  from Cons.prems(4) obtain v where v: "server_step hc addresses runOnce ev s = Some v"
      "server_events hc addresses runOnce es v = Some s'"
    by (auto split: option.splits)
  note turn = stopped_turn [OF Cons.prems(1-3) v(1)]
  have "length (filter is_turn es) + turns_left s' \<le> turns_left v \<and> server_inv (length addresses) s'"
    using turn by (intro Cons.IH [OF server_step_inv [OF Cons.prems(1) v(1)] _ _ v(2)]) auto
  then show ?case using turn by (cases "is_turn ev") auto
qed simp

lemma turns_bound:
  assumes "server_inv n s"
  shows "turns_left s \<le> 2 * length (srv_loops s) + 3"
proof -
  have "sum_list (map loop_turns ls) \<le> 2 * length ls" for ls
  proof (induction ls)
    case (Cons l ls)
    then show ?case by (cases l) auto
  qed simp
  moreover have "phase_turns p \<le> 3" for p by (cases p) auto
  ultimately show ?thesis by (simp add: turns_left_def add_mono)
qed

lemma loops_bound: "server_inv n s \<Longrightarrow> length (srv_loops s) \<le> n"
  by (cases "srv_phase s") (auto simp: server_inv_def loops_settled_def split: sum.splits)

text \<open>
  C18: a stop ends the run: once polling has begun and a stop is requested, at most two turns per
  loop and three of \<open>run\<close> itself remain, whatever their order and outcomes, and as long as one
  remains some event can happen; when none can, \<open>run\<close> has returned and every loop is over.
\<close>

theorem stop_ends_run:
  assumes "server_reachable hc addresses runOnce s" and "stop_flag s" and "srv_phase s \<noteq> BridgeStarting"
    and "server_events hc addresses runOnce es s = Some s'"
  shows "length (filter is_turn es) \<le> 2 * length addresses + 3 \<and>
    ((\<exists>ev. is_turn ev \<and> server_step hc addresses runOnce ev s' \<noteq> None) \<or>
     (\<exists>r. srv_phase s' = RunOver r) \<and> list_all loop_over (srv_loops s'))"
proof -
  note inv = server_reachable_inv [OF assms(1)]
  note run = stopped_events [OF inv assms(2-4)]
  have "length (filter is_turn es) \<le> 2 * length addresses + 3"
    using run turns_bound [OF inv] loops_bound [OF inv] by linarith
  then show ?thesis using run_not_stuck [of "length addresses" s' hc addresses runOnce] run by blast
qed

definition quiet_broker :: mqtt_outcomes where
  "quiet_broker = \<lparr>on_connect = Inr (), on_subscribe = Inr (), on_listen = Inr (), on_off = Inr (), on_end = Inr ()\<rparr>"

text \<open>Two devices are polled, then a stop comes; one loop sleeps, the other has lost its device.\<close>

lemma stopped_example:
  "map_option (\<lambda>s. (stop_flag s, srv_phase s, srv_loops s))
     (server_events willing_helper [''AA'', ''BB''] False
       [BridgeSettled quiet_broker, ConnectSettled (Inr ()), IterationEnds 1 Lost, StopRequested] (new_BluettiMqttServer ())) =
   Some (True, LoopsRunning, [LoopPolling, LoopRecovering])"
  by code_simp

theorem stop_ends_run_witness:
  "\<exists>s. server_events willing_helper [''AA'', ''BB''] False
       [BridgeSettled quiet_broker, ConnectSettled (Inr ()), IterationEnds 1 Lost, StopRequested] (new_BluettiMqttServer ()) =
     Some s \<and>
   (\<forall>es s'. server_events willing_helper [''AA'', ''BB''] False es s = Some s' \<longrightarrow> length (filter is_turn es) \<le> 7)"
proof -
  obtain s where run: "server_events willing_helper [''AA'', ''BB''] False
      [BridgeSettled quiet_broker, ConnectSettled (Inr ()), IterationEnds 1 Lost, StopRequested] (new_BluettiMqttServer ()) =
      Some s" and s: "stop_flag s" "srv_phase s = LoopsRunning"
    using stopped_example by (auto simp: map_option_case split: option.splits)
  show ?thesis
    using run stop_ends_run [OF server_events_reachable [OF server_reachable.constructed run] s(1)] s(2)
    by (intro exI [of _ s]) auto
qed

subsection \<open>What is left when the run is over\<close>

text \<open>
  When \<open>run\<close> is over, the bridge has no client, no connection and no listener, and, unless it
  failed with several devices, no session and no connection of the helper is left, however the
  parts failed, and no event can change that.
\<close>

theorem server_releases_everything:
  assumes "server_reachable hc addresses runOnce s" and "srv_phase s = RunOver r"
    and "r = Inr () \<or> length addresses \<le> 1"
  shows "sessions (srv_manager s) = [] \<and> \<not> helper_opened (env (srv_manager s)) h \<and>
    Bridge.idle new_EventBus (srv_bridge s) \<and> list_all loop_over (srv_loops s)"
proof -
  note inv = server_reachable_inv [OF assms(1)]
  have one: "list_all loop_over ls" if "LoopOver e \<in> set ls" "length ls \<le> 1" for ls e
    using that by (cases ls) auto
  have "sessions (srv_manager s) = []" "list_all loop_over (srv_loops s)"
    using inv assms(2,3) one by (auto simp: server_inv_def loops_settled_def split: sum.splits)
  then show ?thesis using inv assms(2) by (auto simp: server_inv_def manager_inv_def session_handles_def)
qed

text \<open>
  With two devices: one loop throws while the other reconnects. \<open>run\<close> rejects and cleans up, the
  other loop goes on: it opens a connection that nobody closes.
\<close>

lemma straggler_reopens:
  "map_option (\<lambda>s. (srv_phase s, srv_loops s, map fst (sessions (srv_manager s)), helper_opened (env (srv_manager s)) 2))
     (server_events willing_helper [''AA'', ''BB''] False
       [BridgeSettled quiet_broker, ConnectSettled (Inr ()), IterationEnds 1 Lost, IterationEnds 0 (Threw (PlainError ''x'')),
        CleanupDone quiet_broker, ReconnectSettled 1] (new_BluettiMqttServer ())) =
   Some (RunOver (Inl (PlainError ''x'')), [LoopOver (Inl (PlainError ''x'')), LoopPolling], [''BB''], True)"
  by code_simp

end
