(* ===== verification/LoopRefinement.thy ===== *)
theory LoopRefinement
  imports Server
begin

text \<open>
  The polling loop of theory \<open>Handler\<close>, with everything it reads and counts, refines the loop of
  theory \<open>Server\<close>, which only knows where it is suspended. The abstract loop is a state machine
  whose turns are the server's events of one loop (\<open>server_loop_turn\<close>); a run of \<open>poll_loop\<close> is a
  path of it that sees the stop flag of the surroundings, publishes exactly what the log of the run
  says, and whose reconnects have the logged outcomes.
\<close>

subsection \<open>The turns of a loop\<close>

datatype loop_turn =
    PublishTurn parsed_field_map
  | IterationTurn iteration
  | ReconnectTurn "unit result"
  | WaitTurn

definition gate :: "bool \<Rightarrow> loop_state \<Rightarrow> loop_state" where
  "gate stop st = (if stop then LoopOver (Inr ()) else st)"

fun loop_moves :: "bool \<Rightarrow> bool \<Rightarrow> loop_turn \<Rightarrow> loop_state \<Rightarrow> loop_state option" where
  "loop_moves once stop (PublishTurn parsed) LoopPolling = Some LoopPolling"
| "loop_moves once stop (IterationTurn Slept) LoopPolling = Some (gate stop LoopPolling)"
| "loop_moves once stop (IterationTurn Completed) LoopPolling =
     Some (if once then LoopOver (Inr ()) else gate stop LoopPolling)"
| "loop_moves once stop (IterationTurn Lost) LoopPolling =
     Some (if once then LoopOver (Inr ()) else gate stop LoopRecovering)"
| "loop_moves once stop (IterationTurn (Threw e)) LoopPolling = Some (LoopOver (Inl e))"
| "loop_moves once stop (ReconnectTurn r) LoopRecovering =
     Some (case r of Inr _ \<Rightarrow> gate stop LoopPolling | Inl e \<Rightarrow> LoopWaiting)"
| "loop_moves once stop WaitTurn LoopWaiting = Some (gate stop LoopRecovering)"
| "loop_moves once stop _ _ = None"

text \<open>A path: every turn with the position in the log at which the stop flag was read.\<close>

fun loop_path :: "bool \<Rightarrow> (nat \<Rightarrow> bool) \<Rightarrow> (nat \<times> loop_turn) list \<Rightarrow> loop_state \<Rightarrow> loop_state option" where
  "loop_path once stop [] st = Some st"
| "loop_path once stop ((n, t) # ts) st =
     (case loop_moves once (stop n) t st of None \<Rightarrow> None | Some st \<Rightarrow> loop_path once stop ts st)"

lemma loop_path_append:
  "loop_path once stop (ts @ us) st =
     (case loop_path once stop ts st of None \<Rightarrow> None | Some st' \<Rightarrow> loop_path once stop us st')"
  by (induction once stop ts st rule: loop_path.induct) (simp_all split: option.split)

subsection \<open>The server's loops take these turns\<close>

fun turn_event :: "nat \<Rightarrow> (nat \<Rightarrow> unit result) \<Rightarrow> bluetti_device \<Rightarrow> loop_turn \<Rightarrow> server_event" where
  "turn_event i pub dev (PublishTurn parsed) = LoopPublishes i pub dev parsed"
| "turn_event i pub dev (IterationTurn out) = IterationEnds i out"
| "turn_event i pub dev (ReconnectTurn r) = ReconnectSettled i"
| "turn_event i pub dev WaitTurn = WaitOver i"

text \<open>The outcome of a reconnect is the manager's.\<close>

fun turn_answered :: "'c helper_ops \<Rightarrow> string list \<Rightarrow> nat \<Rightarrow> loop_turn \<Rightarrow> 'c server \<Rightarrow> bool" where
  "turn_answered hc addresses i (ReconnectTurn r) s =
     (r = fst (reconnect (helper_transport_ops hc) helper_create (addresses ! i) (srv_manager s)))"
| "turn_answered hc addresses i _ s = True"

lemma server_loop_turn:
  assumes "js_get (srv_loops s) i = Some st" and "turn_answered hc addresses i t s"
  shows "map_option (\<lambda>s'. js_get (srv_loops s') i) (server_step hc addresses once (turn_event i pub dev t) s) =
     map_option Some (loop_moves once (stop_flag s) t st)"
proof -
  have i: "i < length (srv_loops s)" "srv_loops s ! i = st" using assms(1) by (auto simp: js_get_def split: if_splits)
  show ?thesis
  proof (cases t)
    case (PublishTurn parsed)
    then show ?thesis using assms(1) by (cases st) (simp_all add: loop_publishes_def)
  next
    case (IterationTurn out)
    then show ?thesis
      using assms(1) i by (cases st; cases out) (simp_all add: iteration_ends_def guarded_def gate_def js_get_def)
  next
    case (ReconnectTurn r)
    obtain r0 m where "reconnect (helper_transport_ops hc) helper_create (addresses ! i) (srv_manager s) = (r0, m)"
      by fastforce
    then show ?thesis
      using ReconnectTurn assms i
      by (cases st; cases r0) (simp_all add: reconnect_settled_def guarded_def gate_def js_get_def)
  next
    case WaitTurn
    then show ?thesis
      using assms(1) i by (cases st) (simp_all add: wait_over_def guarded_def gate_def js_get_def)
  qed
qed

lemma server_loop_turn_flag:
  "server_step hc addresses once (turn_event i pub dev t) s = Some s' \<Longrightarrow> stop_flag s' = stop_flag s"
  by (cases t) (auto simp: loop_publishes_def iteration_ends_def reconnect_settled_def wait_over_def stop_flag_def
      split: if_splits prod.splits)

text \<open>
  A path as a run of the server in which the others are at rest: the stop is requested before the
  turn that sees it.
\<close>

definition stop_seen :: "bool \<Rightarrow> 'c server \<Rightarrow> 'c server" where
  "stop_seen stop s = (if stop then server_stop s else s)"

fun loop_in_server ::
  "'c helper_ops \<Rightarrow> string list \<Rightarrow> bool \<Rightarrow> nat \<Rightarrow> (nat \<Rightarrow> unit result) \<Rightarrow> bluetti_device \<Rightarrow> (nat \<Rightarrow> bool) \<Rightarrow>
     (nat \<times> loop_turn) list \<Rightarrow> 'c server \<Rightarrow> 'c server option" where
  "loop_in_server hc addresses once i pub dev stop [] s = Some s"
| "loop_in_server hc addresses once i pub dev stop ((n, t) # ts) s =
     (case server_step hc addresses once (turn_event i pub dev t) (stop_seen (stop n) s) of
        None \<Rightarrow> None
      | Some s \<Rightarrow> loop_in_server hc addresses once i pub dev stop ts s)"

fun run_answered ::
  "'c helper_ops \<Rightarrow> string list \<Rightarrow> bool \<Rightarrow> nat \<Rightarrow> (nat \<Rightarrow> unit result) \<Rightarrow> bluetti_device \<Rightarrow> (nat \<Rightarrow> bool) \<Rightarrow>
     (nat \<times> loop_turn) list \<Rightarrow> 'c server \<Rightarrow> bool" where
  "run_answered hc addresses once i pub dev stop [] s = True"
| "run_answered hc addresses once i pub dev stop ((n, t) # ts) s =
     (turn_answered hc addresses i t (stop_seen (stop n) s) \<and>
      (case server_step hc addresses once (turn_event i pub dev t) (stop_seen (stop n) s) of
         None \<Rightarrow> True
       | Some s \<Rightarrow> run_answered hc addresses once i pub dev stop ts s))"

lemma stop_seen_simps [simp]:
  "srv_loops (stop_seen stop s) = srv_loops s" "stop_flag (stop_seen stop s) = (stop \<or> stop_flag s)"
  by (simp_all add: stop_seen_def server_stop_def stop_flag_def queue_stop_def)

definition monotone_flag :: "(nat \<Rightarrow> bool) \<Rightarrow> bool" where
  "monotone_flag stop \<longleftrightarrow> (\<forall>m n. m \<le> n \<longrightarrow> stop m \<longrightarrow> stop n)"

lemma path_in_server:
  "\<lbrakk>loop_path once stop ts st = Some st'; monotone_flag stop; sorted (map fst ts); \<forall>n \<in> fst ` set ts. lo \<le> n;
    stop_flag s \<longrightarrow> stop lo; js_get (srv_loops s) i = Some st;
    run_answered hc addresses once i pub dev stop ts s\<rbrakk> \<Longrightarrow>
   \<exists>s'. loop_in_server hc addresses once i pub dev stop ts s = Some s' \<and> js_get (srv_loops s') i = Some st'"
proof (induction ts arbitrary: s st lo)
  case (Cons x ts)
  obtain n t where x: "x = (n, t)" by (cases x)
  obtain st1 where st1: "loop_moves once (stop n) t st = Some st1" "loop_path once stop ts st1 = Some st'"
    using Cons.prems(1) by (auto simp: x split: option.splits)
  let ?s = "stop_seen (stop n) s"
  have flag: "stop_flag ?s = stop n"
    using Cons.prems(2,4,5) by (auto simp: x monotone_flag_def)
  have "map_option (\<lambda>s'. js_get (srv_loops s') i) (server_step hc addresses once (turn_event i pub dev t) ?s) = Some (Some st1)"
    using server_loop_turn [of ?s i st hc addresses t once pub dev] Cons.prems(6,7) st1(1) flag by (simp add: x)
  then obtain s1 where s1: "server_step hc addresses once (turn_event i pub dev t) ?s = Some s1" "js_get (srv_loops s1) i = Some st1"
    by auto
  have "stop_flag s1 = stop n" using server_loop_turn_flag [OF s1(1)] flag by simp
  then show ?case
    using Cons.IH [OF st1(2) Cons.prems(2) _ _ _ s1(2), of n] Cons.prems(3,7) s1(1) by (auto simp: x)
qed simp

subsection \<open>The log of a run\<close>

text \<open>The turns a log shows, from position \<open>n\<close> on; the others leave no trace of their own.\<close>

fun logged_turn :: "surroundings \<Rightarrow> nat \<Rightarrow> effect \<Rightarrow> loop_turn list" where
  "logged_turn w n (DoPublish parsed) = [PublishTurn parsed]"
| "logged_turn w n (DoReconnect address) = [ReconnectTurn (o_reconnect w n)]"
| "logged_turn w n _ = []"

fun logged_turns :: "surroundings \<Rightarrow> nat \<Rightarrow> effect list \<Rightarrow> loop_turn list" where
  "logged_turns w n [] = []"
| "logged_turns w n (x # xs) = logged_turn w n x @ logged_turns w (Suc n) xs"

fun shown :: "loop_turn \<Rightarrow> bool" where
  "shown (PublishTurn parsed) = True"
| "shown (ReconnectTurn r) = True"
| "shown _ = False"

definition logged :: "surroundings \<Rightarrow> run_state \<Rightarrow> run_state \<Rightarrow> loop_turn list" where
  "logged w s s' = logged_turns w (tick s) (drop (tick s) (effects s'))"

lemma logged_turns_append:
  "logged_turns w n (xs @ ys) = logged_turns w n xs @ logged_turns w (n + length xs) ys"
  by (induction xs arbitrary: n) simp_all

lemma logged_extends: "effects s' = effects s @ es \<Longrightarrow> logged w s s' = logged_turns w (tick s) es"
  by (simp add: logged_def tick_def)

lemma logged_trans: "\<lbrakk>grows s s1; grows s1 s2\<rbrakk> \<Longrightarrow> logged w s s2 = logged w s s1 @ logged w s1 s2"
  by (auto simp: grows_def logged_def tick_def logged_turns_append)

text \<open>Reads do not reconnect; what is quiet does not publish either.\<close>

fun is_reconnect :: "effect \<Rightarrow> bool" where
  "is_reconnect (DoReconnect a) = True"
| "is_reconnect _ = False"

fun is_publish :: "effect \<Rightarrow> bool" where
  "is_publish (DoPublish p) = True"
| "is_publish _ = False"

definition reconnects :: "run_state \<Rightarrow> nat" where
  "reconnects s = length (filter is_reconnect (effects s))"

definition publications :: "run_state \<Rightarrow> nat" where
  "publications s = length (filter is_publish (effects s))"

lemmas counts = reconnects_def publications_def

definition reads_only :: "run_state \<Rightarrow> run_state \<Rightarrow> bool" where
  "reads_only s s' \<longleftrightarrow> grows s s' \<and> reconnects s' = reconnects s"

definition quiet :: "run_state \<Rightarrow> run_state \<Rightarrow> bool" where
  "quiet s s' \<longleftrightarrow> reads_only s s' \<and> publications s' = publications s"

interpretation reads: kept_by_reads reconnects
  by unfold_locales (auto simp: reconnects_def elim: is_read_effect.elims)

lemma reads_only_effects: "reads_only s s' \<Longrightarrow> \<exists>es. effects s' = effects s @ es \<and> list_all (\<lambda>x. \<not> is_reconnect x) es"
  by (auto simp: reads_only_def grows_def reconnects_def filter_empty_conv list_all_iff)

lemma quiet_effects:
  "quiet s s' \<Longrightarrow> \<exists>es. effects s' = effects s @ es \<and> list_all (\<lambda>x. \<not> is_reconnect x \<and> \<not> is_publish x) es"
  by (auto simp: quiet_def reads_only_def grows_def counts filter_empty_conv list_all_iff)

lemma logged_turn_none: "\<not> is_reconnect x \<Longrightarrow> \<not> is_publish x \<Longrightarrow> logged_turn w n x = []"
  by (cases x) simp_all

lemma quiet_logged: "quiet s s' \<Longrightarrow> logged w s s' = []"
proof -
  have "logged_turns w n es = []" if "list_all (\<lambda>x. \<not> is_reconnect x \<and> \<not> is_publish x) es" for n es
    using that by (induction w n es rule: logged_turns.induct) (simp_all add: logged_turn_none)
  then show "quiet s s' \<Longrightarrow> logged w s s' = []" by (auto dest!: quiet_effects simp: logged_extends)
qed

lemma quiet_trans: "quiet s s1 \<Longrightarrow> quiet s1 s2 \<Longrightarrow> quiet s s2"
  by (auto simp: quiet_def reads_only_def intro: grows_trans)

lemma reads_quiet: "reads_only s s1 \<Longrightarrow> quiet s1 s2 \<Longrightarrow> reads_only s s2"
  by (auto simp: quiet_def reads_only_def intro: grows_trans)

lemma quiet_refl [simp]: "quiet s s"
  by (simp add: quiet_def reads_only_def)

subsection \<open>What the parts of an iteration log\<close>

lemma begin_quiet: "quiet s (begin_cycle full t (emit DoClock s))"
  by (simp add: quiet_def reads_only_def counts grows_def)

lemma set_reads: "runCommandSet w a dev cs ps s = (r, s') \<Longrightarrow> reads_only s s'"
  by (simp add: reads_only_def grows_set reads.set_kept)

lemma packs_reads: "runPackCommands w a dev ps s = (r, s') \<Longrightarrow> reads_only s s'"
  by (simp add: reads_only_def grows_packs reads.packs_kept)

lemma reads_trans: "reads_only s s1 \<Longrightarrow> reads_only s1 s2 \<Longrightarrow> reads_only s s2"
  by (auto simp: reads_only_def intro: grows_trans)

lemma busy_backoff_quiets: "busy_backoff w cfg phase ps s = (ps', s') \<Longrightarrow> quiet s s'"
  using busy_backoff_grows [of w cfg phase ps s ps' s']
  by (auto simp: quiet_def reads_only_def counts busy_backoff_def read_clock_def Let_def maybeLogBusyWarning_def)

lemma complete_cycle_quiets: "complete_cycle w cfg full t ps s = Some (r, ps', s') \<Longrightarrow> quiet s s'"
  using complete_cycle_grows [of w cfg full t ps s r ps' s']
  by (auto simp: quiet_def reads_only_def counts complete_cycle_def read_clock_def Let_def maybeLogTelemetrySummary_def)

subsection \<open>Runs as paths\<close>

definition loop_run ::
  "bool \<Rightarrow> surroundings \<Rightarrow> run_state \<Rightarrow> loop_state \<Rightarrow> (nat \<times> loop_turn) list \<Rightarrow> run_state \<Rightarrow> loop_state \<Rightarrow> bool" where
  "loop_run once w s st ts s' st' \<longleftrightarrow> grows s s' \<and> loop_path once (o_stop w) ts st = Some st' \<and>
     sorted (map fst ts) \<and> (\<forall>n \<in> fst ` set ts. tick s \<le> n \<and> n \<le> tick s') \<and>
     filter shown (map snd ts) = logged w s s'"

lemma loop_run_trans:
  assumes "loop_run once w s st ts s1 st1" and "loop_run once w s1 st1 us s2 st2"
  shows "loop_run once w s st (ts @ us) s2 st2"
  using assms grows_trans [of s s1 s2] grows_tick [of s s1] grows_tick [of s1 s2] logged_trans [of s s1 s2 w]
  unfolding loop_run_def by (fastforce simp: loop_path_append sorted_append)

text \<open>One turn that shows nothing, at the end of a quiet piece.\<close>

lemma quiet_turn:
  assumes "quiet s s'" and "loop_moves once (stop_requested w s') t st = Some st'" and "\<not> shown t"
  shows "loop_run once w s st [(tick s', t)] s' st'"
  using assms grows_tick [of s s']
  by (simp add: loop_run_def quiet_logged stop_requested_def) (simp add: quiet_def reads_only_def)

lemma logged_turn_publish: "\<not> is_reconnect x \<Longrightarrow> list_all (\<lambda>t. \<exists>p. t = PublishTurn p) (logged_turn w n x)"
  by (cases x) simp_all

lemma reads_run:
  assumes "reads_only s s'"
  shows "\<exists>ts. loop_run once w s LoopPolling ts s' LoopPolling"
proof -
  obtain es where es: "effects s' = effects s @ es" "list_all (\<lambda>x. \<not> is_reconnect x) es"
    using reads_only_effects [OF assms] by blast
  have pubs: "list_all (\<lambda>t. \<exists>p. t = PublishTurn p) (logged_turns w n es)" for n
    using es(2) by (induction w n es rule: logged_turns.induct) (simp_all add: logged_turn_publish)
  have path: "loop_path once stop (map (Pair n) us) LoopPolling = Some LoopPolling" "filter shown us = us"
      "sorted (map fst (map (Pair n) us))"
    if "list_all (\<lambda>t. \<exists>p. t = PublishTurn p) us" for stop n us
    using that by (induction us) auto
  let ?us = "logged_turns w (tick s) es"
  have "loop_run once w s LoopPolling (map (Pair (tick s')) ?us) s' LoopPolling"
    using path [OF pubs] grows_tick [of s s'] assms logged_extends [OF es(1)]
    by (auto simp: loop_run_def reads_only_def comp_def)
  then show ?thesis by blast
qed

text \<open>
  Reconnecting, up to any later quiet state: the stop flag that counts after the reconnect is the
  one the loop reads next.
\<close>

lemma reconnect_run:
  assumes "reconnect_loop fuel w a s = Some (b, s1)" and "if b then quiet s1 s' else s' = s1"
  shows "\<exists>ts. loop_run once w s (gate (stop_requested w s) LoopRecovering) ts s'
    (if b then gate (stop_requested w s') LoopPolling else LoopOver (Inr ()))"
  using assms(1)
proof (induction fuel arbitrary: s)
  case (Suc fuel)
  show ?case
  proof (cases "stop_requested w s")
    case True
    then have "b = False" "s' = s" using Suc.prems assms(2) by simp_all
    then have "loop_run once w s (gate (stop_requested w s) LoopRecovering) [] s' (LoopOver (Inr ()))"
      using True by (simp add: loop_run_def gate_def quiet_logged)
    then show ?thesis using \<open>b = False\<close> by auto
  next
    case going: False
    let ?r = "emit (DoReconnect a) s"
    have tried: "logged w s ?r = [ReconnectTurn (o_reconnect w (tick s))]" "grows s ?r"
      by (simp_all add: logged_extends [of ?r s "[DoReconnect a]"] grows_def)
    show ?thesis
    proof (cases "o_reconnect w (tick s)")
      case (Inr u)
      then have b: "b = True" and s1: "s1 = emit (DoLog ''Bluetooth connection recovered'') ?r"
        using going Suc.prems by (simp_all add: perform_reconnect_def)
      have "quiet ?r s1" by (simp add: s1 quiet_def reads_only_def counts grows_def)
      then have q: "quiet ?r s'" using assms(2) b quiet_trans by simp
      then have "grows ?r s'" by (simp add: quiet_def reads_only_def)
      then have "loop_run once w s LoopRecovering [(tick s', ReconnectTurn (Inr u))] s' (gate (stop_requested w s') LoopPolling)"
        using tried Inr logged_trans [OF tried(2), of s' w] quiet_logged [OF q, of w] grows_trans [OF tried(2)]
          grows_tick [of s s']
        by (simp add: loop_run_def stop_requested_def)
      then show ?thesis using b going by (auto simp: gate_def)
    next
      case (Inl e)
      let ?s2 = "do_sleep STARTUP_RETRY_DELAY_MS (emit (DoLog ''Bluetooth reconnect failed; retrying'') ?r)"
      have q: "quiet ?r ?s2" by (simp add: do_sleep_def quiet_def reads_only_def counts grows_def)
      have "loop_run once w s (gate (stop_requested w s) LoopRecovering) [(tick s, ReconnectTurn (Inl e))] ?r LoopWaiting"
        using tried Inl going by (simp add: loop_run_def gate_def)
      moreover have "loop_run once w ?r LoopWaiting [(tick ?s2, WaitTurn)] ?s2 (gate (stop_requested w ?s2) LoopRecovering)"
        by (rule quiet_turn [OF q]) simp_all
      moreover obtain ts where "loop_run once w ?s2 (gate (stop_requested w ?s2) LoopRecovering) ts s'
          (if b then gate (stop_requested w s') LoopPolling else LoopOver (Inr ()))"
        using Suc.IH [of ?s2] Suc.prems going Inl by (auto simp: perform_reconnect_def)
      ultimately show ?thesis by (meson loop_run_trans)
    qed
  qed
qed simp

fun after :: "surroundings \<Rightarrow> loop_next result \<Rightarrow> run_state \<Rightarrow> loop_state" where
  "after w (Inl e) s = LoopOver (Inl e)"
| "after w (Inr Break) s = LoopOver (Inr ())"
| "after w (Inr Continue) s = gate (stop_requested w s) LoopPolling"

lemma connection_lost_run:
  assumes "connection_lost fuel w cfg ps s = Some (x, ps', s')"
  shows "\<exists>ts. loop_run (cfg_runOnce cfg) w s LoopPolling ts s' (after w x s')"
proof (cases "cfg_runOnce cfg")
  case True
  then have "x = Inr Break" "s' = s" using assms by (simp_all add: connection_lost_def)
  moreover have "loop_run True w s LoopPolling [(tick s, IterationTurn Lost)] s (LoopOver (Inr ()))"
    by (rule quiet_turn) simp_all
  ultimately show ?thesis using True by auto
next
  case False
  let ?s1 = "emit (DoLog ''Bluetooth connection lost; reconnecting'') s"
  have "quiet s ?s1" by (simp add: quiet_def reads_only_def counts grows_def)
  then have lost: "loop_run False w s LoopPolling [(tick ?s1, IterationTurn Lost)] ?s1 (gate (stop_requested w ?s1) LoopRecovering)"
    by (rule quiet_turn) simp_all
  obtain b s2 where loop: "reconnect_loop fuel w (cfg_address cfg) ?s1 = Some (b, s2)"
    and ends: "x = Inr (if b then Continue else Break)" "s' = (if b then emit DoClock s2 else s2)"
    using assms False
    by (auto simp: connection_lost_def recoverDeviceConnection_def read_clock_def split: option.splits bool.splits)
  have "if b then quiet s2 s' else s' = s2" using ends(2) by (simp add: quiet_def reads_only_def counts grows_def)
  from reconnect_run [OF loop this] obtain ts where "loop_run False w ?s1 (gate (stop_requested w ?s1) LoopRecovering) ts s'
      (after w x s')"
    using ends(1) by (cases b) auto
  then show ?thesis using loop_run_trans [OF lost] False by auto
qed

lemma complete_cycle_run:
  assumes "complete_cycle w cfg full t ps s = Some (x, ps', s')"
  shows "\<exists>ts. loop_run (cfg_runOnce cfg) w s LoopPolling ts s' (after w x s')"
proof -
  have "x = Inr (if cfg_runOnce cfg \<or> stop_requested w s' then Break else Continue)"
    using assms by (auto simp: complete_cycle_def read_clock_def Let_def)
  then have "loop_run (cfg_runOnce cfg) w s LoopPolling [(tick s', IterationTurn Completed)] s' (after w x s')"
    by (intro quiet_turn [OF complete_cycle_quiets [OF assms]]) (simp_all add: gate_def)
  then show ?thesis by blast
qed

text \<open>What is read first, and what the outcome of the reads leads to.\<close>

lemma reads_then:
  assumes "reads_only s s1" and "\<exists>ts. loop_run once w s1 LoopPolling ts s' st'"
  shows "\<exists>ts. loop_run once w s LoopPolling ts s' st'"
  using reads_run [OF assms(1)] assms(2) loop_run_trans by meson

lemma thrown_run: "\<exists>ts. loop_run once w s LoopPolling ts s (after w (Inl e) s)"
  using quiet_turn [of s s once w "IterationTurn (Threw e)" LoopPolling] by auto

lemma run_cycle_run:
  assumes "run_cycle fuel w cfg full ps s = Some (x, ps', s')"
  shows "\<exists>ts. loop_run (cfg_runOnce cfg) w s LoopPolling ts s' (after w x s')"
proof -
  have first: "reads_only s s1"
    if "runCommandSet w (cfg_address cfg) (cfg_device cfg) (cycle_commands (cfg_device cfg) full) ps
         (begin_cycle full (o_clock w (tick s)) (emit DoClock s)) = (y, s1)" for y s1
    using begin_quiet [of s full] set_reads [OF that] reads_trans unfolding quiet_def by blast
  from assms show ?thesis
  proof (cases rule: run_cycle_cases)
    case (Thrown e s1)
    then show ?thesis using reads_then [OF first [OF Thrown(1)] thrown_run] by simp
  next
    case (Lost s1)
    then show ?thesis using reads_then [OF first [OF Lost(1)]] connection_lost_run [OF Lost(2) [symmetric]] by blast
  next
    case (PackThrown r s1 e s2)
    then show ?thesis
      using reads_then [OF reads_trans [OF first [OF PackThrown(2)] packs_reads [OF PackThrown(3)]] thrown_run] by simp
  next
    case (PackLost r s1 s2)
    then show ?thesis
      using reads_then [OF reads_trans [OF first [OF PackLost(2)] packs_reads [OF PackLost(3)]]]
        connection_lost_run [OF PackLost(4) [symmetric]] by blast
  next
    case (Backoff r s1 s2 phase ps3 s3)
    have "reads_only s s2" using first [OF Backoff(1)] Backoff(2) packs_reads reads_trans by blast
    then have "reads_only s s3" using busy_backoff_quiets [OF Backoff(3)] reads_quiet by blast
    then show ?thesis using reads_then complete_cycle_run [OF Backoff(4) [symmetric]] by blast
  next
    case (Recover r s1 s2)
    have "reads_only s s2" using first [OF Recover(1)] Recover(3) packs_reads reads_trans by blast
    then show ?thesis using reads_then complete_cycle_run [OF Recover(4) [symmetric]] by blast
  qed
qed

lemma poll_iteration_run:
  assumes "poll_iteration fuel w cfg ps s = Some (x, ps', s')"
  shows "\<exists>ts. loop_run (cfg_runOnce cfg) w s LoopPolling ts s' (after w x s')"
proof -
  have clock: "quiet s (emit DoClock s)" by (simp add: quiet_def reads_only_def counts grows_def)
  consider full where "run_cycle fuel w cfg full ps (emit DoClock s) = Some (x, ps', s')"
    | ms where "x = Inr Continue" "s' = do_sleep ms (emit DoClock s)"
    using assms by (auto simp: poll_iteration_def read_clock_def Let_def split: if_splits)
  then show ?thesis
  proof cases
    case 1
    then show ?thesis using reads_then [OF _ run_cycle_run] clock unfolding quiet_def by blast
  next
    case (2 ms)
    then have "quiet s s'" by (simp add: do_sleep_def quiet_def reads_only_def counts grows_def)
    from quiet_turn [OF this, of "cfg_runOnce cfg" w "IterationTurn Slept" LoopPolling]
    show ?thesis using 2(1) by auto
  qed
qed

lemma poll_loop_run:
  "poll_loop fuel w cfg ps s = Some (r, ps', s') \<Longrightarrow>
   \<exists>ts. loop_run (cfg_runOnce cfg) w s (gate (stop_requested w s) LoopPolling) ts s' (LoopOver r)"
proof (induction fuel arbitrary: ps s)
  case (Suc fuel)
  show ?case
  proof (cases "stop_requested w s")
    case True
    then have "loop_run (cfg_runOnce cfg) w s (gate (stop_requested w s) LoopPolling) [] s' (LoopOver r)"
      using Suc.prems by (simp add: loop_run_def gate_def quiet_logged)
    then show ?thesis by blast
  next
    case False
    then obtain x ps1 s1 where it: "poll_iteration fuel w cfg ps s = Some (x, ps1, s1)"
      using Suc.prems by (auto split: option.splits)
    obtain ts where ts: "loop_run (cfg_runOnce cfg) w s LoopPolling ts s1 (after w x s1)"
      using poll_iteration_run [OF it] by blast
    have "\<exists>us. loop_run (cfg_runOnce cfg) w s1 (after w x s1) us s' (LoopOver r)"
    proof (cases "x = Inr Continue")
      case True
      then show ?thesis using Suc.IH [of ps1 s1] Suc.prems it False by simp
    next
      case ended: False
      then have "after w x s1 = LoopOver r" "s' = s1"
        using Suc.prems it False by (auto split: sum.splits loop_next.splits)
      then have "loop_run (cfg_runOnce cfg) w s1 (after w x s1) [] s' (LoopOver r)"
        by (simp add: loop_run_def quiet_logged)
      then show ?thesis by blast
    qed
    then show ?thesis using loop_run_trans [OF ts] False by (auto simp: gate_def)
  qed
qed simp

subsection \<open>The refinement\<close>

text \<open>
  C19: the polling loop refines the loop of the server's life cycle: whatever its surroundings
  answer, a run of \<open>poll_loop\<close> is a sequence of the server's events for that loop, which sees the
  stop flag where the code reads it, publishes the readings of its log in order, reconnects as
  often and with the outcomes of its log, and ends with the same result. In a server whose manager
  answers the reconnects like that, and in which the stop is requested when the run sees it, these
  events are all possible and leave the loop over with this result.
\<close>

theorem poll_loop_refines_server_loop:
  assumes "poll_loop fuel w cfg ps s = Some (r, ps', s')" and "monotone_flag (o_stop w)"
    and "js_get (srv_loops sv) i = Some (gate (stop_requested w s) LoopPolling)"
    and "stop_flag sv \<longrightarrow> stop_requested w s"
  shows "\<exists>ts. loop_path (cfg_runOnce cfg) (o_stop w) ts (gate (stop_requested w s) LoopPolling) = Some (LoopOver r) \<and>
    sorted (map fst ts) \<and> (\<forall>n \<in> fst ` set ts. tick s \<le> n \<and> n \<le> tick s') \<and>
    filter shown (map snd ts) = logged w s s' \<and>
    (run_answered hc addresses (cfg_runOnce cfg) i pub (cfg_device cfg) (o_stop w) ts sv \<longrightarrow>
      (\<exists>sv'. loop_in_server hc addresses (cfg_runOnce cfg) i pub (cfg_device cfg) (o_stop w) ts sv = Some sv' \<and>
        js_get (srv_loops sv') i = Some (LoopOver r)))"
proof -
  obtain ts where ts: "loop_run (cfg_runOnce cfg) w s (gate (stop_requested w s) LoopPolling) ts s' (LoopOver r)"
    using poll_loop_run [OF assms(1)] by blast
  note run = this [unfolded loop_run_def]
  have "stop_flag sv \<longrightarrow> o_stop w (tick s)" using assms(4) by (simp add: stop_requested_def)
  then have "\<exists>sv'. loop_in_server hc addresses (cfg_runOnce cfg) i pub (cfg_device cfg) (o_stop w) ts sv = Some sv' \<and>
      js_get (srv_loops sv') i = Some (LoopOver r)"
    if "run_answered hc addresses (cfg_runOnce cfg) i pub (cfg_device cfg) (o_stop w) ts sv"
    using path_in_server [OF _ assms(2) _ _ _ assms(3) that, of _ "tick s"] run by blast
  then show ?thesis using run by blast
qed

text \<open>A device is lost in the first read of its first cycle and recovers; the stop comes then.\<close>

definition recovering_world :: surroundings where
  "recovering_world = \<lparr>o_session = \<lambda>n. True, o_perform = \<lambda>n c. Inl (BadConnectionError ''lost''),
     o_publish = \<lambda>n. Inr (), o_clock = \<lambda>n. 0, o_reconnect = \<lambda>n. Inr (), o_connectAll = \<lambda>n. Inr (), o_stop = \<lambda>n. 10 \<le> n\<rparr>"

lemma recovering_example:
  "\<exists>ps' s'. poll_loop 3 recovering_world (sample_config AC60_definition) (createDevicePollingState DEFAULT_POLLING_OPTIONS)
     fresh_run = Some (Inr (), ps', s') \<and> logged recovering_world fresh_run s' = [ReconnectTurn (Inr ())]"
proof -
  let ?cfg = "sample_config AC60_definition" and ?ps = "createDevicePollingState DEFAULT_POLLING_OPTIONS"
  have cmds: "pollingCommands (cfg_device ?cfg) = [read_window 100 62]"
    by (simp add: sample_config_def pollingCommands_def new_BluettiDeviceModel_def AC60_definition_def)
  have once: "\<not> cfg_runOnce ?cfg" by (simp add: sample_config_def)
  have due: "nextFullPollAt ?ps = 0" by (simp add: createDevicePollingState_def)
  let ?run = "runCommandSet recovering_world (cfg_address ?cfg) (cfg_device ?cfg) [read_window 100 62] ?ps
      (begin_cycle True 0 (emit DoClock (emit DoClock fresh_run)))"
  have "fst ?run = Inr ConnectionError"
      "effects (snd ?run) = [DoClock, DoClock, DoClock, DoPerform (cfg_address ?cfg) (read_window 100 62), DoClock, DoClock]"
    by (simp_all add: runCommandSet_def begin_cycle_def recovering_world_def lost_eval)
  then obtain s1 where set1: "?run = (Inr ConnectionError, s1)"
      "effects s1 = [DoClock, DoClock, DoClock, DoPerform (cfg_address ?cfg) (read_window 100 62), DoClock, DoClock]"
    by (metis prod.collapse)
  have world: "stop_requested recovering_world s \<longleftrightarrow> 10 \<le> tick s" "o_reconnect recovering_world n = Inr ()"
      "o_clock recovering_world n = 0" for s n
    by (simp_all add: recovering_world_def stop_requested_def)
  have tick: "tick s1 = 6" "tick fresh_run = 0" by (simp_all add: tick_def set1(2)) (simp add: fresh_run_def)
  let ?s2 = "emit (DoLog ''Bluetooth connection recovered'') (emit (DoReconnect (cfg_address ?cfg))
    (emit (DoLog ''Bluetooth connection lost; reconnecting'') s1))"
  have "connection_lost 2 recovering_world ?cfg ?ps s1 = Some (Inr Continue, scheduleNextPoll 0 ?ps, emit DoClock ?s2)"
    by (simp add: connection_lost_def once recoverDeviceConnection_def numeral_2_eq_2 world tick perform_reconnect_def read_clock_def)
  then have "poll_iteration 2 recovering_world ?cfg ?ps fresh_run = Some (Inr Continue, scheduleNextPoll 0 ?ps, emit DoClock ?s2)"
    using set1 by (simp add: poll_iteration_def read_clock_def world due run_cycle_def cmds)
  then have "poll_loop 3 recovering_world ?cfg ?ps fresh_run = Some (Inr (), scheduleNextPoll 0 ?ps, emit DoClock ?s2)"
    by (simp add: numeral_3_eq_3 numeral_2_eq_2 world tick)
  moreover have "logged recovering_world fresh_run (emit DoClock ?s2) = [ReconnectTurn (Inr ())]"
    by (simp add: logged_def tick set1 world)
  ultimately show ?thesis by blast
qed

text \<open>One reconnect to answer: the manager is the same until then.\<close>

lemma hidden_turn_manager:
  "\<lbrakk>server_step hc addresses once (turn_event i pub dev t) s = Some s'; \<not> shown t\<rbrakk> \<Longrightarrow> srv_manager s' = srv_manager s"
  by (cases t) (auto simp: iteration_ends_def wait_over_def set_loop_def all_returned_def Let_def
      split: if_splits loop_state.splits sum.splits)

lemma no_reconnect_answered:
  "filter shown (map snd ts) = [] \<Longrightarrow> run_answered hc addresses once i pub dev stop ts s"
proof (induction hc addresses once i pub dev stop ts s rule: run_answered.induct)
  case (2 hc addresses once i pub dev stop n t ts s)
  then have "\<not> shown t" "filter shown (map snd ts) = []" by (simp_all split: if_splits)
  then show ?case using 2(1) by (cases t) (simp_all split: option.split)
qed simp

lemma one_reconnect_answered:
  "\<lbrakk>filter shown (map snd ts) = [ReconnectTurn r];
    r = fst (reconnect (helper_transport_ops hc) helper_create (addresses ! i) (srv_manager s))\<rbrakk> \<Longrightarrow>
   run_answered hc addresses once i pub dev stop ts s"
proof (induction ts arbitrary: s)
  case (Cons x ts)
  obtain n t where x: "x = (n, t)" by fastforce
  have same: "srv_manager (stop_seen (stop n) s) = srv_manager s" by (simp add: stop_seen_def server_stop_def)
  show ?case
  proof (cases "shown t")
    case True
    then have "t = ReconnectTurn r" "filter shown (map snd ts) = []" using Cons.prems(1) by (simp_all add: x)
    then show ?thesis using Cons.prems(2) same by (simp add: x no_reconnect_answered split: option.split)
  next
    case False
    then have "filter shown (map snd ts) = [ReconnectTurn r]" using Cons.prems(1) by (simp add: x)
    moreover have "turn_answered hc addresses i t (stop_seen (stop n) s)" using False by (cases t) simp_all
    ultimately show ?thesis
      using Cons.IH Cons.prems(2) hidden_turn_manager [OF _ False] same by (fastforce simp: x split: option.split)
  qed
qed simp

lemma polling_server:
  "map_option (\<lambda>s. (stop_flag s, srv_loops s,
       fst (reconnect (helper_transport_ops willing_helper) helper_create ''AA'' (srv_manager s))))
     (server_events willing_helper [''AA''] False [BridgeSettled quiet_broker, ConnectSettled (Inr ())]
       (new_BluettiMqttServer ())) = Some (False, [LoopPolling], Inr ())"
  by code_simp

theorem poll_loop_refines_server_loop_witness:
  "\<exists>ts s s'. server_events willing_helper [''AA''] False [BridgeSettled quiet_broker, ConnectSettled (Inr ())]
       (new_BluettiMqttServer ()) = Some s \<and>
     filter shown (map snd ts) = [ReconnectTurn (Inr ())] \<and>
     loop_in_server willing_helper [''AA''] False 0 (\<lambda>n. Inr ()) (cfg_device (sample_config AC60_definition))
       (o_stop recovering_world) ts s = Some s' \<and>
     js_get (srv_loops s') 0 = Some (LoopOver (Inr ()))"
proof -
  obtain ps' e where run: "poll_loop 3 recovering_world (sample_config AC60_definition)
      (createDevicePollingState DEFAULT_POLLING_OPTIONS) fresh_run = Some (Inr (), ps', e)"
    and log: "logged recovering_world fresh_run e = [ReconnectTurn (Inr ())]"
    using recovering_example by blast
  obtain s where s: "server_events willing_helper [''AA''] False [BridgeSettled quiet_broker, ConnectSettled (Inr ())]
       (new_BluettiMqttServer ()) = Some s"
    and ready: "(stop_flag s, srv_loops s, fst (reconnect (helper_transport_ops willing_helper) helper_create ''AA''
      (srv_manager s))) = (False, [LoopPolling], Inr ())"
    using polling_server unfolding map_option_eq_Some by blast
  then have loops: "\<not> stop_flag s" "srv_loops s = [LoopPolling]"
      "Inr () = fst (reconnect (helper_transport_ops willing_helper) helper_create ([''AA''] ! 0) (srv_manager s))"
    by simp_all
  have monotone: "monotone_flag (o_stop recovering_world)" by (simp add: monotone_flag_def recovering_world_def)
  have start: "js_get (srv_loops s) 0 = Some (gate (stop_requested recovering_world fresh_run) LoopPolling)"
    by (simp add: loops js_get_def gate_def stop_requested_def recovering_world_def fresh_run_def tick_def)
  have once: "cfg_runOnce (sample_config AC60_definition) = False" by (simp add: sample_config_def)
  have flag: "stop_flag s \<longrightarrow> stop_requested recovering_world fresh_run" using loops(1) by simp
  obtain ts where ts: "filter shown (map snd ts) = [ReconnectTurn (Inr ())]"
    and follows: "run_answered willing_helper [''AA''] False 0 (\<lambda>n. Inr ()) (cfg_device (sample_config AC60_definition))
        (o_stop recovering_world) ts s \<longrightarrow>
      (\<exists>s'. loop_in_server willing_helper [''AA''] False 0 (\<lambda>n. Inr ()) (cfg_device (sample_config AC60_definition))
        (o_stop recovering_world) ts s = Some s' \<and> js_get (srv_loops s') 0 = Some (LoopOver (Inr ())))"
    using poll_loop_refines_server_loop [OF run monotone start flag, of willing_helper "[''AA'']" "\<lambda>n. Inr ()",
        unfolded log once] by blast
  from follows one_reconnect_answered [OF ts loops(3)] s ts show ?thesis by blast
qed

end
