(* ===== verification/CliArgs.thy ===== *)
theory CliArgs
  imports Payload
begin

text \<open>
  Argument validation of the command-line tools (\<open>cli/args.ts\<close>, \<open>cli/errors.ts\<close>,
  \<open>cli/constants.ts\<close>): help flags, address arguments, and the three notations of a Bluetooth
  address with the one they are normalized to.
\<close>

subsection \<open>Errors and flags\<close>

datatype cli_error = HelpError string | UsageError string | OtherError js_error

type_synonym 'a cli_result = "cli_error + 'a"

definition HELP_LONG_FLAG :: string where "HELP_LONG_FLAG = ''--help''"
definition HELP_SHORT_FLAG :: string where "HELP_SHORT_FLAG = ''-h''"

definition hasHelpFlag :: "string list \<Rightarrow> bool" where
  "hasHelpFlag argv = (HELP_LONG_FLAG \<in> set argv \<or> HELP_SHORT_FLAG \<in> set argv)"

subsection \<open>Bluetooth addresses\<close>

definition upper_char :: "char \<Rightarrow> char" where
  "upper_char c = (if 97 \<le> (of_char c :: nat) \<and> (of_char c :: nat) \<le> 122
     then char_of ((of_char c :: nat) - 32) else c)"

definition to_upper :: "string \<Rightarrow> string" where
  "to_upper = map upper_char"

text \<open>\<open>[0-9A-F]\<close>.\<close>

definition is_hex :: "char \<Rightarrow> bool" where
  "is_hex c = (let n = (of_char c :: nat) in 48 \<le> n \<and> n \<le> 57 \<or> 65 \<le> n \<and> n \<le> 70)"

text \<open>\<open>^([0-9A-F]{2}sep){n}[0-9A-F]{2}$\<close>.\<close>

fun hex_pairs :: "string \<Rightarrow> nat \<Rightarrow> string \<Rightarrow> bool" where
  "hex_pairs sep 0 s = (length s = 2 \<and> list_all is_hex s)"
| "hex_pairs sep (Suc n) s =
     (list_all is_hex (take 2 s) \<and> length (take 2 s) = 2 \<and> starts_with (drop 2 s) sep \<and>
      hex_pairs sep n (drop (2 + length sep) s))"

definition MAC_COLON_PATTERN :: "string \<Rightarrow> bool" where "MAC_COLON_PATTERN = hex_pairs '':'' 5"
definition MAC_HYPHEN_PATTERN :: "string \<Rightarrow> bool" where "MAC_HYPHEN_PATTERN = hex_pairs ''-'' 5"
definition MAC_COMPACT_PATTERN :: "string \<Rightarrow> bool" where
  "MAC_COMPACT_PATTERN s = (length s = 12 \<and> list_all is_hex s)"

text \<open>\<open>s.match(/.{2}/g)\<close> on a text without line breaks.\<close>

fun two_by_two :: "string \<Rightarrow> string list" where
  "two_by_two (a # b # s) = [a, b] # two_by_two s"
| "two_by_two s = []"

definition validateBluetoothAddress :: "string \<Rightarrow> string cli_result" where
  "validateBluetoothAddress address =
     (let normalized = to_upper (js_trim address)
      in if \<not> (MAC_COLON_PATTERN normalized \<or> MAC_HYPHEN_PATTERN normalized \<or> MAC_COMPACT_PATTERN normalized)
         then Inl (UsageError ''Invalid Bluetooth address'')
         else if str_includes normalized '':'' then Inr normalized
         else (let compact = filter (\<lambda>c. c \<noteq> CHR ''-'') normalized
               in case two_by_two compact of
                    [] \<Rightarrow> Inr normalized
                  | pairs \<Rightarrow> Inr (join_with '':'' pairs)))"

definition requireSingleAddressArg :: "string list \<Rightarrow> string \<Rightarrow> string cli_result" where
  "requireSingleAddressArg argv helpText =
     (if hasHelpFlag argv then Inl (HelpError helpText)
      else (case argv of
              [a] \<Rightarrow> if a = [] then Inl (UsageError helpText) else validateBluetoothAddress a
            | _ \<Rightarrow> Inl (UsageError helpText)))"

definition optionalSingleAddressArg :: "string list \<Rightarrow> string \<Rightarrow> string option cli_result" where
  "optionalSingleAddressArg argv helpText =
     (if hasHelpFlag argv then Inl (HelpError helpText)
      else (case argv of
              [] \<Rightarrow> Inr None
            | [a] \<Rightarrow> if a = [] then Inr None else map_sum id Some (validateBluetoothAddress a)
            | _ \<Rightarrow> Inl (UsageError helpText)))"

subsection \<open>The normal form\<close>

definition hex_byte :: "string \<Rightarrow> bool" where
  "hex_byte p \<longleftrightarrow> length p = 2 \<and> list_all is_hex p"

lemma hex_byte_pair: "hex_byte p \<longleftrightarrow> (\<exists>a b. p = [a, b] \<and> is_hex a \<and> is_hex b)"
  by (cases p rule: two_by_two.cases) (auto simp: hex_byte_def)

lemma hex_pairs_shape:
  "hex_pairs sep n s \<Longrightarrow> \<exists>ps. length ps = Suc n \<and> (\<forall>p \<in> set ps. hex_byte p) \<and>
     s = join_with sep ps"
proof (induction n arbitrary: s)
  case 0
  then obtain a b where "s = [a, b]" "is_hex a" "is_hex b"
    by (cases s rule: two_by_two.cases) (auto simp: list_all_iff)
  then show ?case by (intro exI [of _ "[s]"]) (auto simp: hex_byte_pair)
next
  case (Suc n)
  obtain a b rest where s: "s = a # b # rest" "is_hex a" "is_hex b"
    using Suc.prems by (cases s rule: two_by_two.cases) auto
  have rest: "starts_with rest sep" "hex_pairs sep n (drop (length sep) rest)" using Suc.prems s by simp_all
  then obtain ps where ps: "length ps = Suc n" "\<forall>p \<in> set ps. hex_byte p"
      "drop (length sep) rest = join_with sep ps"
    using Suc.IH by blast
  have "rest = sep @ join_with sep ps"
    using rest(1) ps(3) by (metis append_take_drop_id starts_with_take)
  moreover obtain q qs where "ps = q # qs" using ps(1) by (cases ps) auto
  ultimately show ?case using s ps by (intro exI [of _ "[a, b] # ps"]) (auto simp: hex_byte_pair)
qed

lemma hex_pairs_join:
  "length ps = Suc n \<Longrightarrow> \<forall>p \<in> set ps. hex_byte p \<Longrightarrow> hex_pairs sep n (join_with sep ps)"
proof (induction n arbitrary: ps)
  case 0
  then obtain p where "ps = [p]" by (cases ps) auto
  then show ?case using 0 by (auto simp: hex_byte_def)
next
  case (Suc n)
  then obtain p qs where ps: "ps = p # qs" "length qs = Suc n" by (cases ps) auto
  then obtain q rs where qs: "qs = q # rs" by (cases qs) auto
  have "hex_pairs sep n (join_with sep qs)" using Suc.IH [of qs] Suc.prems ps by simp
  then show ?case using Suc.prems ps qs by (auto simp: hex_byte_pair)
qed

lemma hex_char:
  "is_hex c \<Longrightarrow> upper_char c = c \<and> \<not> is_js_space c \<and> c \<noteq> CHR '':'' \<and> c \<noteq> CHR ''-''"
  by (auto simp: is_hex_def upper_char_def is_js_space_def Let_def)

lemma two_by_two_concat: "\<forall>p \<in> set ps. hex_byte p \<Longrightarrow> two_by_two (concat ps) = ps"
  by (induction ps) (auto simp: hex_byte_pair)

lemma compact_pairs:
  "length s = 2 * n \<Longrightarrow> list_all is_hex s \<Longrightarrow> \<exists>ps. length ps = n \<and> (\<forall>p \<in> set ps. hex_byte p) \<and> s = concat ps"
proof (induction n arbitrary: s)
  case (Suc n)
  then obtain a b rest where s: "s = a # b # rest" by (cases s rule: two_by_two.cases) auto
  with Suc obtain ps where "length ps = n" "\<forall>p \<in> set ps. hex_byte p" "rest = concat ps" by fastforce
  with s Suc.prems show ?case by (intro exI [of _ "[a, b] # ps"]) (auto simp: hex_byte_pair)
qed simp

lemma join_filter:
  "\<forall>p \<in> set ps. hex_byte p \<Longrightarrow> filter (\<lambda>c. c \<noteq> CHR ''-'') (join_with ''-'' ps) = concat ps"
  "\<forall>p \<in> set ps. hex_byte p \<Longrightarrow> filter (\<lambda>c. c \<noteq> CHR ''-'') (concat ps) = concat ps"
proof -
  have part: "filter (\<lambda>c. c \<noteq> CHR ''-'') p = p" if "hex_byte p" for p
    using that hex_char by (auto simp: hex_byte_pair)
  show "\<forall>p \<in> set ps. hex_byte p \<Longrightarrow> filter (\<lambda>c. c \<noteq> CHR ''-'') (join_with ''-'' ps) = concat ps"
    by (induction "''-''" ps rule: join_with.induct) (simp_all add: part)
  show "\<forall>p \<in> set ps. hex_byte p \<Longrightarrow> filter (\<lambda>c. c \<noteq> CHR ''-'') (concat ps) = concat ps"
    by (induction ps) (simp_all add: part)
qed

lemma colon_included: "str_includes s '':'' \<longleftrightarrow> CHR '':'' \<in> set s"
  by (auto simp: str_includes_iff in_set_conv_decomp)

lemma join_chars:
  "\<forall>p \<in> set ps. hex_byte p \<Longrightarrow> c \<in> set (join_with sep ps) \<Longrightarrow> is_hex c \<or> c \<in> set sep"
  by (induction sep ps rule: join_with.induct) (auto simp: hex_byte_pair)

lemma concat_chars: "\<forall>p \<in> set ps. hex_byte p \<Longrightarrow> c \<in> set (concat ps) \<Longrightarrow> is_hex c"
  by (auto simp: hex_byte_def list_all_iff)

definition notations :: "string list \<Rightarrow> string set" where
  "notations ps = {join_with '':'' ps, join_with ''-'' ps, concat ps}"

lemma notation_canonical:
  assumes "\<forall>p \<in> set ps. hex_byte p" and "t \<in> notations ps"
  shows "to_upper (js_trim t) = t"
proof -
  have c: "is_hex c \<or> c = CHR '':'' \<or> c = CHR ''-''" if "c \<in> set t" for c
    using assms that join_chars [OF assms(1)] concat_chars [OF assms(1)] by (fastforce simp: notations_def)
  then have "\<not> is_js_space c \<and> upper_char c = c" if "c \<in> set t" for c
    using that hex_char by (fastforce simp: is_js_space_def upper_char_def)
  then show ?thesis by (simp add: js_trim_plain to_upper_def map_idI list_all_iff)
qed

text \<open>The three patterns are the three notations of six bytes.\<close>

lemma mac_patterns:
  "(MAC_COLON_PATTERN s \<or> MAC_HYPHEN_PATTERN s \<or> MAC_COMPACT_PATTERN s) \<longleftrightarrow>
   (\<exists>ps. length ps = 6 \<and> (\<forall>p \<in> set ps. hex_byte p) \<and> s \<in> notations ps)"
proof
  assume "MAC_COLON_PATTERN s \<or> MAC_HYPHEN_PATTERN s \<or> MAC_COMPACT_PATTERN s"
  then show "\<exists>ps. length ps = 6 \<and> (\<forall>p \<in> set ps. hex_byte p) \<and> s \<in> notations ps"
    using hex_pairs_shape [of "'':''" 5 s] hex_pairs_shape [of "''-''" 5 s] compact_pairs [of s 6]
    by (auto simp: MAC_COLON_PATTERN_def MAC_HYPHEN_PATTERN_def MAC_COMPACT_PATTERN_def notations_def)
next
  assume "\<exists>ps. length ps = 6 \<and> (\<forall>p \<in> set ps. hex_byte p) \<and> s \<in> notations ps"
  then obtain ps where ps: "length ps = 6" "\<forall>p \<in> set ps. hex_byte p" "s \<in> notations ps" by blast
  have "length (concat ps) = 2 * length ps" using ps(2) by (induction ps) (auto simp: hex_byte_def)
  moreover have "list_all is_hex (concat ps)" using concat_chars [OF ps(2)] by (simp add: list_all_iff)
  ultimately show "MAC_COLON_PATTERN s \<or> MAC_HYPHEN_PATTERN s \<or> MAC_COMPACT_PATTERN s"
    using ps hex_pairs_join [of ps 5]
    by (auto simp: MAC_COLON_PATTERN_def MAC_HYPHEN_PATTERN_def MAC_COMPACT_PATTERN_def notations_def)
qed

lemma normalized_notation:
  assumes "length ps = 6" and "\<forall>p \<in> set ps. hex_byte p" and "to_upper (js_trim s) \<in> notations ps"
  shows "validateBluetoothAddress s = Inr (join_with '':'' ps)"
proof -
  let ?n = "to_upper (js_trim s)"
  obtain p q rest where ps: "ps = p # q # rest" using assms(1) by (auto simp: length_Suc_conv numeral_eq_Suc)
  have match: "MAC_COLON_PATTERN ?n \<or> MAC_HYPHEN_PATTERN ?n \<or> MAC_COMPACT_PATTERN ?n"
    using mac_patterns assms by blast
  consider "?n = join_with '':'' ps" | "?n = join_with ''-'' ps" | "?n = concat ps"
    using assms(3) by (auto simp: notations_def)
  then show ?thesis
  proof cases
    case 1
    then show ?thesis using match ps by (simp add: validateBluetoothAddress_def colon_included Let_def)
  next
    case 2
    moreover have "CHR '':'' \<notin> set (join_with ''-'' ps)" using join_chars [OF assms(2)] hex_char by fastforce
    ultimately show ?thesis
      using match ps join_filter(1) [OF assms(2)] two_by_two_concat [OF assms(2)]
      by (simp add: validateBluetoothAddress_def colon_included Let_def)
  next
    case 3
    moreover have "CHR '':'' \<notin> set (concat ps)" using concat_chars [OF assms(2)] hex_char by blast
    ultimately show ?thesis
      using match ps join_filter(2) [OF assms(2)] two_by_two_concat [OF assms(2)]
      by (simp add: validateBluetoothAddress_def colon_included Let_def)
  qed
qed

lemma validated_notation:
  assumes "validateBluetoothAddress s = Inr a"
  shows "\<exists>ps. length ps = 6 \<and> (\<forall>p \<in> set ps. hex_byte p) \<and> to_upper (js_trim s) \<in> notations ps \<and>
    a = join_with '':'' ps"
proof -
  have "MAC_COLON_PATTERN (to_upper (js_trim s)) \<or> MAC_HYPHEN_PATTERN (to_upper (js_trim s)) \<or>
      MAC_COMPACT_PATTERN (to_upper (js_trim s))"
    using assms by (auto simp: validateBluetoothAddress_def Let_def split: if_splits)
  then obtain ps where ps: "length ps = 6" "\<forall>p \<in> set ps. hex_byte p" "to_upper (js_trim s) \<in> notations ps"
    unfolding mac_patterns by blast
  then show ?thesis using normalized_notation [OF ps] assms by auto
qed

lemma validated_canonical:
  assumes "validateBluetoothAddress s = Inr a"
  shows "MAC_COLON_PATTERN a" and "validateBluetoothAddress a = Inr a"
proof -
  obtain ps where ps: "length ps = 6" "\<forall>p \<in> set ps. hex_byte p" "a = join_with '':'' ps"
    using validated_notation [OF assms] by blast
  have a: "a \<in> notations ps" by (simp add: notations_def ps(3))
  show "MAC_COLON_PATTERN a" using hex_pairs_join [of ps 5 "'':''"] ps by (simp add: MAC_COLON_PATTERN_def)
  show "validateBluetoothAddress a = Inr a"
    using normalized_notation [OF ps(1,2), of a] notation_canonical [OF ps(2) a] a ps by simp
qed

subsection \<open>Properties\<close>

text \<open>
  C17: an address is accepted exactly when, trimmed and in upper case, it is one of the three
  notations of six bytes; the result is the colon notation of the same bytes, which is itself
  accepted unchanged; every other text is refused as a usage error.
\<close>

theorem address_normal_form:
  "(validateBluetoothAddress s = Inr a \<longleftrightarrow>
     (\<exists>ps. length ps = 6 \<and> (\<forall>p \<in> set ps. hex_byte p) \<and> to_upper (js_trim s) \<in> notations ps \<and>
        a = join_with '':'' ps)) \<and>
   (validateBluetoothAddress s = Inr a \<longrightarrow> MAC_COLON_PATTERN a \<and> validateBluetoothAddress a = Inr a) \<and>
   (validateBluetoothAddress s = Inl e \<longrightarrow> e = UsageError ''Invalid Bluetooth address'')"
proof -
  have "validateBluetoothAddress s = Inl e \<longrightarrow> e = UsageError ''Invalid Bluetooth address''"
    by (auto simp: validateBluetoothAddress_def Let_def split: if_splits list.splits)
  then show ?thesis using validated_notation validated_canonical normalized_notation by blast
qed

theorem address_normal_form_witness:
  "validateBluetoothAddress '' 244cab2c248e'' = Inr ''24:4C:AB:2C:24:8E'' \<and>
   validateBluetoothAddress ''24:4C:AB:2C:24:8E'' = Inr ''24:4C:AB:2C:24:8E''"
proof -
  let ?ps = "[''24'', ''4C'', ''AB'', ''2C'', ''24'', ''8E'']"
  have "to_upper (js_trim '' 244cab2c248e'') = ''244CAB2C248E''" by code_simp
  then have "validateBluetoothAddress '' 244cab2c248e'' = Inr ''24:4C:AB:2C:24:8E''"
    by (intro address_normal_form [THEN conjunct1, THEN iffD2] exI [of _ ?ps])
       (simp add: notations_def hex_byte_def is_hex_def)
  then show ?thesis using address_normal_form [of "'' 244cab2c248e''"] by blast
qed

end
