(* ===== verification/Logger.thy ===== *)
theory Logger
  imports Json
begin

text \<open>
  \<open>ConsoleLogger\<close> (\<open>core/logger.ts\<close>): severity levels with their order, the threshold, and the
  record of a message as one line of JSON. The time stamp is an argument.
\<close>

subsection \<open>Levels\<close>

datatype log_level = Debug | Info | Warn | Fault

fun LOG_LEVEL_PRIORITY :: "log_level \<Rightarrow> nat" where
  "LOG_LEVEL_PRIORITY Debug = 10"
| "LOG_LEVEL_PRIORITY Info = 20"
| "LOG_LEVEL_PRIORITY Warn = 30"
| "LOG_LEVEL_PRIORITY Fault = 40"

fun level_name :: "log_level \<Rightarrow> string" where
  "level_name Debug = ''debug''"
| "level_name Info = ''info''"
| "level_name Warn = ''warn''"
| "level_name Fault = ''error''"

instantiation log_level :: linorder
begin

definition less_eq_log_level :: "log_level \<Rightarrow> log_level \<Rightarrow> bool" where
  "less_eq_log_level x y = (LOG_LEVEL_PRIORITY x \<le> LOG_LEVEL_PRIORITY y)"

definition less_log_level :: "log_level \<Rightarrow> log_level \<Rightarrow> bool" where
  "less_log_level x y = (LOG_LEVEL_PRIORITY x < LOG_LEVEL_PRIORITY y)"

instance
proof
  fix x y :: log_level
  show "x \<le> y \<Longrightarrow> y \<le> x \<Longrightarrow> x = y" by (cases x; cases y) (simp_all add: less_eq_log_level_def)
qed (auto simp: less_eq_log_level_def less_log_level_def)

end

subsection \<open>Records\<close>

text \<open>A logged value; \<open>JSON.stringify\<close> has no text for the \<open>bigint\<close>s among them.\<close>

datatype log_value =
    LNull
  | LBool bool
  | LNum jsnum
  | LStr string
  | LBigInt int
  | LArr "log_value list"
  | LObj "(string \<times> log_value) list"

definition bigint_text :: "int \<Rightarrow> string" where
  "bigint_text i = (if i < 0 then CHR ''-'' # decimal_string (nat (- i)) else decimal_string (nat i))"

fun normalizeLogValue :: "log_value \<Rightarrow> json" where
  "normalizeLogValue LNull = JNull"
| "normalizeLogValue (LBool b) = JBool b"
| "normalizeLogValue (LNum x) = JNum x"
| "normalizeLogValue (LStr s) = JStr s"
| "normalizeLogValue (LBigInt i) = JStr (bigint_text i)"
| "normalizeLogValue (LArr vs) = JArr (map normalizeLogValue vs)"
| "normalizeLogValue (LObj ps) = JObj (map (\<lambda>(k, v). (k, normalizeLogValue v)) ps)"

datatype log_stream = Stdout | Stderr

definition log_payload :: "string \<Rightarrow> log_level \<Rightarrow> string \<Rightarrow> (string \<times> log_value) list option \<Rightarrow> json" where
  "log_payload timestamp level message context =
     JObj ([(''timestamp'', JStr timestamp), (''level'', JStr (level_name level)), (''message'', JStr message)] @
       (case context of
          None \<Rightarrow> []
        | Some ps \<Rightarrow> if ps = [] then [] else [(''context'', normalizeLogValue (LObj ps))]))"

definition logger_write ::
  "log_level \<Rightarrow> string \<Rightarrow> log_level \<Rightarrow> string \<Rightarrow> (string \<times> log_value) list option \<Rightarrow> (log_stream \<times> string) option" where
  "logger_write minimumLevel timestamp level message context =
     (if LOG_LEVEL_PRIORITY level < LOG_LEVEL_PRIORITY minimumLevel then None
      else (let line = json_text (log_payload timestamp level message context)
            in if level = Warn then Some (Stderr, line)
               else if level = Fault then Some (Stderr, line)
               else Some (Stdout, line)))"

subsection \<open>JSON text is printable\<close>

definition printable :: "string \<Rightarrow> bool" where
  "printable s = list_all (\<lambda>c. 32 \<le> (of_char c :: nat)) s"

lemma printable_simps [simp]:
  "printable []" "printable (c # s) \<longleftrightarrow> 32 \<le> (of_char c :: nat) \<and> printable s"
  "printable (s @ t) \<longleftrightarrow> printable s \<and> printable t"
  "printable (concat ss) \<longleftrightarrow> (\<forall>s \<in> set ss. printable s)"
  "printable (replicate n c) \<longleftrightarrow> n = 0 \<or> 32 \<le> (of_char c :: nat)"
  by (auto simp: printable_def list_all_iff)

lemma printable_join: "printable sep \<Longrightarrow> printable (join_with sep ss) \<longleftrightarrow> (\<forall>s \<in> set ss. printable s)"
  by (induction sep ss rule: join_with.induct) auto

lemma printable_digits: "printable (decimal_string n)"
proof -
  have "32 \<le> (of_char c :: nat)" if "c \<in> set (decimal_string n)" for c
    using decimal_string_digits [OF that] by (simp add: is_digit_def)
  then show ?thesis by (simp add: printable_def list_all_iff)
qed

lemma printable_number: "printable (js_number_text v)"
  by (simp add: js_number_text_def Let_def decimals_text_def zero_padded_def printable_digits)

lemma printable_hex: "n < 16 \<Longrightarrow> 32 \<le> (of_char (hex_digit n) :: nat)"
proof -
  have "list_all (\<lambda>n. 32 \<le> (of_char (hex_digit n) :: nat)) [0..<16]" by (simp add: hex_digit_def upt_rec)
  then show "n < 16 \<Longrightarrow> ?thesis" by (simp add: list_all_iff)
qed

lemma printable_escape: "printable (json_escape c)"
  by (auto simp: json_escape_def Let_def printable_hex)

lemma printable_quote: "printable (json_quote s)"
  by (auto simp: json_quote_def printable_escape)

lemma printable_json: "printable (json_text v)"
proof (induction v)
  case (JNum x)
  then show ?case by (cases x) (simp_all add: printable_number)
next
  case (JArr xs)
  then show ?case by (auto simp: printable_join)
next
  case (JObj ps)
  have "printable (json_quote k @ CHR '':'' # json_text v)" if "(k, v) \<in> set ps" for k v
    using JObj.IH [OF that] by (simp add: printable_quote snds.simps)
  then show ?case by (auto simp: printable_join)
qed (simp_all add: printable_quote)

subsection \<open>Properties\<close>

text \<open>
  A message is written exactly when its level is at least the minimum, to the standard
  error stream exactly for warnings and errors, and as one line whatever its text and context
  are: the record has no line break and no other control character.
\<close>

theorem log_record_is_one_line:
  "(logger_write minimum timestamp level message context \<noteq> None \<longleftrightarrow> minimum \<le> level) \<and>
   (\<forall>stream line. logger_write minimum timestamp level message context = Some (stream, line) \<longrightarrow>
      (stream = Stderr \<longleftrightarrow> Warn \<le> level) \<and> (\<forall>c \<in> set line. 32 \<le> (of_char c :: nat)))"
proof -
  have "\<forall>c \<in> set (json_text (log_payload timestamp level message context)). 32 \<le> (of_char c :: nat)"
    using printable_json by (simp add: printable_def list_all_iff)
  then show ?thesis
    by (cases level) (auto simp: logger_write_def less_eq_log_level_def Let_def split: if_splits)
qed

theorem log_record_is_one_line_witness:
  "logger_write Info ''t'' Debug ''a'' None = None \<and>
   (\<exists>line. logger_write Info ''t'' Warn [CHR 0x0A] None = Some (Stderr, line) \<and> CHR 0x0A \<notin> set line)"
proof -
  let ?w = "logger_write Info ''t'' Warn [CHR 0x0A] None"
  have "?w \<noteq> None"
    using log_record_is_one_line [of Info "''t''" Warn "[CHR 0x0A]" None] by (simp add: less_eq_log_level_def)
  then obtain stream line where w: "?w = Some (stream, line)" by auto
  then have "stream = Stderr" "\<forall>c \<in> set line. 32 \<le> (of_char c :: nat)"
    using log_record_is_one_line [of Info "''t''" Warn "[CHR 0x0A]" None] by (simp_all add: less_eq_log_level_def)
  then have "CHR 0x0A \<notin> set line" by auto
  moreover have "logger_write Info ''t'' Debug ''a'' None = None"
    by (simp add: logger_write_def)
  ultimately show ?thesis using w \<open>stream = Stderr\<close> by simp
qed

end
