(* ===== verification/CliConfig.thy ===== *)
theory CliConfig
  imports CliArgs Logger
begin

text \<open>
  Option values of the bridge's command line and its JSON configuration file
  (\<open>cli/cli-config.ts\<close>): numbers from text, intervals that are safe for a timer, log levels, and
  the validation of whatever \<open>JSON.parse\<close> produced. What reading and parsing a file gives is an
  argument.
\<close>

subsection \<open>Numbers from text\<close>

text \<open>
  The IEEE binary64 nearest to a non-negative rational, ties to even; the least positive one is
  \<open>2 powr - SUBNORMAL_SCALE\<close>, and normal numbers have 53 significant bits.
\<close>

definition SUBNORMAL_SCALE :: nat where "SUBNORMAL_SCALE = 1074"

definition nearest_even :: "rat \<Rightarrow> nat" where
  "nearest_even y =
     (let f = \<lfloor>y\<rfloor>; r = y - of_int f
      in nat (if r < 1 / 2 then f else if 1 / 2 < r then f + 1 else if even f then f else f + 1))"

definition binary64 :: "rat \<Rightarrow> rat" where
  "binary64 q =
     (let surplus = floorlog 2 (nat \<lfloor>q * 2 ^ SUBNORMAL_SCALE\<rfloor>) - 53
      in of_nat (nearest_even (q * 2 ^ SUBNORMAL_SCALE / 2 ^ surplus)) * 2 ^ surplus / 2 ^ SUBNORMAL_SCALE)"

definition to_binary64 :: "rat \<Rightarrow> jsnum" where
  "to_binary64 q =
     (if 2 ^ 1024 - 2 ^ 970 \<le> \<bar>q\<bar> then (if q < 0 then NegInf else PosInf)
      else Fin (if q < 0 then - binary64 (- q) else binary64 q))"

text \<open>Multiplication by a positive finite number.\<close>

fun js_times :: "jsnum \<Rightarrow> rat \<Rightarrow> jsnum" where
  "js_times (Fin q) k = to_binary64 (q * k)"
| "js_times PosInf k = PosInf"
| "js_times NegInf k = NegInf"
| "js_times _ k = NaN"

text \<open>An unsigned decimal literal: digits, optional fraction, optional exponent.\<close>

definition signed_digits :: "string \<Rightarrow> (bool \<times> string)" where
  "signed_digits s = (case s of [] \<Rightarrow> (False, [])
     | c # cs \<Rightarrow> if c = CHR ''-'' then (True, cs) else if c = CHR ''+'' then (False, cs) else (False, s))"

definition decimal_literal :: "string \<Rightarrow> rat option" where
  "decimal_literal s =
     (let ip = takeWhile is_digit s; r = dropWhile is_digit s;
          (fp, r) = (case r of [] \<Rightarrow> ([], []) | c # cs \<Rightarrow>
              if c = CHR ''.'' then (takeWhile is_digit cs, dropWhile is_digit cs) else ([], r));
          m = of_nat (decimal_value (ip @ fp)) / 10 ^ length fp
      in if ip = [] \<and> fp = [] then None
         else (case r of
                 [] \<Rightarrow> Some m
               | c # cs \<Rightarrow>
                   if c \<noteq> CHR ''e'' \<and> c \<noteq> CHR ''E'' then None
                   else (case signed_digits cs of (neg, ds) \<Rightarrow>
                           if ds = [] \<or> \<not> list_all is_digit ds then None
                           else Some (if neg then m / 10 ^ decimal_value ds else m * 10 ^ decimal_value ds))))"

definition digit_value :: "char \<Rightarrow> nat" where
  "digit_value c = (let n = (of_char c :: nat)
     in if 48 \<le> n \<and> n \<le> 57 then n - 48 else if 97 \<le> n \<and> n \<le> 102 then n - 87
        else if 65 \<le> n \<and> n \<le> 70 then n - 55 else 99)"

definition radix_literal :: "nat \<Rightarrow> string \<Rightarrow> rat option" where
  "radix_literal b s =
     (if s = [] \<or> \<not> list_all (\<lambda>c. digit_value c < b) s then None
      else Some (of_nat (foldl (\<lambda>n c. n * b + digit_value c) 0 s)))"

text \<open>\<open>Number(s)\<close>.\<close>

definition string_to_number :: "string \<Rightarrow> jsnum" where
  "string_to_number s =
     (let t = js_trim s;
          radix = (case t of c # c' # cs \<Rightarrow>
              if c = CHR ''0'' \<and> c' \<in> {CHR ''x'', CHR ''X''} then Some (radix_literal 16 cs)
              else if c = CHR ''0'' \<and> c' \<in> {CHR ''o'', CHR ''O''} then Some (radix_literal 8 cs)
              else if c = CHR ''0'' \<and> c' \<in> {CHR ''b'', CHR ''B''} then Some (radix_literal 2 cs)
              else None
            | _ \<Rightarrow> None)
      in if t = [] then Fin 0
         else (case radix of
                 Some None \<Rightarrow> NaN
               | Some (Some q) \<Rightarrow> to_binary64 q
               | None \<Rightarrow>
                   (case signed_digits t of (neg, u) \<Rightarrow>
                      if u = ''Infinity'' then (if neg then NegInf else PosInf)
                      else (case decimal_literal u of
                              None \<Rightarrow> NaN
                            | Some q \<Rightarrow> to_binary64 (if neg then - q else q)))))"

subsection \<open>Option values\<close>

definition MAX_TIMER_MS :: nat where "MAX_TIMER_MS = 2147483647"

definition requireValue :: "string list \<Rightarrow> nat \<Rightarrow> string \<Rightarrow> string cli_result" where
  "requireValue argv index helpText =
     (case js_get argv (index + 1) of
        None \<Rightarrow> Inl (UsageError helpText)
      | Some v \<Rightarrow> if starts_with v ''--'' then Inl (UsageError helpText) else Inr v)"

fun isSafeInteger :: "jsnum \<Rightarrow> bool" where
  "isSafeInteger (Fin q) = (is_js_integer (Fin q) \<and> \<bar>q\<bar> \<le> 2 ^ 53 - 1)"
| "isSafeInteger _ = False"

fun isValidIntervalSeconds :: "jsnum \<Rightarrow> bool" where
  "isValidIntervalSeconds (Fin q) =
     (0 \<le> q \<and> isSafeInteger (js_times (Fin q) 1000) \<and> js_int (js_times (Fin q) 1000) \<le> int MAX_TIMER_MS)"
| "isValidIntervalSeconds _ = False"

definition parseIntervalSeconds :: "string \<Rightarrow> string \<Rightarrow> jsnum cli_result" where
  "parseIntervalSeconds rawValue helpText =
     (let seconds = string_to_number rawValue
      in if \<not> isValidIntervalSeconds seconds then Inl (UsageError helpText)
         else Inr (js_times seconds 1000))"

definition parseLogLevel :: "string \<Rightarrow> string \<Rightarrow> log_level cli_result" where
  "parseLogLevel rawValue helpText =
     (if rawValue = ''debug'' then Inr Debug
      else if rawValue = ''info'' then Inr Info
      else if rawValue = ''warn'' then Inr Warn
      else if rawValue = ''error'' then Inr Fault
      else Inl (UsageError helpText))"

subsection \<open>The configuration file\<close>

record cli_tls_config =
  caPath :: "string option"
  certPath :: "string option"
  keyPath :: "string option"
  rejectUnauthorized :: "bool option"
  servername :: "string option"

record cli_config_file =
  cfg_broker :: "string option"
  cfg_username :: "string option"
  cfg_password :: "string option"
  cfg_tls :: "cli_tls_config option"
  cfg_interval :: "jsnum option"
  cfg_once :: "bool option"
  cfg_addresses :: "string list option"
  cfg_logLevel :: "log_level option"

definition cbind :: "'a cli_result \<Rightarrow> ('a \<Rightarrow> 'b cli_result) \<Rightarrow> 'b cli_result" where
  "cbind r f = (case r of Inl e \<Rightarrow> Inl e | Inr x \<Rightarrow> f x)"

lemma cbind_simps [simp]: "cbind (Inl e) f = Inl e" "cbind (Inr x) f = f x"
  by (simp_all add: cbind_def)

lemma cbind_Inr: "cbind r f = Inr y \<longleftrightarrow> (\<exists>x. r = Inr x \<and> f x = Inr y)"
  by (cases r) simp_all

definition invalidConfigValue :: "string \<Rightarrow> cli_error" where
  "invalidConfigValue field = UsageError (''Config file has an invalid value: '' @ field)"

text \<open>A field that is \<open>undefined\<close> is left out, any other is validated.\<close>

definition config_field :: "json \<Rightarrow> string \<Rightarrow> (json \<Rightarrow> 'a cli_result) \<Rightarrow> 'a option cli_result" where
  "config_field candidate key validate =
     (case json_prop candidate key of None \<Rightarrow> Inr None | Some v \<Rightarrow> map_sum id Some (validate v))"

definition requireConfigString :: "string \<Rightarrow> json \<Rightarrow> string cli_result" where
  "requireConfigString field v =
     (case v of JStr s \<Rightarrow> if js_trim s = [] then Inl (invalidConfigValue field) else Inr s
      | _ \<Rightarrow> Inl (invalidConfigValue field))"

definition requireConfigBool :: "string \<Rightarrow> json \<Rightarrow> bool cli_result" where
  "requireConfigBool field v = (case v of JBool b \<Rightarrow> Inr b | _ \<Rightarrow> Inl (invalidConfigValue field))"

definition requireConfigInterval :: "json \<Rightarrow> jsnum cli_result" where
  "requireConfigInterval v =
     (case v of JNum x \<Rightarrow> if isValidIntervalSeconds x then Inr x else Inl (invalidConfigValue ''interval'')
      | _ \<Rightarrow> Inl (invalidConfigValue ''interval''))"

fun json_string :: "json \<Rightarrow> string option" where
  "json_string (JStr s) = Some s"
| "json_string _ = None"

definition requireConfigAddresses :: "json \<Rightarrow> string list cli_result" where
  "requireConfigAddresses v =
     (case v of
        JArr vs \<Rightarrow> if list_all (\<lambda>v. json_string v \<noteq> None) vs then Inr (List.map_filter json_string vs)
                   else Inl (invalidConfigValue ''addresses'')
      | _ \<Rightarrow> Inl (invalidConfigValue ''addresses''))"

definition requireConfigLogLevel :: "json \<Rightarrow> log_level cli_result" where
  "requireConfigLogLevel v =
     (case v of
        JStr s \<Rightarrow> (case parseLogLevel s [] of Inl e \<Rightarrow> Inl (invalidConfigValue ''logLevel'') | Inr l \<Rightarrow> Inr l)
      | _ \<Rightarrow> Inl (invalidConfigValue ''logLevel''))"

definition parseTlsConfig :: "json \<Rightarrow> cli_tls_config cli_result" where
  "parseTlsConfig v =
     (case v of
        JObj ps \<Rightarrow>
          cbind (config_field v ''caPath'' (requireConfigString ''tls.caPath'')) (\<lambda>ca.
          cbind (config_field v ''certPath'' (requireConfigString ''tls.certPath'')) (\<lambda>cert.
          cbind (config_field v ''keyPath'' (requireConfigString ''tls.keyPath'')) (\<lambda>key.
          cbind (config_field v ''rejectUnauthorized'' (requireConfigBool ''tls.rejectUnauthorized'')) (\<lambda>reject.
          cbind (config_field v ''servername'' (requireConfigString ''tls.servername'')) (\<lambda>name.
          Inr \<lparr>caPath = ca, certPath = cert, keyPath = key, rejectUnauthorized = reject, servername = name\<rparr>)))))
      | _ \<Rightarrow> Inl (invalidConfigValue ''tls''))"

datatype file_content = Unreadable | NotJson | Parsed json

definition readConfigFile :: "file_content \<Rightarrow> cli_config_file cli_result" where
  "readConfigFile file =
     (case file of
        Unreadable \<Rightarrow> Inl (UsageError ''Failed to read config file'')
      | NotJson \<Rightarrow> Inl (UsageError ''Config file must be valid JSON'')
      | Parsed v \<Rightarrow>
          if \<not> (case v of JObj ps \<Rightarrow> True | JArr vs \<Rightarrow> True | _ \<Rightarrow> False)
          then Inl (UsageError ''Config file must contain a JSON object'')
          else
            cbind (config_field v ''broker'' (requireConfigString ''broker'')) (\<lambda>broker.
            cbind (config_field v ''username'' (requireConfigString ''username'')) (\<lambda>username.
            cbind (config_field v ''password'' (requireConfigString ''password'')) (\<lambda>password.
            cbind (config_field v ''tls'' parseTlsConfig) (\<lambda>tls.
            cbind (config_field v ''interval'' requireConfigInterval) (\<lambda>interval.
            cbind (config_field v ''once'' (requireConfigBool ''once'')) (\<lambda>once.
            cbind (config_field v ''addresses'' requireConfigAddresses) (\<lambda>addresses.
            cbind (config_field v ''logLevel'' requireConfigLogLevel) (\<lambda>logLevel.
            Inr \<lparr>cfg_broker = broker, cfg_username = username, cfg_password = password, cfg_tls = tls,
                 cfg_interval = interval, cfg_once = once, cfg_addresses = addresses,
                 cfg_logLevel = logLevel\<rparr>)))))))))"

subsection \<open>Intervals\<close>

lemma nearest_even_nat: "nearest_even (of_nat n) = n"
  by (simp add: nearest_even_def)

lemma binary64_nonneg: "0 \<le> binary64 q"
  by (simp add: binary64_def Let_def)

lemma binary64_integer:
  assumes "n < 2 ^ 53"
  shows "binary64 (of_nat n) = of_nat n"
proof -
  define surplus where "surplus = floorlog 2 (n * 2 ^ SUBNORMAL_SCALE) - 53"
  have "n * 2 ^ SUBNORMAL_SCALE < 2 ^ (53 + SUBNORMAL_SCALE)" using assms by (simp add: power_add)
  then have "floorlog 2 (n * 2 ^ SUBNORMAL_SCALE) \<le> 53 + SUBNORMAL_SCALE" by (intro floorlog_leI) simp_all
  then have "surplus \<le> SUBNORMAL_SCALE" by (simp add: surplus_def)
  then obtain k where k: "SUBNORMAL_SCALE = k + surplus" by (metis add.commute le_add_diff_inverse)
  have scaled: "(of_nat n :: rat) * 2 ^ SUBNORMAL_SCALE = of_nat (n * 2 ^ SUBNORMAL_SCALE)" by simp
  have floor: "nat \<lfloor>(of_nat n :: rat) * 2 ^ SUBNORMAL_SCALE\<rfloor> = n * 2 ^ SUBNORMAL_SCALE"
    unfolding scaled floor_of_nat by (rule nat_int)
  have part: "(of_nat n :: rat) * 2 ^ SUBNORMAL_SCALE / 2 ^ surplus = of_nat (n * 2 ^ k)"
    by (simp add: k power_add)
  have "binary64 (of_nat n) = of_nat (nearest_even (of_nat (n * 2 ^ k))) * 2 ^ surplus / 2 ^ SUBNORMAL_SCALE"
    by (simp only: binary64_def floor part surplus_def [symmetric] Let_def)
  also have "\<dots> = of_nat n" unfolding nearest_even_nat by (simp add: k power_add)
  finally show ?thesis .
qed

lemma to_binary64_integer:
  assumes "n < 2 ^ 53"
  shows "to_binary64 (of_nat n) = Fin (of_nat n)"
proof -
  have "rat_of_nat n < 2 ^ 53" using assms by (metis of_nat_less_iff of_nat_numeral of_nat_power)
  then have "\<not> 2 ^ 1024 - 2 ^ 970 \<le> \<bar>rat_of_nat n\<bar>" by simp
  then show ?thesis by (simp add: to_binary64_def binary64_integer [OF assms] del: abs_of_nat)
qed

lemma decimal_literal_digits:
  "s \<noteq> [] \<Longrightarrow> list_all is_digit s \<Longrightarrow> decimal_literal s = Some (of_nat (decimal_value s))"
proof -
  assume s: "s \<noteq> []" "list_all is_digit s"
  then have whole: "takeWhile is_digit s = s" and rest: "dropWhile is_digit s = []"
    unfolding takeWhile_eq_all_conv dropWhile_eq_Nil_conv by (simp_all add: list_all_iff)
  show ?thesis
    unfolding decimal_literal_def whole rest Let_def using s(1) by simp
qed

lemma string_to_number_digits:
  assumes "n < 2 ^ 53"
  shows "string_to_number (decimal_string n) = Fin (of_nat n)"
proof -
  let ?s = "decimal_string n"
  have dig: "list_all is_digit ?s" by (rule decimal_string_all_digits)
  then have trim: "js_trim ?s = ?s" by (intro js_trim_plain digits_not_spaces)
  obtain c cs where c: "?s = c # cs" by (cases ?s) simp_all
  then have digits: "is_digit c" "list_all is_digit cs" using dig by simp_all
  then have sign: "signed_digits ?s = (False, ?s)" and inf: "?s \<noteq> ''Infinity''"
    using c by (auto simp: signed_digits_def is_digit_def)
  have radix: "\<not> (c' \<in> {CHR ''x'', CHR ''X''})" "\<not> (c' \<in> {CHR ''o'', CHR ''O''})" "\<not> (c' \<in> {CHR ''b'', CHR ''B''})"
    if "cs = c' # cs'" for c' cs'
    using digits(2) that by (auto simp: is_digit_def)
  have "decimal_literal ?s = Some (of_nat n)"
    using decimal_literal_digits [OF _ dig] decimal_value_string [of n] by simp
  then show ?thesis
    using trim sign inf radix to_binary64_integer [OF assms] unfolding c
    by (cases cs) (simp_all add: string_to_number_def)
qed

lemma interval_valid:
  assumes "isValidIntervalSeconds x"
  obtains k where "js_times x 1000 = Fin (of_nat k)" "k \<le> MAX_TIMER_MS"
proof -
  from assms obtain q where q: "x = Fin q" "0 \<le> q" by (cases x) auto
  with assms obtain r where r: "js_times x 1000 = Fin r" "r = of_int \<lfloor>r\<rfloor>" "\<lfloor>r\<rfloor> \<le> int MAX_TIMER_MS"
    by (cases "js_times x 1000") auto
  have "0 \<le> r"
    using q r(1) binary64_nonneg [of "q * 1000"] by (auto simp: to_binary64_def split: if_splits)
  then have "r = of_nat (nat \<lfloor>r\<rfloor>)" using r(2) by simp
  with r show thesis by (intro that [of "nat \<lfloor>r\<rfloor>"]) auto
qed

lemma interval_seconds:
  assumes "n \<le> 2147483"
  shows "isValidIntervalSeconds (Fin (of_nat n))" and "js_times (Fin (of_nat n)) 1000 = Fin (of_nat (n * 1000))"
proof -
  have "n * 1000 < 2 ^ 53" using assms by simp
  then have "to_binary64 (of_nat (n * 1000)) = Fin (of_nat (n * 1000))" by (rule to_binary64_integer)
  then show times: "js_times (Fin (of_nat n)) 1000 = Fin (of_nat (n * 1000))" by simp
  have "rat_of_nat (n * 1000) \<le> rat_of_nat 2147483000" using assms by (simp only: of_nat_le_iff)
  moreover have "\<lfloor>rat_of_nat (n * 1000)\<rfloor> = int (n * 1000)" by (rule floor_of_nat)
  ultimately show "isValidIntervalSeconds (Fin (of_nat n))"
    unfolding isValidIntervalSeconds.simps times isSafeInteger.simps is_js_integer.simps js_int.simps
    using assms by (simp add: MAX_TIMER_MS_def)
qed

lemma interval_text:
  assumes "n \<le> 2147483"
  shows "parseIntervalSeconds (decimal_string n) helpText = Inr (Fin (of_nat (n * 1000)))"
proof -
  have "string_to_number (decimal_string n) = Fin (of_nat n)"
    using assms by (intro string_to_number_digits) simp
  then show ?thesis using interval_seconds [OF assms] by (simp add: parseIntervalSeconds_def del: isValidIntervalSeconds.simps js_times.simps)
qed

lemma config_interval_valid:
  assumes "readConfigFile file = Inr config" and "cfg_interval config = Some x"
  shows "isValidIntervalSeconds x"
proof -
  obtain v where "config_field v ''interval'' requireConfigInterval = Inr (Some x)"
    using assms by (auto simp: readConfigFile_def cbind_Inr split: file_content.splits if_splits)
  then show ?thesis
    by (auto simp: config_field_def requireConfigInterval_def split: option.splits json.splits if_splits)
qed

subsection \<open>A quotient, rounded\<close>

lemma floorlog_between: "2 ^ k \<le> n \<Longrightarrow> n < 2 ^ Suc k \<Longrightarrow> floorlog 2 n = Suc k"
  using floorlog_leI [of n 2 "Suc k"] floorlog_ge_SucI [of 2 k n] by simp

lemma nearest_even_quotient:
  assumes "0 < d"
  shows "nearest_even (of_nat n / of_nat d) = round_half_even n d"
proof -
  have f: "\<lfloor>rat_of_nat n / rat_of_nat d\<rfloor> = int (n div d)" by (rule floor_divide_of_nat_eq)
  have "rat_of_nat n = rat_of_nat (n div d * d + n mod d)" by simp
  then have "rat_of_nat n = rat_of_nat (n div d) * rat_of_nat d + rat_of_nat (n mod d)"
    unfolding of_nat_add of_nat_mult .
  then have r: "rat_of_nat n / rat_of_nat d - of_int (int (n div d)) = rat_of_nat (n mod d) / rat_of_nat d"
    using assms by (simp add: field_simps)
  have below: "rat_of_nat (n mod d) / rat_of_nat d < 1 / 2 \<longleftrightarrow> 2 * (n mod d) < d"
  proof -
    have "rat_of_nat (n mod d) / rat_of_nat d < 1 / 2 \<longleftrightarrow> rat_of_nat (2 * (n mod d)) < rat_of_nat d"
      using assms by (simp add: field_simps)
    then show ?thesis by (simp only: of_nat_less_iff)
  qed
  have above: "1 / 2 < rat_of_nat (n mod d) / rat_of_nat d \<longleftrightarrow> d < 2 * (n mod d)"
  proof -
    have "1 / 2 < rat_of_nat (n mod d) / rat_of_nat d \<longleftrightarrow> rat_of_nat d < rat_of_nat (2 * (n mod d))"
      using assms by (simp add: field_simps)
    then show ?thesis by (simp only: of_nat_less_iff)
  qed
  show ?thesis
    unfolding nearest_even_def f Let_def r below above round_half_even_def by (simp add: nat_add_distrib)
qed

lemma round_half_even_cancel: "0 < c \<Longrightarrow> round_half_even (n * c) (d * c) = round_half_even n d"
  by (simp add: round_half_even_def Let_def mult_mod_left [symmetric] mult.assoc [symmetric])

lemma binary64_quotient:
  assumes d: "0 < d" and lo: "2 ^ j * d \<le> n" and hi: "n < 2 ^ Suc j * d" and j: "j \<le> 52"
  shows "binary64 (of_nat n / of_nat d) = of_nat (round_half_even (n * 2 ^ (52 - j)) d) / 2 ^ (52 - j)"
proof -
  let ?S = SUBNORMAL_SCALE
  define k where "k = ?S + j - 52"
  have S: "?S = 52 - j + k" and k: "?S + j + 1 - 53 = k" using j by (simp_all add: k_def SUBNORMAL_SCALE_def)
  have "rat_of_nat n / rat_of_nat d * 2 ^ ?S = rat_of_nat (n * 2 ^ ?S) / rat_of_nat d" by simp
  then have floor: "nat \<lfloor>rat_of_nat n / rat_of_nat d * 2 ^ ?S\<rfloor> = n * 2 ^ ?S div d"
    by (simp only: floor_divide_of_nat_eq nat_int)
  have "2 ^ (?S + j) * d \<le> n * 2 ^ ?S" using lo by (simp add: power_add)
  moreover have "n * 2 ^ ?S < 2 ^ Suc (?S + j) * d" using hi by (simp add: power_add)
  ultimately have "floorlog 2 (n * 2 ^ ?S div d) = Suc (?S + j)"
    using d by (intro floorlog_between) (simp_all add: less_eq_div_iff_mult_less_eq div_less_iff_less_mult)
  then have log: "floorlog 2 (n * 2 ^ ?S div d) - 53 = k" using k by simp
  have "rat_of_nat n / rat_of_nat d * 2 ^ ?S / 2 ^ k = rat_of_nat (n * 2 ^ (52 - j)) / rat_of_nat d"
    by (simp add: S power_add)
  then have "binary64 (of_nat n / of_nat d) = of_nat (round_half_even (n * 2 ^ (52 - j)) d) * 2 ^ k / 2 ^ ?S"
    by (simp only: binary64_def floor log Let_def nearest_even_quotient [OF d])
  then show ?thesis by (simp add: S power_add)
qed

lemma decimal_1001: "to_binary64 (1001 / 1000) = Fin (2254051613498933 / 2251799813685248)"
proof -
  have "binary64 (of_nat 1001 / of_nat 1000) = 2254051613498933 / 2251799813685248"
    by (subst binary64_quotient [of _ 0]) (simp_all add: round_half_even_def)
  then show ?thesis by (simp add: to_binary64_def)
qed

lemma decimal_1001_times: "to_binary64 (2254051613498933 / 2251799813685248 * 1000) = Fin (8804889115230207/8796093022208)"
proof -
  have "binary64 (of_nat 2254051613498933000 / of_nat 2251799813685248) = 8804889115230207/8796093022208"
    by (subst binary64_quotient [of _ 9]) (simp_all add: round_half_even_def)
  then show ?thesis by (simp add: to_binary64_def)
qed

subsection \<open>Properties\<close>

text \<open>
  An interval that is accepted is a whole number of milliseconds that fits a timer, from the
  command line as well as from the file, and every whole number of seconds that fits is accepted
  and converted exactly.
\<close>

theorem interval_is_safe:
  "(parseIntervalSeconds raw helpText = Inr ms \<longrightarrow> (\<exists>k \<le> MAX_TIMER_MS. ms = Fin (of_nat k))) \<and>
   (readConfigFile file = Inr config \<and> cfg_interval config = Some x \<longrightarrow>
      (\<exists>k \<le> MAX_TIMER_MS. js_times x 1000 = Fin (of_nat k))) \<and>
   (n \<le> 2147483 \<longrightarrow> parseIntervalSeconds (decimal_string n) helpText = Inr (Fin (of_nat (n * 1000))))"
proof -
  have "\<exists>k \<le> MAX_TIMER_MS. ms = Fin (of_nat k)" if "parseIntervalSeconds raw helpText = Inr ms"
    using that interval_valid [of "string_to_number raw"]
    by (auto simp: parseIntervalSeconds_def Let_def split: if_splits)
  moreover have "\<exists>k \<le> MAX_TIMER_MS. js_times x 1000 = Fin (of_nat k)"
    if "readConfigFile file = Inr config" "cfg_interval config = Some x"
  proof -
    have "isValidIntervalSeconds x" using that by (rule config_interval_valid)
    then show ?thesis using interval_valid [of x] by blast
  qed
  ultimately show ?thesis using interval_text by blast
qed

theorem interval_is_safe_witness:
  "parseIntervalSeconds (decimal_string 30) [] = Inr (Fin 30000) \<and> (\<exists>k \<le> MAX_TIMER_MS. Fin 30000 = Fin (of_nat k))"
proof -
  have "parseIntervalSeconds (decimal_string 30) [] = Inr (Fin 30000)"
    using interval_is_safe [where n = 30 and helpText = "[]"] by simp
  then show ?thesis using interval_is_safe by blast
qed

text \<open>
  An interval of 1001 milliseconds is refused: \<open>1.001 * 1000\<close> is not 1001 in binary64.
\<close>

theorem millisecond_interval_refused:
  "parseIntervalSeconds ''1.001'' helpText = Inl (UsageError helpText)"
proof -
  have "decimal_literal ''1.001'' = Some (1001 / 1000)"
    by (simp add: decimal_literal_def is_digit_def decimal_value_def)
  moreover have "js_trim ''1.001'' = ''1.001''" by code_simp
  ultimately have number: "string_to_number ''1.001'' = Fin (2254051613498933 / 2251799813685248)"
    using decimal_1001 by (simp add: string_to_number_def signed_digits_def)
  have "\<lfloor>8804889115230207 / 8796093022208 :: rat\<rfloor> = 1000" by (rule floor_unique) simp_all
  then have "\<not> is_js_integer (Fin (8804889115230207 / 8796093022208))" by simp
  then show ?thesis
    unfolding parseIntervalSeconds_def number Let_def isValidIntervalSeconds.simps js_times.simps
      decimal_1001_times isSafeInteger.simps by simp
qed

end
