(* ===== verification/CliMain.thy ===== *)
theory CliMain
  imports CliConfig Bridge
begin

text \<open>
  The command line of the bridge (\<open>cli/bluetti-mqtt.ts\<close>): the loop over the arguments, the merge
  with the configuration file, the TLS files, and the checks before the server is built; and the
  exit codes and signal handling of \<open>cli/process.ts\<close>. The files are arguments, and so is the
  help text.
\<close>

subsection \<open>Flags\<close>

record cli_flags =
  f_addresses :: "string list"
  f_broker :: "string option"
  f_username :: "string option"
  f_password :: "string option"
  f_ca :: "string option"
  f_cert :: "string option"
  f_key :: "string option"
  f_servername :: "string option"
  f_rejectUnauthorized :: "bool option"
  f_intervalMs :: jsnum
  f_runOnce :: bool
  f_help :: bool
  f_config :: "string option"
  f_logLevel :: log_level

definition no_flags :: cli_flags where
  "no_flags = \<lparr>f_addresses = [], f_broker = None, f_username = None, f_password = None, f_ca = None,
     f_cert = None, f_key = None, f_servername = None, f_rejectUnauthorized = None, f_intervalMs = Fin 0,
     f_runOnce = False, f_help = False, f_config = None, f_logLevel = Info\<rparr>"

text \<open>One turn of the loop: the new flags, and whether the next argument was used as a value.\<close>

definition with_value :: "string list \<Rightarrow> nat \<Rightarrow> string \<Rightarrow> (string \<Rightarrow> cli_flags cli_result) \<Rightarrow> (cli_flags \<times> bool) cli_result" where
  "with_value argv index helpText set_flag =
     cbind (requireValue argv index helpText) (\<lambda>v. cbind (set_flag v) (\<lambda>f. Inr (f, True)))"

definition parse_token :: "string \<Rightarrow> string list \<Rightarrow> nat \<Rightarrow> cli_flags \<Rightarrow> (cli_flags \<times> bool) cli_result" where
  "parse_token helpText argv index f =
     (let token = argv ! index; takes = with_value argv index helpText
      in if token = ''-h'' \<or> token = ''--help'' then Inr (f\<lparr>f_help := True\<rparr>, False)
         else if token = ''--broker'' then takes (\<lambda>v. Inr (f\<lparr>f_broker := Some v\<rparr>))
         else if token = ''--config'' then takes (\<lambda>v. Inr (f\<lparr>f_config := Some v\<rparr>))
         else if token = ''--username'' then takes (\<lambda>v. Inr (f\<lparr>f_username := Some v\<rparr>))
         else if token = ''--password'' then takes (\<lambda>v. Inr (f\<lparr>f_password := Some v\<rparr>))
         else if token = ''--mqtt-ca'' then takes (\<lambda>v. Inr (f\<lparr>f_ca := Some v\<rparr>))
         else if token = ''--mqtt-cert'' then takes (\<lambda>v. Inr (f\<lparr>f_cert := Some v\<rparr>))
         else if token = ''--mqtt-key'' then takes (\<lambda>v. Inr (f\<lparr>f_key := Some v\<rparr>))
         else if token = ''--mqtt-servername'' then takes (\<lambda>v. Inr (f\<lparr>f_servername := Some v\<rparr>))
         else if token = ''--mqtt-insecure'' then Inr (f\<lparr>f_rejectUnauthorized := Some False\<rparr>, False)
         else if token = ''--interval''
         then takes (\<lambda>v. cbind (parseIntervalSeconds v helpText) (\<lambda>ms. Inr (f\<lparr>f_intervalMs := ms\<rparr>)))
         else if token = ''--log-level''
         then takes (\<lambda>v. cbind (parseLogLevel v helpText) (\<lambda>l. Inr (f\<lparr>f_logLevel := l\<rparr>)))
         else if token = ''--once'' then Inr (f\<lparr>f_runOnce := True\<rparr>, False)
         else if token = [] then Inr (f, False)
         else cbind (validateBluetoothAddress token) (\<lambda>a. Inr (f\<lparr>f_addresses := f_addresses f @ [a]\<rparr>, False)))"

function parse_tokens :: "string \<Rightarrow> string list \<Rightarrow> nat \<Rightarrow> cli_flags \<Rightarrow> cli_flags cli_result" where
  "parse_tokens helpText argv index f =
     (if index < length argv
      then (case parse_token helpText argv index f of
              Inl e \<Rightarrow> Inl e
            | Inr (f, used) \<Rightarrow> parse_tokens helpText argv (if used then index + 2 else index + 1) f)
      else Inr f)"
  by pat_completeness auto
termination by (relation "measure (\<lambda>(_, argv, index, _). length argv - index)") auto

declare parse_tokens.simps [simp del]

subsection \<open>Configuration and TLS files\<close>

fun or_else :: "'a option \<Rightarrow> 'a option \<Rightarrow> 'a option" where
  "or_else (Some x) y = Some x"
| "or_else None y = y"

fun validate_all :: "string list \<Rightarrow> string list cli_result" where
  "validate_all [] = Inr []"
| "validate_all (a # as) =
     cbind (validateBluetoothAddress a) (\<lambda>b. cbind (validate_all as) (\<lambda>bs. Inr (b # bs)))"

fun positive :: "jsnum \<Rightarrow> bool" where
  "positive (Fin q) = (0 < q)"
| "positive PosInf = True"
| "positive _ = False"

definition tls_field :: "cli_config_file \<Rightarrow> (cli_tls_config \<Rightarrow> 'a option) \<Rightarrow> 'a option" where
  "tls_field config get = (case cfg_tls config of None \<Rightarrow> None | Some tls \<Rightarrow> get tls)"

definition merge_config :: "string \<Rightarrow> cli_config_file \<Rightarrow> cli_flags \<Rightarrow> cli_flags cli_result" where
  "merge_config helpText config f =
     (let f = f\<lparr>f_broker := or_else (f_broker f) (cfg_broker config),
                f_username := or_else (f_username f) (cfg_username config),
                f_password := or_else (f_password f) (cfg_password config),
                f_ca := or_else (f_ca f) (tls_field config caPath),
                f_cert := or_else (f_cert f) (tls_field config certPath),
                f_key := or_else (f_key f) (tls_field config keyPath),
                f_servername := or_else (f_servername f) (tls_field config servername),
                f_rejectUnauthorized := or_else (f_rejectUnauthorized f) (tls_field config rejectUnauthorized)\<rparr>
      in cbind (if positive (f_intervalMs f) then Inr (f_intervalMs f)
                else parseIntervalSeconds
                       (jsnum_text (case cfg_interval config of None \<Rightarrow> Fin 0 | Some x \<Rightarrow> x)) helpText) (\<lambda>ms.
         let f = f\<lparr>f_intervalMs := ms, f_runOnce := (f_runOnce f \<or> cfg_once config = Some True),
                   f_logLevel := (if f_logLevel f \<noteq> Info then f_logLevel f
                                  else case cfg_logLevel config of None \<Rightarrow> Info | Some l \<Rightarrow> l)\<rparr>
         in case cfg_addresses config of
              Some as \<Rightarrow> if f_addresses f = [] then cbind (validate_all as) (\<lambda>bs. Inr (f\<lparr>f_addresses := bs\<rparr>)) else Inr f
            | None \<Rightarrow> Inr f))"

definition readTlsFile :: "(string \<Rightarrow> string option) \<Rightarrow> string option \<Rightarrow> string \<Rightarrow> string option cli_result" where
  "readTlsFile files path field =
     (case path of
        None \<Rightarrow> Inr None
      | Some p \<Rightarrow> (case files p of
            None \<Rightarrow> Inl (UsageError (''Failed to read MQTT TLS file: '' @ field)) | Some pem \<Rightarrow> Inr (Some pem)))"

definition buildMqttTlsOptions :: "(string \<Rightarrow> string option) \<Rightarrow> cli_flags \<Rightarrow> tls_options option cli_result" where
  "buildMqttTlsOptions files f =
     cbind (readTlsFile files (f_ca f) ''CA'') (\<lambda>ca.
     cbind (readTlsFile files (f_cert f) ''client certificate'') (\<lambda>cert.
     cbind (readTlsFile files (f_key f) ''client key'') (\<lambda>key.
     Inr (if ca = None \<and> cert = None \<and> key = None \<and> f_rejectUnauthorized f = None \<and> f_servername f = None then None
          else Some \<lparr>tls_ca = ca, tls_cert = cert, tls_key = key,
                     tls_rejectUnauthorized = f_rejectUnauthorized f, tls_servername = f_servername f\<rparr>))))"

record parsed_args =
  a_flags :: cli_flags
  a_tls :: "tls_options option"

definition parseArgs ::
  "(string \<Rightarrow> file_content) \<Rightarrow> (string \<Rightarrow> string option) \<Rightarrow> string \<Rightarrow> string list \<Rightarrow> parsed_args cli_result" where
  "parseArgs configs files helpText argv =
     cbind (parse_tokens helpText argv 0 no_flags) (\<lambda>f.
     cbind (case f_config f of
              None \<Rightarrow> Inr f
            | Some path \<Rightarrow> cbind (readConfigFile (configs path)) (\<lambda>config. merge_config helpText config f)) (\<lambda>f.
     cbind (buildMqttTlsOptions files f) (\<lambda>tls.
     Inr \<lparr>a_flags = f, a_tls = tls\<rparr>)))"

text \<open>\<open>main\<close> up to the construction of the server: the options it is built with.\<close>

definition main_options ::
  "(string \<Rightarrow> file_content) \<Rightarrow> (string \<Rightarrow> string option) \<Rightarrow> string \<Rightarrow> string list \<Rightarrow>
     (cli_flags \<times> mqtt_client_options) cli_result" where
  "main_options configs files helpText argv =
     cbind (parseArgs configs files helpText argv) (\<lambda>args.
     let f = a_flags args
     in if f_help f then Inl (HelpError helpText)
        else (case f_broker f of
                None \<Rightarrow> Inl (UsageError helpText)
              | Some url \<Rightarrow>
                  if url = [] \<or> f_addresses f = [] then Inl (UsageError helpText)
                  else Inr (f, \<lparr>mqtt_url = url, mqtt_username = f_username f, mqtt_password = f_password f,
                                mqtt_tls = a_tls args\<rparr>)))"

subsection \<open>The process (process.ts)\<close>

text \<open>\<open>runCli\<close>: where the message of an error goes, and the exit code.\<close>

fun cli_exit :: "cli_error \<Rightarrow> log_stream \<times> string \<times> nat" where
  "cli_exit (HelpError m) = (Stdout, m, 0)"
| "cli_exit (UsageError m) = (Stderr, m, 1)"
| "cli_exit (OtherError e) = (Stderr, error_message e, 1)"

record signal_handlers =
  stopping :: bool
  handlers_installed :: bool
  stop_calls :: nat

definition installSignalHandlers :: signal_handlers where
  "installSignalHandlers = \<lparr>stopping = False, handlers_installed = True, stop_calls = 0\<rparr>"

definition signal_received :: "signal_handlers \<Rightarrow> signal_handlers" where
  "signal_received s =
     (if \<not> handlers_installed s then s
      else if stopping s then s
      else s\<lparr>stopping := True, stop_calls := stop_calls s + 1\<rparr>)"

definition remove_handlers :: "signal_handlers \<Rightarrow> signal_handlers" where
  "remove_handlers s = s\<lparr>handlers_installed := False\<rparr>"

subsection \<open>What the options satisfy\<close>

text \<open>Addresses in normal form and an interval that is safe for a timer.\<close>

definition sound_flags :: "cli_flags \<Rightarrow> bool" where
  "sound_flags f \<longleftrightarrow> list_all MAC_COLON_PATTERN (f_addresses f) \<and>
     (\<exists>k \<le> MAX_TIMER_MS. f_intervalMs f = Fin (of_nat k))"

lemma parsed_interval: "parseIntervalSeconds v h = Inr ms \<Longrightarrow> \<exists>k \<le> MAX_TIMER_MS. ms = Fin (of_nat k)"
  using interval_valid [of "string_to_number v"]
  by (auto simp: parseIntervalSeconds_def Let_def split: if_splits)

lemma with_value_Inr:
  "with_value argv index h g = Inr r \<longleftrightarrow> (\<exists>v f. requireValue argv index h = Inr v \<and> g v = Inr f \<and> r = (f, True))"
  by (auto simp: with_value_def cbind_Inr)

lemma parse_token_sound:
  assumes "parse_token h argv index f = Inr (f', used)" and "sound_flags f"
  shows "sound_flags f'"
  using assms parsed_interval validated_canonical(1)
  by (auto simp: parse_token_def Let_def with_value_Inr cbind_Inr sound_flags_def split: if_splits)

lemma parse_tokens_sound: "parse_tokens h argv index f = Inr f' \<Longrightarrow> sound_flags f \<Longrightarrow> sound_flags f'"
proof (induction h argv index f rule: parse_tokens.induct)
  case (1 h argv index f)
  then show ?case
    using parse_token_sound [of h argv index f]
    by (cases "index < length argv")
       (auto simp: parse_tokens.simps [of h argv index] split: sum.splits prod.splits)
qed

lemma validate_all_sound: "validate_all as = Inr bs \<Longrightarrow> list_all MAC_COLON_PATTERN bs"
  by (induction as arbitrary: bs) (auto simp: cbind_Inr validated_canonical(1))

lemma merge_config_sound:
  assumes "merge_config h config f = Inr f'" and "sound_flags f"
  shows "sound_flags f'"
  using assms parsed_interval validate_all_sound
  by (auto simp: merge_config_def Let_def cbind_Inr sound_flags_def split: if_splits option.splits)

lemma no_flags_sound: "sound_flags no_flags"
  by (auto simp: sound_flags_def no_flags_def intro: exI [of _ 0])

lemma parseArgs_flags:
  assumes "parseArgs configs files h argv = Inr args"
  obtains f where "parse_tokens h argv 0 no_flags = Inr f"
    "case f_config f of None \<Rightarrow> a_flags args = f
     | Some path \<Rightarrow> (\<exists>config. readConfigFile (configs path) = Inr config \<and> merge_config h config f = Inr (a_flags args))"
  using assms by (auto simp: parseArgs_def cbind_Inr split: option.splits)

subsection \<open>Properties\<close>

text \<open>
  C16: whatever the arguments, the configuration and the files are, the options the server is
  built with are sound: a broker, at least one address, every address in the one normal form,
  and an interval that is a whole number of milliseconds a timer can take.
\<close>

theorem server_options_sound:
  assumes "main_options configs files helpText argv = Inr (f, mqtt)"
  shows "f_addresses f \<noteq> [] \<and> (\<forall>a \<in> set (f_addresses f). MAC_COLON_PATTERN a) \<and>
    (\<exists>k \<le> MAX_TIMER_MS. f_intervalMs f = Fin (of_nat k)) \<and> mqtt_url mqtt \<noteq> [] \<and> f_broker f = Some (mqtt_url mqtt)"
proof -
  obtain args where args: "parseArgs configs files helpText argv = Inr args" "f = a_flags args"
      "f_broker f = Some (mqtt_url mqtt)" "mqtt_url mqtt \<noteq> []" "f_addresses f \<noteq> []"
    using assms by (auto simp: main_options_def cbind_Inr Let_def split: if_splits option.splits)
  obtain g where "parse_tokens helpText argv 0 no_flags = Inr g"
    and merge: "case f_config g of None \<Rightarrow> a_flags args = g
     | Some path \<Rightarrow> (\<exists>config. readConfigFile (configs path) = Inr config \<and> merge_config helpText config g = Inr (a_flags args))"
    using parseArgs_flags [OF args(1)] .
  then have "sound_flags g" using parse_tokens_sound no_flags_sound by blast
  then have "sound_flags f" using merge merge_config_sound args(2) by (auto split: option.splits)
  then show ?thesis using args by (simp add: sound_flags_def list_all_iff)
qed

definition sample_argv :: "string list" where
  "sample_argv = [''--broker'', ''mqtt://b'', ''244CAB2C248E'', ''--config'', ''c'', ''--log-level'', ''info'',
     ''--interval'', decimal_string 0]"

definition sample_config :: "string \<Rightarrow> file_content" where
  "sample_config path = Parsed (JObj [(''interval'', JNum (Fin 5)), (''logLevel'', JStr ''debug'')])"

lemma sample_flags:
  "parse_tokens h sample_argv 0 no_flags = Inr (no_flags\<lparr>f_addresses := [''24:4C:AB:2C:24:8E''],
     f_broker := Some ''mqtt://b'', f_config := Some ''c''\<rparr>)"
proof -
  have address: "validateBluetoothAddress ''244CAB2C248E'' = Inr ''24:4C:AB:2C:24:8E''"
    by code_simp
  have zero: "decimal_string 0 = ''0''" by code_simp
  then have "parseIntervalSeconds ''0'' h = Inr (Fin 0)" using interval_text [of 0 h] by simp
  then show ?thesis
    using address zero
    by (simp add: sample_argv_def parse_tokens.simps parse_token_def with_value_def requireValue_def js_get_def
        parseLogLevel_def no_flags_def Let_def)
qed

lemma sample_merged:
  "cbind (readConfigFile (sample_config path)) (\<lambda>config. merge_config h config
     (no_flags\<lparr>f_addresses := [''24:4C:AB:2C:24:8E''], f_broker := Some ''mqtt://b'', f_config := Some ''c''\<rparr>)) =
   Inr (no_flags\<lparr>f_addresses := [''24:4C:AB:2C:24:8E''], f_broker := Some ''mqtt://b'', f_config := Some ''c'',
     f_intervalMs := Fin 5000, f_logLevel := Debug\<rparr>)"
proof -
  have "js_number_text (of_nat 5) = decimal_string 5" by (rule integer_number_text) simp
  then have five: "js_number_text 5 = decimal_string 5" by simp
  have "isValidIntervalSeconds (Fin (of_nat 5))" by (rule interval_seconds) simp
  then have valid: "isValidIntervalSeconds (Fin 5)" by (simp only: of_nat_numeral)
  have "parseIntervalSeconds (decimal_string 5) h = Inr (Fin (of_nat (5 * 1000)))" by (rule interval_text) simp
  then have ms: "parseIntervalSeconds (decimal_string 5) h = Inr (Fin 5000)" by simp
  show ?thesis
    by (simp add: sample_config_def readConfigFile_def config_field_def json_prop_def requireConfigInterval_def
        requireConfigLogLevel_def parseLogLevel_def valid merge_config_def five ms tls_field_def no_flags_def Let_def
        del: isValidIntervalSeconds.simps)
qed

lemma no_flags_simps:
  "f_ca no_flags = None" "f_cert no_flags = None" "f_key no_flags = None" "f_servername no_flags = None"
  "f_rejectUnauthorized no_flags = None" "f_help no_flags = False"
  by (simp_all add: no_flags_def)

lemma sample_parsed:
  "parseArgs sample_config files h sample_argv = Inr \<lparr>a_flags = no_flags\<lparr>f_addresses := [''24:4C:AB:2C:24:8E''],
     f_broker := Some ''mqtt://b'', f_config := Some ''c'', f_intervalMs := Fin 5000, f_logLevel := Debug\<rparr>, a_tls = None\<rparr>"
  by (simp add: parseArgs_def sample_flags sample_merged buildMqttTlsOptions_def readTlsFile_def no_flags_simps)

theorem server_options_sound_witness:
  "\<exists>f mqtt. main_options sample_config (\<lambda>p. None) [] sample_argv = Inr (f, mqtt) \<and> f_addresses f = [''24:4C:AB:2C:24:8E''] \<and>
     (\<forall>a \<in> set (f_addresses f). MAC_COLON_PATTERN a)"
proof -
  obtain f mqtt where run: "main_options sample_config (\<lambda>p. None) [] sample_argv = Inr (f, mqtt)"
      "f_addresses f = [''24:4C:AB:2C:24:8E'']"
    by (simp add: main_options_def sample_parsed no_flags_simps)
  with server_options_sound [OF run(1)] show ?thesis by blast
qed

text \<open>
  Flags do not always take precedence over the file: an explicit \<open>--log-level info\<close> or
  \<open>--interval 0\<close> is taken for an absent flag, and the values of the file are used.
\<close>

theorem explicit_defaults_overridden:
  "\<exists>args. parseArgs sample_config files helpText sample_argv = Inr args \<and>
     f_logLevel (a_flags args) = Debug \<and> f_intervalMs (a_flags args) = Fin 5000"
  by (simp add: sample_parsed)

end
