(* ===== verification/CliDevice.thy ===== *)
theory CliDevice
  imports Connect Payload HelperClient
begin

text \<open>
  The command-line tools' work with one device: \<open>withConnectedDevice\<close> and \<open>runPollingCommands\<close>
  (\<open>cli/shared.ts\<close>), and the report of \<open>cli/poll.ts\<close> with its own \<open>normalizeValue\<close>
  (\<open>cli/args.ts\<close>). The work on the connected device is a parameter, as in the code.
\<close>

subsection \<open>A connected device\<close>

record 'e cli_client =
  cleanupComplete :: bool
  helper_disposed :: bool
  cli_env :: 'e

definition new_cli_client :: "'e \<Rightarrow> 'e cli_client" where
  "new_cli_client e = \<lparr>cleanupComplete = False, helper_disposed = False, cli_env = e\<rparr>"

text \<open>The inner function \<open>cleanup\<close>: the transport when there is one, then the helper.\<close>

definition cleanup :: "'e transport_ops \<Rightarrow> nat option \<Rightarrow> bool \<Rightarrow> 'e cli_client \<Rightarrow> unit result \<times> 'e cli_client" where
  "cleanup ops transport reportDisconnectError s =
     (if cleanupComplete s then (Inr (), s)
      else (let s = s\<lparr>cleanupComplete := True\<rparr>
            in case transport of
                 None \<Rightarrow> (Inr (), s\<lparr>helper_disposed := True\<rparr>)
               | Some h \<Rightarrow>
                   (case op_disconnect ops h (cli_env s) of
                      (Inl err, e) \<Rightarrow>
                        if reportDisconnectError then (Inl err, s\<lparr>cli_env := e\<rparr>)
                        else (Inr (), s\<lparr>cli_env := e, helper_disposed := True\<rparr>)
                    | (Inr _, e) \<Rightarrow> (Inr (), s\<lparr>cli_env := e, helper_disposed := True\<rparr>))))"

text \<open>The \<open>try\<close> block up to the result of the work.\<close>

definition connected_work ::
  "'e transport_ops \<Rightarrow> nat \<Rightarrow> string \<Rightarrow> (bluetti_device \<Rightarrow> world \<times> 'e \<Rightarrow> 'a result \<times> world \<times> 'e) \<Rightarrow> 'e \<Rightarrow> 'a result \<times> 'e" where
  "connected_work ops h address work e =
     (case connectAndInitialize ops h address (new_DeviceSession, e) of
        (Inl err, w, e, _) \<Rightarrow> (Inl err, e)
      | (Inr _, w, e, _) \<Rightarrow>
          (case session_name (sess w) of
             None \<Rightarrow> (Inl (PlainError ''Connected device did not report a name''), e)
           | Some name \<Rightarrow>
               (case createDeviceFromAdvertisement address name of
                  Inl err \<Rightarrow> (Inl err, e)
                | Inr device \<Rightarrow> (case work device (w, e) of (r, w, e) \<Rightarrow> (r, e)))))"

definition withConnectedDevice ::
  "'e transport_ops \<Rightarrow> ('e \<Rightarrow> nat \<times> 'e) \<Rightarrow> string \<Rightarrow> (bluetti_device \<Rightarrow> world \<times> 'e \<Rightarrow> 'a result \<times> world \<times> 'e)
     \<Rightarrow> 'e \<Rightarrow> 'a result \<times> 'e cli_client" where
  "withConnectedDevice ops create address work e =
     (case create e of
        (h, e) \<Rightarrow>
          (case connected_work ops h address work e of
             (Inl err, e) \<Rightarrow> (Inl err, snd (cleanup ops (Some h) False (new_cli_client e)))
           | (Inr x, e) \<Rightarrow>
               (case cleanup ops (Some h) True (new_cli_client e) of
                  (Inl err, s) \<Rightarrow> (Inl err, snd (cleanup ops (Some h) False s))
                | (Inr _, s) \<Rightarrow> (Inr x, s))))"

subsection \<open>Reading the polling set\<close>

record poll_command_result =
  result_command :: command
  result_response :: bytes
  result_parsed :: parsed_field_map

fun runPollingCommands ::
  "('s \<Rightarrow> command \<Rightarrow> bytes result \<times> 's) \<Rightarrow> bluetti_device \<Rightarrow> command list \<Rightarrow> 's \<Rightarrow> poll_command_result list result \<times> 's" where
  "runPollingCommands perform device [] s = (Inr [], s)"
| "runPollingCommands perform device (c # cs) s =
     (case perform s c of
        (Inl err, s) \<Rightarrow> (Inl err, s)
      | (Inr response, s) \<Rightarrow>
          (case device_parse device (startingAddress c) (parseResponse c response) of
             Inl err \<Rightarrow> (Inl err, s)
           | Inr parsed \<Rightarrow>
               (case runPollingCommands perform device cs s of
                  (Inl err, s) \<Rightarrow> (Inl err, s)
                | (Inr rs, s) \<Rightarrow>
                    (Inr (\<lparr>result_command = c, result_response = response, result_parsed = parsed\<rparr> # rs), s))))"

text \<open>\<open>Object.assign({}, ...parsed)\<close>.\<close>

definition assign_all :: "('k \<times> 'v) list \<Rightarrow> ('k \<times> 'v) list \<Rightarrow> ('k \<times> 'v) list" where
  "assign_all m m' = foldl (\<lambda>m (k, v). obj_set k v m) m m'"

definition merged_results :: "poll_command_result list \<Rightarrow> parsed_field_map" where
  "merged_results rs = foldl assign_all [] (map result_parsed rs)"

subsection \<open>The report\<close>

text \<open>Numeric serial numbers become text as well; both records of the report are normalized this way.\<close>

definition cli_normalizeRecord :: "parsed_field_map \<Rightarrow> json" where
  "cli_normalizeRecord m = JObj (map (\<lambda>(k, v).
     (k, case v of
           VNum x \<Rightarrow> if k \<in> {''serial_number'', ''battery_serial_number''} then JStr (js_number_text x)
                     else normalizeValue v
         | _ \<Rightarrow> normalizeValue v)) m)"

definition command_report :: "poll_command_result \<Rightarrow> json" where
  "command_report r = JObj
     [(''startingAddress'', JNum (Fin (of_nat (startingAddress (result_command r))))),
      (''quantity'', JNum (Fin (of_nat (quantity (result_command r))))),
      (''responseBase64'', JStr (base64_encode (result_response r))),
      (''parsed'', cli_normalizeRecord (result_parsed r))]"

definition name_json :: "string option \<Rightarrow> json" where
  "name_json name = (case name of None \<Rightarrow> JNull | Some n \<Rightarrow> JStr n)"

definition poll_report :: "string \<Rightarrow> string option \<Rightarrow> bluetti_device \<Rightarrow> poll_command_result list \<Rightarrow> json" where
  "poll_report address deviceName device results = JObj
     [(''address'', JStr address), (''deviceName'', name_json deviceName), (''deviceType'', JStr (dev_type device)),
      (''commands'', JArr (map command_report results)),
      (''merged'', cli_normalizeRecord (merged_results results))]"

subsection \<open>What the tools guarantee\<close>

lemma map_of_assign_all: "map_of (assign_all m m') = map_of m ++ map_of (rev m')"
  by (induction m' arbitrary: m)
    (auto simp: assign_all_def fun_eq_iff map_add_def split: option.split)

lemma dom_assign_fold: "fst ` set (foldl assign_all m ms) = fst ` set m \<union> (\<Union>m' \<in> set ms. fst ` set m')"
proof (induction ms arbitrary: m)
  case (Cons m' ms)
  have "fst ` set (assign_all m m') = dom (map_of (assign_all m m'))" by (simp add: dom_map_of_conv_image_fst)
  also have "\<dots> = fst ` set m \<union> fst ` set m'" by (auto simp: map_of_assign_all dom_map_of_conv_image_fst)
  finally show ?case using Cons by auto
qed simp

lemma polling_results:
  assumes "d \<in> set BLUETTI_DEFINITIONS" and "dev = new_BluettiDeviceModel a sn d" and "set cs \<subseteq> set (all_commands d)"
    and "\<And>c s. c \<in> set cs \<Longrightarrow> \<exists>r s'. perform s c = (Inr r, s') \<and> isValidResponse c r"
  shows "\<exists>rs s'. runPollingCommands perform dev cs s = (Inr rs, s') \<and> map result_command rs = cs \<and>
    (\<forall>r \<in> set rs. isValidResponse (result_command r) (result_response r) \<and>
       device_parse dev (startingAddress (result_command r)) (parseResponse (result_command r) (result_response r)) =
         Inr (result_parsed r))"
  using assms(3,4)
proof (induction cs arbitrary: s)
  case (Cons c cs)
  obtain r s1 where r: "perform s c = (Inr r, s1)" "isValidResponse c r" using Cons.prems(2) [of c s] by auto
  obtain parsed where parsed: "device_parse dev (startingAddress c) (parseResponse c r) = Inr parsed"
    using window_decodes [OF assms(1) _ r(2)] Cons.prems(1) by (auto simp: device_parse_def assms(2))
  have "set cs \<subseteq> set (all_commands d)" using Cons.prems(1) by simp
  then obtain rs s' where "runPollingCommands perform dev cs s1 = (Inr rs, s')" "map result_command rs = cs"
      "\<forall>r \<in> set rs. isValidResponse (result_command r) (result_response r) \<and>
       device_parse dev (startingAddress (result_command r)) (parseResponse (result_command r) (result_response r)) =
         Inr (result_parsed r)"
    using Cons.IH [of s1] Cons.prems(2) by auto
  then show ?case using r parsed by simp
qed simp

lemma polling_in_table: "set (pollingCommands (new_BluettiDeviceModel a sn d)) \<subseteq> set (all_commands d)"
  by (auto simp: pollingCommands_def new_BluettiDeviceModel_def all_commands_def)

lemma cleanup_cases:
  assumes "op_disconnect ops h e = (rd, e')"
  shows "cleanup ops (Some h) False (new_cli_client e) =
      (Inr (), \<lparr>cleanupComplete = True, helper_disposed = True, cli_env = e'\<rparr>)"
    and "cleanup ops (Some h) True (new_cli_client e) =
      (rd, \<lparr>cleanupComplete = True, helper_disposed = (rd = Inr ()), cli_env = e'\<rparr>)"
  using assms by (cases rd; simp add: cleanup_def new_cli_client_def Let_def)+

lemma cleanup_again: "cleanupComplete s \<Longrightarrow> cleanup ops t report s = (Inr (), s)"
  by (simp add: cleanup_def)

lemma withConnectedDevice_outcome:
  assumes "create e = (h, e0)" and "connected_work ops h address work e0 = (r, e1)"
    and "op_disconnect ops h e1 = (rd, e2)"
  shows "withConnectedDevice ops create address work e =
    ((case r of Inl err \<Rightarrow> Inl err | Inr x \<Rightarrow> (case rd of Inl err \<Rightarrow> Inl err | Inr _ \<Rightarrow> Inr x)),
     \<lparr>cleanupComplete = True, helper_disposed = ((\<exists>err. r = Inl err) \<or> rd = Inr ()), cli_env = e2\<rparr>)"
  using assms cleanup_cases [OF assms(3)]
  by (cases r; cases rd) (simp_all add: withConnectedDevice_def cleanup_again)

subsection \<open>Properties\<close>


text \<open>A helper that connects to an EB3A and then refuses to disconnect.\<close>

definition stubborn_helper :: "unit helper_ops" where
  "stubborn_helper = willing_helper\<lparr>hc_read := (\<lambda>s u c. (Inr [69, 66, 51, 65, 49], c)),
     hc_disconnect := (\<lambda>s c. (Inl (PlainError ''refused''), c))\<rparr>"

lemma stubborn_device: "createDeviceFromAdvertisement ''AA'' ''EB3A1'' =
    Inr (new_BluettiDeviceModel ''AA'' ''1'' EB3A_definition)"
proof -
  have "map_of BLUETTI_DEFINITION_MAP ''EB3A'' = Some EB3A_definition"
    by (simp add: definition_lookup BLUETTI_DEFINITIONS_def EB3A_definition_def)
  moreover have "DEVICE_NAME_PATTERN ''EB3A1'' = Some (''EB3A'', ''1'')"
    by (simp add: pattern_iff pattern_models_def is_digit_def)
  ultimately show ?thesis by (simp add: createDeviceFromAdvertisement_def)
qed


text \<open>
  The \<open>poll\<close> tool reads the polling set of every product completely: when each read gets an
  acceptable response, there is one result per command, in the order of the table, every
  response is decoded, and the merged map has exactly the fields the responses contain.
\<close>

theorem polling_set_read:
  assumes "d \<in> set BLUETTI_DEFINITIONS" and "dev = new_BluettiDeviceModel a sn d"
    and "\<And>c s. c \<in> set (pollingCommands dev) \<Longrightarrow> \<exists>r s'. perform s c = (Inr r, s') \<and> isValidResponse c r"
  shows "\<exists>rs s'. runPollingCommands perform dev (pollingCommands dev) s = (Inr rs, s') \<and>
    map result_command rs = pollingCommands dev \<and>
    (\<forall>r \<in> set rs. device_parse dev (startingAddress (result_command r))
       (parseResponse (result_command r) (result_response r)) = Inr (result_parsed r)) \<and>
    fst ` set (merged_results rs) = (\<Union>r \<in> set rs. fst ` set (result_parsed r))"
proof -
  have sub: "set (pollingCommands dev) \<subseteq> set (all_commands d)" unfolding assms(2) by (rule polling_in_table)
  obtain rs s' where "runPollingCommands perform dev (pollingCommands dev) s = (Inr rs, s')"
      "map result_command rs = pollingCommands dev"
      "\<forall>r \<in> set rs. isValidResponse (result_command r) (result_response r) \<and>
       device_parse dev (startingAddress (result_command r)) (parseResponse (result_command r) (result_response r)) =
         Inr (result_parsed r)"
    using polling_results [where perform = perform and s = s, OF assms(1,2) sub assms(3)] by blast
  moreover have "fst ` set (merged_results rs) = (\<Union>r \<in> set rs. fst ` set (result_parsed r))"
    by (simp add: merged_results_def dom_assign_fold)
  ultimately show ?thesis by blast
qed

text \<open>The answer of a device whose registers are all zero.\<close>

definition zero_response :: "command \<Rightarrow> bytes" where
  "zero_response c = appendModbusCrc ([1, 3, of_nat (2 * quantity c)] @ replicate (2 * quantity c) 0)"

lemma zero_response_valid: "is_read c \<Longrightarrow> isValidResponse c (zero_response c)"
proof (elim is_read_cases)
  fix a q assume c: "c = ReadHoldingRegisters a q (read_frame a q)" "1 \<le> q" "q \<le> 125"
  show "isValidResponse c (zero_response c)"
    unfolding c(1) by (rule read_valid_iff [THEN iffD2, OF c(2,3) exI [of _ "replicate (2 * q) 0"]])
      (simp add: zero_response_def)
qed

theorem polling_set_read_witness:
  "\<exists>rs s'. runPollingCommands (\<lambda>s c. (Inr (zero_response c), s)) (new_BluettiDeviceModel [] [] EB3A_definition)
      (pollingCommands (new_BluettiDeviceModel [] [] EB3A_definition)) () = (Inr rs, s') \<and>
    map result_command rs = pollingCommands (new_BluettiDeviceModel [] [] EB3A_definition)"
proof -
  let ?dev = "new_BluettiDeviceModel [] [] EB3A_definition"
  have d: "EB3A_definition \<in> set BLUETTI_DEFINITIONS" by (simp add: BLUETTI_DEFINITIONS_def)
  have "\<exists>r s'. (Inr (zero_response c), s) = (Inr r :: bytes result, s') \<and> isValidResponse c r"
    if "c \<in> set (pollingCommands ?dev)" for c and s :: unit
    using zero_response_valid table_entry(1) [OF d] polling_in_table that by (fastforce simp: list_all_iff)
  from polling_set_read [where perform = "\<lambda>s c. (Inr (zero_response c), s)" and s = "()", OF d refl this]
  show ?thesis by blast
qed

end
