(* ===== verification/CliTools.thy ===== *)
theory CliTools
  imports CliArgs CliDevice Logger
begin

text \<open>
  The four device tools: \<open>cli/bluetti-discovery.ts\<close>, \<open>cli/poll.ts\<close>, \<open>cli/bluetti-logger.ts\<close> and
  \<open>cli/probe.ts\<close>. A tool is its \<open>main\<close>: the argument vector, what it prints, and the state of
  its helper at the end. How a scan ends and how \<open>session.perform\<close> answers are arguments; the
  transport is any one with the operations of \<open>transport_ops\<close>.
\<close>

datatype printed = PrintLine string | PrintJson json

datatype helper_state = NoHelper | HelperDisposed | HelperLeft

record tool_end =
  tool_result :: "unit cli_result"
  tool_printed :: "printed list"
  tool_helper :: helper_state

definition tool_refused :: "cli_error \<Rightarrow> tool_end" where
  "tool_refused e = \<lparr>tool_result = Inl e, tool_printed = [], tool_helper = NoHelper\<rparr>"

definition helper_left :: "'e cli_client \<Rightarrow> helper_state" where
  "helper_left s = (if helper_disposed s then HelperDisposed else HelperLeft)"

fun as_cli_result :: "'a result \<Rightarrow> 'a cli_result" where
  "as_cli_result (Inl e) = Inl (OtherError e)"
| "as_cli_result (Inr x) = Inr x"

text \<open>The scan with its \<open>finally\<close>; without a discovery in the runtime nothing is found.\<close>

definition scan_devices_tool :: "json list option result \<Rightarrow> tool_end" where
  "scan_devices_tool discovered =
     (case discovered of
        Inl e \<Rightarrow> \<lparr>tool_result = Inl (OtherError e), tool_printed = [], tool_helper = HelperDisposed\<rparr>
      | Inr found \<Rightarrow> \<lparr>tool_result = Inr (),
          tool_printed = [PrintJson (JArr (case found of None \<Rightarrow> [] | Some ds \<Rightarrow> ds))],
          tool_helper = HelperDisposed\<rparr>)"

definition discovery_main :: "string list \<Rightarrow> string \<Rightarrow> json list option result \<Rightarrow> tool_end" where
  "discovery_main argv helpText discovered =
     (if hasHelpFlag argv then tool_refused (HelpError helpText) else scan_devices_tool discovered)"

subsection \<open>Reports\<close>

definition logger_report :: "string \<Rightarrow> string option \<Rightarrow> bluetti_device \<Rightarrow> poll_command_result list \<Rightarrow> json" where
  "logger_report address name device results = JObj
     [(''address'', JStr address), (''deviceName'', name_json name), (''deviceType'', JStr (dev_type device)),
      (''commands'', JArr (map command_report results))]"

text \<open>A tool that reads a command set of the device and prints one report.\<close>

definition report_tool ::
  "'e transport_ops \<Rightarrow> ('e \<Rightarrow> nat \<times> 'e) \<Rightarrow> (world \<times> 'e \<Rightarrow> command \<Rightarrow> bytes result \<times> world \<times> 'e)
     \<Rightarrow> (bluetti_device \<Rightarrow> command list)
     \<Rightarrow> (string \<Rightarrow> string option \<Rightarrow> bluetti_device \<Rightarrow> poll_command_result list \<Rightarrow> json)
     \<Rightarrow> string \<Rightarrow> 'e \<Rightarrow> tool_end" where
  "report_tool ops create perform command_set report address e =
     (let work = (\<lambda>device s.
            case runPollingCommands perform device (command_set device) s of
              (Inl err, s) \<Rightarrow> (Inl err, s)
            | (Inr results, s) \<Rightarrow> (Inr (report address (session_name (sess (fst s))) device results), s))
      in case withConnectedDevice ops create address work e of
           (r, s) \<Rightarrow> \<lparr>tool_result = as_cli_result (map_sum id (\<lambda>_. ()) r),
                      tool_printed = (case r of Inl _ \<Rightarrow> [] | Inr payload \<Rightarrow> [PrintJson payload]),
                      tool_helper = helper_left s\<rparr>)"

definition poll_main ::
  "'e transport_ops \<Rightarrow> ('e \<Rightarrow> nat \<times> 'e) \<Rightarrow> (world \<times> 'e \<Rightarrow> command \<Rightarrow> bytes result \<times> world \<times> 'e)
     \<Rightarrow> json list option result \<Rightarrow> string list \<Rightarrow> string \<Rightarrow> 'e \<Rightarrow> tool_end" where
  "poll_main ops create perform discovered argv helpText e =
     (if hasHelpFlag argv then tool_refused (HelpError helpText)
      else (case optionalSingleAddressArg argv helpText of
              Inl err \<Rightarrow> tool_refused err
            | Inr None \<Rightarrow> scan_devices_tool discovered
            | Inr (Some address) \<Rightarrow>
                if address = [] then scan_devices_tool discovered
                else report_tool ops create perform pollingCommands poll_report address e))"

definition logger_main ::
  "'e transport_ops \<Rightarrow> ('e \<Rightarrow> nat \<times> 'e) \<Rightarrow> (world \<times> 'e \<Rightarrow> command \<Rightarrow> bytes result \<times> world \<times> 'e)
     \<Rightarrow> string list \<Rightarrow> string \<Rightarrow> 'e \<Rightarrow> tool_end" where
  "logger_main ops create perform argv helpText e =
     (case requireSingleAddressArg argv helpText of
        Inl err \<Rightarrow> tool_refused err
      | Inr address \<Rightarrow> report_tool ops create perform loggingCommands logger_report address e)"

subsection \<open>The probe\<close>

text \<open>\<open>bigintReplacer\<close> on a decoded record: an enum value stays the object it is.\<close>

fun bigintReplacer :: "parsed_value \<Rightarrow> json" where
  "bigintReplacer (VBigInt i) = JStr (int_text i)"
| "bigintReplacer (VEnum name n) = JObj [(''name'', JStr name), (''value'', JNum (Fin (of_nat n)))]"
| "bigintReplacer v = normalizeValue v"

definition probe_json :: "parsed_field_map \<Rightarrow> json" where
  "probe_json m = JObj (map (\<lambda>(k, v). (k, bigintReplacer v)) m)"

definition PROBE_COMMAND :: command where
  "PROBE_COMMAND = read_window 10 40"

text \<open>The body of the \<open>try\<close> block after the transport is created, with what it has printed.\<close>

definition probe_work ::
  "'e transport_ops \<Rightarrow> nat \<Rightarrow> (world \<times> 'e \<Rightarrow> command \<Rightarrow> bytes result \<times> world \<times> 'e) \<Rightarrow> string \<Rightarrow> 'e
     \<Rightarrow> (unit result \<times> printed list) \<times> 'e" where
  "probe_work ops h perform address e =
     (case connectAndInitialize ops h address (new_DeviceSession, e) of
        (Inl err, w, e, _) \<Rightarrow> ((Inl err, []), e)
      | (Inr _, w, e, _) \<Rightarrow>
          (case session_name (sess w) of
             None \<Rightarrow> ((Inl (PlainError ''Connected device did not report a name''), []), e)
           | Some name \<Rightarrow>
               (let connected = PrintLine (''Connected to '' @ name @ '' at '' @ address)
                in case perform (w, e) PROBE_COMMAND of
                     (Inl err, w, e) \<Rightarrow> ((Inl err, [connected]), e)
                   | (Inr response, w, e) \<Rightarrow>
                       (let received = PrintLine (''Received '' @ decimal_string (length response) @ '' bytes'')
                        in case rbind (createDeviceFromAdvertisement address name) (\<lambda>device.
                             device_parse device (startingAddress PROBE_COMMAND) (parseResponse PROBE_COMMAND response)) of
                             Inl err \<Rightarrow> ((Inl err, [connected, received]), e)
                           | Inr parsed \<Rightarrow> ((Inr (), [connected, received, PrintJson (probe_json parsed)]), e)))))"

definition probe_main ::
  "'e transport_ops \<Rightarrow> ('e \<Rightarrow> nat \<times> 'e) \<Rightarrow> (world \<times> 'e \<Rightarrow> command \<Rightarrow> bytes result \<times> world \<times> 'e)
     \<Rightarrow> json list option result \<Rightarrow> string list \<Rightarrow> string \<Rightarrow> 'e \<Rightarrow> tool_end" where
  "probe_main ops create perform discovered argv helpText e =
     (if hasHelpFlag argv then tool_refused (HelpError helpText)
      else (case optionalSingleAddressArg argv helpText of
              Inl err \<Rightarrow> tool_refused err
            | Inr address \<Rightarrow>
                if address = None \<or> address = Some [] then scan_devices_tool discovered
                else (case create e of (h, e) \<Rightarrow>
                  (case probe_work ops h perform (the address) e of
                     ((Inl err, lines), e) \<Rightarrow>
                       \<lparr>tool_result = Inl (OtherError err), tool_printed = lines,
                        tool_helper = helper_left (snd (cleanup ops (Some h) False (new_cli_client e)))\<rparr>
                   | ((Inr _, lines), e) \<Rightarrow>
                       (case cleanup ops (Some h) True (new_cli_client e) of
                          (Inl err, s) \<Rightarrow> \<lparr>tool_result = Inl (OtherError err), tool_printed = lines,
                              tool_helper = helper_left (snd (cleanup ops (Some h) False s))\<rparr>
                        | (Inr _, s) \<Rightarrow> \<lparr>tool_result = Inr (), tool_printed = lines,
                              tool_helper = helper_left s\<rparr>)))))"

subsection \<open>How the tools end\<close>

text \<open>A tool that reports success has printed JSON and released its helper; one that refuses its
  arguments has done nothing.\<close>

fun orderly :: "tool_end \<Rightarrow> bool" where
  "orderly t = (case tool_result t of
     Inr _ \<Rightarrow> tool_helper t = HelperDisposed \<and> tool_printed t \<noteq> [] \<and> (\<exists>v. last (tool_printed t) = PrintJson v)
   | Inl (OtherError e) \<Rightarrow> tool_helper t \<noteq> NoHelper
   | Inl _ \<Rightarrow> tool_helper t = NoHelper \<and> tool_printed t = [])"

lemma scan_orderly: "orderly (scan_devices_tool discovered)"
  by (simp add: scan_devices_tool_def split: sum.split)

lemma address_refusal:
  "optionalSingleAddressArg argv helpText = Inl e \<Longrightarrow> (\<exists>m. e = HelpError m) \<or> (\<exists>m. e = UsageError m)"
  "requireSingleAddressArg argv helpText = Inl e \<Longrightarrow> (\<exists>m. e = HelpError m) \<or> (\<exists>m. e = UsageError m)"
  by (auto simp: optionalSingleAddressArg_def requireSingleAddressArg_def validateBluetoothAddress_def Let_def
      split: if_splits list.splits)

lemma refusal_orderly: "(\<exists>m. e = HelpError m) \<or> (\<exists>m. e = UsageError m) \<Longrightarrow> orderly (tool_refused e)"
  by (auto simp: tool_refused_def)

lemma report_orderly: "orderly (report_tool ops create perform command_set report address e)"
proof -
  obtain h e0 where create: "create e = (h, e0)" by fastforce
  let ?work = "\<lambda>device s. case runPollingCommands perform device (command_set device) s of
      (Inl err, s) \<Rightarrow> (Inl err, s)
    | (Inr results, s) \<Rightarrow> (Inr (report address (session_name (sess (fst s))) device results), s)"
  obtain r e1 where work: "connected_work ops h address ?work e0 = (r, e1)" by fastforce
  obtain rd e2 where disc: "op_disconnect ops h e1 = (rd, e2)" by fastforce
  show ?thesis
    using withConnectedDevice_outcome [where create = create, OF create work disc]
    by (cases r; cases rd) (simp_all add: report_tool_def helper_left_def)
qed

lemma probe_orderly: "orderly (probe_main ops create perform discovered argv helpText e)"
proof (cases "hasHelpFlag argv")
  case True
  then show ?thesis by (simp add: probe_main_def tool_refused_def)
next
  case False
  show ?thesis
  proof (cases "optionalSingleAddressArg argv helpText")
    case (Inl err)
    then show ?thesis using False address_refusal(1) [OF Inl] by (auto simp: probe_main_def tool_refused_def)
  next
    case (Inr address)
    show ?thesis
    proof (cases "address = None \<or> address = Some []")
      case True
      then show ?thesis using False Inr scan_orderly by (simp add: probe_main_def)
    next
      case some: False
      obtain h e0 where create: "create e = (h, e0)" by fastforce
      obtain r printed e1 where work: "probe_work ops h perform (the address) e0 = ((r, printed), e1)"
        by (metis surj_pair)
      obtain rd e2 where disc: "op_disconnect ops h e1 = (rd, e2)" by fastforce
      have "\<exists>ls v. printed = ls @ [PrintJson v]" if "r = Inr ()"
        using work that by (auto simp: probe_work_def Let_def split: prod.splits sum.splits option.splits)
      then show ?thesis
        using False Inr some create work cleanup_cases [OF disc] cleanup_again
        by (cases r; cases rd) (auto simp: probe_main_def helper_left_def)
    qed
  qed
qed

lemma tools_orderly:
  "orderly (discovery_main argv helpText discovered)"
  "orderly (poll_main ops create perform discovered argv helpText e)"
  "orderly (logger_main ops create perform argv helpText e)"
  using address_refusal [of argv helpText] refusal_orderly scan_orderly report_orderly
  by (auto simp: discovery_main_def poll_main_def logger_main_def tool_refused_def
      simp del: orderly.simps split: sum.splits option.splits)

text \<open>Every product's struct decodes the window of the probe.\<close>

lemma probe_command: "PROBE_COMMAND = ReadHoldingRegisters 10 40 (read_frame 10 40)"
  by (simp add: PROBE_COMMAND_def read_window_ok)

lemma probe_decodes:
  assumes "isValidResponse PROBE_COMMAND response"
  shows "\<exists>m. device_parse device 10 (parseResponse PROBE_COMMAND response) = Inr m"
proof -
  have "isValidResponse (ReadHoldingRegisters 10 40 (read_frame 10 40)) response"
    using assms unfolding probe_command .
  then obtain p where p: "length p = 2 * 40" "response = appendModbusCrc ([1, 3, of_nat (2 * 40)] @ p)"
    by (subst (asm) read_valid_iff) auto
  obtain ws where "\<forall>w \<in> set ws. w < 65536" "p = register_bytes ws"
    using bytes_as_registers [OF p(1)] by blast
  then show ?thesis
    using read_parse [OF p(1), of 10 "read_frame 10 40"] struct_parse_registers [of ws "dev_struct device" 10] p(2)
    by (simp add: probe_command device_parse_def)
qed

text \<open>A probe of a named device prints its three lines whatever product it is.\<close>

lemma probe_reads_any_product:
  assumes "connectAndInitialize ops h address (new_DeviceSession, e) = (Inr (), w, e1, slept)"
    and "session_name (sess w) = Some name" and "createDeviceFromAdvertisement address name = Inr device"
    and "perform (w, e1) PROBE_COMMAND = (Inr response, w', e2)" and "isValidResponse PROBE_COMMAND response"
  shows "\<exists>m. probe_work ops h perform address e =
     ((Inr (), [PrintLine (''Connected to '' @ name @ '' at '' @ address),
                PrintLine (''Received '' @ decimal_string (length response) @ '' bytes''), PrintJson (probe_json m)]), e2)"
  using probe_decodes [OF assms(5), of device] assms(1-4)
  by (auto simp: probe_work_def Let_def probe_command)

subsection \<open>Properties\<close>

text \<open>
  However its arguments, the scan, the device and the helper behave, a tool that ends with
  success has printed JSON and released its helper, and one that rejects its arguments has
  started no helper and printed nothing.
\<close>

theorem tools_end_orderly:
  "list_all orderly
    [discovery_main argv helpText discovered, poll_main ops create perform discovered argv helpText e,
     logger_main ops create perform argv helpText e, probe_main ops create perform discovered argv helpText e]"
  by (simp add: tools_orderly probe_orderly del: orderly.simps)

end
