(* ===== verification/CliServer.thy ===== *)
theory CliServer
  imports CliMain CliTools Server
begin

text \<open>
  \<open>main\<close> of \<open>cli/bluetti-mqtt.ts\<close> as a whole: the options of theory \<open>CliMain\<close>, the server of
  theory \<open>Server\<close>, signals, and the \<open>finally\<close> that removes the signal handlers and disposes the
  helper when \<open>run\<close> is over. An execution is a list of events of the server and signals; the
  loops that are still alive go on after \<open>main\<close> has returned, with a helper that is disposed.
\<close>

subsection \<open>The process\<close>

record 'c bridge_process =
  process_server :: "'c server"
  process_signals :: signal_handlers
  process_disposed :: bool
  process_result :: "unit cli_result option"

definition start_process :: "'c \<Rightarrow> 'c bridge_process" where
  "start_process c = \<lparr>process_server = new_BluettiMqttServer c, process_signals = installSignalHandlers,
     process_disposed = False, process_result = None\<rparr>"

definition bridge_main ::
  "(string \<Rightarrow> file_content) \<Rightarrow> (string \<Rightarrow> string option) \<Rightarrow> string \<Rightarrow> string list \<Rightarrow> 'c \<Rightarrow>
     (cli_flags \<times> 'c bridge_process) cli_result" where
  "bridge_main configs files helpText argv c =
     cbind (main_options configs files helpText argv) (\<lambda>(f, options). Inr (f, start_process c))"

text \<open>A disposed helper client rejects every request; listeners are its own.\<close>

definition disposed_error :: js_error where
  "disposed_error = PlainError ''Windows BLE helper disposed''"

definition disposed_helper :: "'c helper_ops \<Rightarrow> 'c helper_ops" where
  "disposed_helper hc = hc\<lparr>hc_connect := (\<lambda>a c. (Inl disposed_error, c)), hc_disconnect := (\<lambda>sid c. (Inl disposed_error, c)),
     hc_read := (\<lambda>sid uuid c. (Inl disposed_error, c)), hc_write := (\<lambda>sid uuid d c. (Inl disposed_error, c)),
     hc_subscribe := (\<lambda>sid uuid c. (Inl disposed_error, c))\<rparr>"

text \<open>The \<open>finally\<close> block, when \<open>await server.run()\<close> settles.\<close>

definition main_finally :: "'c bridge_process \<Rightarrow> 'c bridge_process" where
  "main_finally p =
     (case (process_result p, srv_phase (process_server p)) of
        (None, RunOver r) \<Rightarrow> p\<lparr>process_result := Some (as_cli_result r),
          process_signals := remove_handlers (process_signals p), process_disposed := True\<rparr>
      | _ \<Rightarrow> p)"

text \<open>
  A signal without handlers has its default action, which is no step of the program. Only the
  first of the others calls \<open>stop\<close>.
\<close>

definition process_signal :: "'c bridge_process \<Rightarrow> 'c bridge_process option" where
  "process_signal p =
     (let h = process_signals p
      in if \<not> handlers_installed h then None
         else Some (p\<lparr>process_signals := signal_received h,
           process_server := (if stopping h then process_server p else server_stop (process_server p))\<rparr>))"

fun is_stop :: "server_event \<Rightarrow> bool" where
  "is_stop StopRequested = True"
| "is_stop _ = False"

datatype process_event = Signal | ServerEvent server_event

fun process_step :: "'c helper_ops \<Rightarrow> cli_flags \<Rightarrow> process_event \<Rightarrow> 'c bridge_process \<Rightarrow> 'c bridge_process option" where
  "process_step hc f Signal p = process_signal p"
| "process_step hc f (ServerEvent ev) p =
     (if is_stop ev then None
      else map_option (\<lambda>s. main_finally (p\<lparr>process_server := s\<rparr>))
        (server_step (if process_disposed p then disposed_helper hc else hc) (f_addresses f) (f_runOnce f) ev (process_server p)))"

fun process_run :: "'c helper_ops \<Rightarrow> cli_flags \<Rightarrow> process_event list \<Rightarrow> 'c bridge_process \<Rightarrow> 'c bridge_process option" where
  "process_run hc f [] p = Some p"
| "process_run hc f (ev # es) p = (case process_step hc f ev p of None \<Rightarrow> None | Some p \<Rightarrow> process_run hc f es p)"

lemma process_run_append:
  "process_run hc f (es @ es') p = (case process_run hc f es p of None \<Rightarrow> None | Some p \<Rightarrow> process_run hc f es' p)"
  by (induction es arbitrary: p) (auto split: option.split)

lemma process_run_induct [consumes 1, case_names initial step]:
  assumes run: "process_run hc f es p = Some p'" and "P p"
    and "\<And>ev p p'. P p \<Longrightarrow> process_step hc f ev p = Some p' \<Longrightarrow> P p'"
  shows "P p'"
  using run assms(2) by (induction es arbitrary: p) (auto split: option.splits intro: assms(3))

subsection \<open>After the disposal\<close>

lemma connect_loop_refused:
  assumes "\<And>e. \<exists>err e'. op_connect ops h a e = (Inl err, e')"
  shows "\<exists>err w' e' slept'. connect_loop ops h a attempt lastError (w, e, slept) = (Inl err, w', e', slept')"
proof (induction "CONNECT_RETRY_COUNT - attempt" arbitrary: attempt lastError w e slept rule: less_induct)
  case less
  obtain err e1 where "op_connect ops h a e = (Inl err, e1)" using assms by blast
  then have "try_initialize ops h a (w, e) = (Inl err, w, e1)" by (simp add: try_initialize_def)
  then show ?case using less by (auto simp: connect_loop.simps [of ops h a attempt] Let_def)
qed

lemma disposed_reconnect:
  assumes "reconnect (helper_transport_ops (disposed_helper hc)) helper_create a m = (r, m')" and "sessions m = []"
  shows "sessions m' = [] \<and> (\<exists>e. r = Inl e)"
proof -
  have "\<exists>err e'. op_connect (helper_transport_ops (disposed_helper hc)) h a e = (Inl err, e')" for h e
    by (simp add: helper_transport_ops_def helper_connect_def disposed_helper_def)
  note refused = connect_loop_refused [of "helper_transport_ops (disposed_helper hc)", OF this]
  obtain h e where c: "helper_create (env m) = (h, e)" by fastforce
  obtain err w' e' n where "connect_loop (helper_transport_ops (disposed_helper hc)) h a 0 None (new_DeviceSession, e, 0) =
      (Inl err, w', e', n)"
    using refused by blast
  then have "open_session (helper_transport_ops (disposed_helper hc)) helper_create a (env m) = (Inl err, e')"
    using c by (simp add: open_session_def connectAndInitialize_def)
  then show ?thesis using assms by (auto simp: reconnect_def)
qed

subsection \<open>How the server's phase and stop flag move\<close>

lemma srv_manager_set_loop [simp]: "srv_manager (set_loop i st s) = srv_manager s"
  by (simp add: set_loop_def all_returned_def Let_def split: loop_state.split sum.split)

lemma set_loop_enters:
  "(srv_phase (set_loop i st s) = RunOver r) = (srv_phase s = RunOver r)"
  "(srv_phase (set_loop i st s) = BridgeStarting) = (srv_phase s = BridgeStarting)"
  "stop_flag (set_loop i st s) = stop_flag s"
  using set_loop_phase [of i st s] by (auto simp: stop_flag_def)

lemma run_over_entered:
  assumes inv: "server_inv (length addresses) s" and before: "\<And>r. srv_phase s \<noteq> RunOver r"
    and step: "server_step hc addresses runOnce ev s = Some s'" and over: "srv_phase s' = RunOver r"
  shows "sessions (srv_manager s') = []"
proof (cases ev)
  case (BridgeSettled q)
  then have s: "srv_phase s = BridgeStarting" using step by (auto simp: bridge_settled_def Let_def split: if_splits)
  have "srv_manager s' = srv_manager s"
    using bridge_settled_inv(2) [OF inv, of q s'] step BridgeSettled over by auto
  then show ?thesis using inv s by (simp add: server_inv_def)
next
  case (CleanupDone q)
  then show ?thesis using cleanup_done_inv [OF inv] step by simp
next
  case (IterationEnds i out)
  then show ?thesis using step over before by (auto simp: iteration_ends_def set_loop_enters split: if_splits)
next
  case (ReconnectSettled i)
  then show ?thesis
    using step over before by (auto simp: reconnect_settled_def set_loop_enters split: if_splits prod.splits)
next
  case (WaitOver i)
  then show ?thesis using step over before by (auto simp: wait_over_def set_loop_enters split: if_splits)
qed (use step before over in \<open>auto simp: server_stop_def connect_settled_def retry_elapsed_def loop_publishes_def
      all_returned_def Let_def split: if_splits prod.splits sum.splits\<close>)

lemma run_over_stays:
  assumes over: "srv_phase s = RunOver r" and step: "server_step hc addresses runOnce ev s = Some s'"
  shows "srv_phase s' = RunOver r" and "(\<forall>i. ev \<noteq> ReconnectSettled i) \<Longrightarrow> srv_manager s' = srv_manager s"
proof -
  show "srv_phase s' = RunOver r"
    using step over
    by (cases ev) (auto simp: server_stop_def bridge_settled_def connect_settled_def retry_elapsed_def loop_publishes_def
        iteration_ends_def reconnect_settled_def wait_over_def cleanup_done_def set_loop_enters Let_def
        split: if_splits prod.splits)
  show "srv_manager s' = srv_manager s" if "\<forall>i. ev \<noteq> ReconnectSettled i"
    using step over that
    by (cases ev) (auto simp: server_stop_def bridge_settled_def connect_settled_def retry_elapsed_def loop_publishes_def
        iteration_ends_def wait_over_def cleanup_done_def Let_def split: if_splits prod.splits)
qed

lemma step_stop_flag:
  assumes "srv_phase s \<noteq> BridgeStarting" and "ev \<noteq> StopRequested" and "server_step hc addresses runOnce ev s = Some s'"
  shows "stop_flag s' = stop_flag s \<and> srv_phase s' \<noteq> BridgeStarting"
  using assms
  by (cases ev) (auto simp: bridge_settled_def connect_settled_def retry_elapsed_def loop_publishes_def
      iteration_ends_def reconnect_settled_def wait_over_def cleanup_done_def server_cleanup_def warn_failure_def
      all_returned_def set_loop_enters stop_flag_def Let_def split: if_splits prod.splits sum.splits run_phase.splits)

subsection \<open>The invariant of the process\<close>

definition process_inv :: "nat \<Rightarrow> 'c bridge_process \<Rightarrow> bool" where
  "process_inv n p \<longleftrightarrow> server_inv n (process_server p) \<and>
     stop_calls (process_signals p) = (if stopping (process_signals p) then 1 else 0) \<and>
     (case process_result p of
        None \<Rightarrow> (\<forall>r. srv_phase (process_server p) \<noteq> RunOver r) \<and> handlers_installed (process_signals p) \<and>
          \<not> process_disposed p
      | Some r \<Rightarrow> (\<exists>r'. srv_phase (process_server p) = RunOver r' \<and> r = as_cli_result r') \<and>
          \<not> handlers_installed (process_signals p) \<and> process_disposed p \<and> sessions (srv_manager (process_server p)) = [])"

lemma start_process_inv: "process_inv n (start_process c)"
  using new_server_inv by (simp add: process_inv_def start_process_def installSignalHandlers_def new_BluettiMqttServer_def)

lemma process_signal_inv:
  assumes inv: "process_inv n p" and step: "process_signal p = Some p'"
  shows "process_inv n p'"
proof -
  have "server_inv n (server_stop s)" if "server_inv n s" for s :: "'a server"
    using that by (cases "srv_phase s") (simp_all add: server_inv_def server_stop_def)
  moreover have "srv_phase (server_stop s) = srv_phase s" "srv_manager (server_stop s) = srv_manager s" for s :: "'a server"
    by (simp_all add: server_stop_def)
  ultimately show ?thesis
    using inv step by (auto simp: process_inv_def process_signal_def signal_received_def Let_def split: option.splits if_splits)
qed

lemma process_step_inv:
  assumes inv: "process_inv (length (f_addresses f)) p" and step: "process_step hc f ev p = Some p'"
  shows "process_inv (length (f_addresses f)) p'"
proof (cases ev)
  case Signal
  then show ?thesis using process_signal_inv [OF inv] step by simp
next
  case (ServerEvent sev)
  let ?n = "length (f_addresses f)"
  define hc' where "hc' = (if process_disposed p then disposed_helper hc else hc)"
  obtain s where s: "server_step hc' (f_addresses f) (f_runOnce f) sev (process_server p) = Some s"
      "p' = main_finally (p\<lparr>process_server := s\<rparr>)"
    using step ServerEvent by (auto simp: hc'_def split: if_splits)
  have s_inv: "server_inv ?n s" using inv server_step_inv [OF _ s(1)] by (simp add: process_inv_def)
  show ?thesis
  proof (cases "process_result p")
    case None
    have "sessions (srv_manager s) = []" if "srv_phase s = RunOver r" for r
      using run_over_entered [OF _ _ s(1) that] inv None by (simp add: process_inv_def)
    then show ?thesis
      using inv None s_inv
      by (auto simp: process_inv_def s(2) main_finally_def remove_handlers_def split: run_phase.split)
  next
    case (Some r)
    then obtain r' where old: "srv_phase (process_server p) = RunOver r'" "r = as_cli_result r'" "process_disposed p"
        "sessions (srv_manager (process_server p)) = []"
      using inv by (auto simp: process_inv_def)
    have "sessions (srv_manager s) = []"
    proof (cases "\<exists>i. sev = ReconnectSettled i")
      case True
      then obtain i where i: "sev = ReconnectSettled i" by blast
      obtain rr m where m: "reconnect (helper_transport_ops hc') helper_create (f_addresses f ! i)
          (srv_manager (process_server p)) = (rr, m)"
        by fastforce
      have "sessions m = []" using disposed_reconnect [OF m [unfolded hc'_def if_P [OF old(3)]] old(4)] by blast
      then show ?thesis using s(1) i m by (auto simp: reconnect_settled_def split: if_splits)
    next
      case False
      then show ?thesis using run_over_stays(2) [OF old(1) s(1)] old(4) by simp
    qed
    then show ?thesis
      using inv Some s_inv run_over_stays(1) [OF old(1) s(1)] old(2)
      by (simp add: process_inv_def s(2) main_finally_def)
  qed
qed


text \<open>The sample configuration of theory \<open>CliMain\<close>, interrupted while the bridge starts, with a broker that refuses.\<close>

definition refusing_broker :: mqtt_outcomes where
  "refusing_broker = quiet_broker\<lparr>on_connect := Inl (PlainError ''refused'')\<rparr>"

lemma refused_startup:
  "map_option (\<lambda>p. (process_result p, stop_calls (process_signals p)))
     (process_run willing_helper f [Signal, Signal, ServerEvent (BridgeSettled refusing_broker)] (start_process ())) =
   Some (Some (Inl (OtherError (PlainError ''refused''))), 1)"
  by code_simp


subsection \<open>Signals that are lost\<close>

lemma quiet_startup:
  "js_get (runs (bridge_startup quiet_broker (new_BluettiMqttBridge new_EventBus)))
     (length (runs (new_BluettiMqttBridge new_EventBus))) = Some (RunReturned (Inr ()))"
  by code_simp

definition signal_lost :: "'c bridge_process \<Rightarrow> bool" where
  "signal_lost p \<longleftrightarrow> stopping (process_signals p) \<and> stop_calls (process_signals p) = 1 \<and>
     \<not> stop_flag (process_server p) \<and> srv_phase (process_server p) \<noteq> BridgeStarting"

lemma main_finally_server [simp]: "process_server (main_finally p) = process_server p"
  by (simp add: main_finally_def split: option.split run_phase.split)

lemma signal_lost_step:
  assumes "signal_lost p" and "process_step hc f ev p = Some p'"
  shows "signal_lost p'"
proof (cases ev)
  case Signal
  then show ?thesis
    using assms by (auto simp: process_signal_def signal_lost_def signal_received_def Let_def split: if_splits)
next
  case (ServerEvent sev)
  have "stopping (process_signals (main_finally q)) = stopping (process_signals q) \<and>
      stop_calls (process_signals (main_finally q)) = stop_calls (process_signals q)" for q :: "'a bridge_process"
    by (simp add: main_finally_def remove_handlers_def split: option.split run_phase.split)
  moreover obtain s where s: "server_step (if process_disposed p then disposed_helper hc else hc) (f_addresses f)
      (f_runOnce f) sev (process_server p) = Some s" "p' = main_finally (p\<lparr>process_server := s\<rparr>)" "\<not> is_stop sev"
    using assms(2) ServerEvent by (auto split: if_splits)
  moreover have "stop_flag s = stop_flag (process_server p) \<and> srv_phase s \<noteq> BridgeStarting"
    using assms(1) s(3) by (intro step_stop_flag [OF _ _ s(1)]) (auto simp: signal_lost_def)
  ultimately show ?thesis using assms(1) by (simp add: signal_lost_def)
qed

text \<open>
  C20: a signal that comes while the bridge connects is lost, and with it all others: the polling
  resets the stop flag that the first one has set, and the handler ignores the others. When the
  bridge has started, nothing that follows, further signals included, requests a stop again.
\<close>

theorem early_signal_lost:
  assumes "process_run hc f (Signal # ServerEvent (BridgeSettled quiet_broker) # es) (start_process c) = Some p"
  shows "stopping (process_signals p) \<and> stop_calls (process_signals p) = 1 \<and> \<not> stop_flag (process_server p)"
proof -
  obtain p1 where p1: "process_run hc f [Signal, ServerEvent (BridgeSettled quiet_broker)] (start_process c) = Some p1"
      "process_run hc f es p1 = Some p"
    using assms by (auto simp: process_run_append [of _ _ "[Signal, ServerEvent (BridgeSettled quiet_broker)]" es, simplified]
        split: option.splits)
  have "signal_lost p1"
    using p1(1) quiet_startup
    by (auto simp: process_signal_def start_process_def installSignalHandlers_def signal_received_def bridge_settled_def
        server_stop_def new_BluettiMqttServer_def signal_lost_def stop_flag_def queue_reset_def queue_stop_def
        main_finally_def Let_def)
  then have "signal_lost p" by (rule process_run_induct [OF p1(2)]) (rule signal_lost_step)
  then show ?thesis by (simp add: signal_lost_def)
qed

text \<open>A stop requested a moment later is not lost; the first device is connected, then both signals come.\<close>

definition two_devices :: cli_flags where
  "two_devices = no_flags\<lparr>f_addresses := [''AA'', ''BB'']\<rparr>"

theorem early_signal_lost_witness:
  "\<exists>p. process_run willing_helper two_devices
       [Signal, ServerEvent (BridgeSettled quiet_broker), ServerEvent (ConnectSettled (Inr ())), Signal]
       (start_process ()) = Some p \<and> \<not> stop_flag (process_server p)"
proof -
  let ?es = "[ServerEvent (ConnectSettled (Inr ())), Signal]"
  have "process_run willing_helper two_devices (Signal # ServerEvent (BridgeSettled quiet_broker) # ?es) (start_process ()) \<noteq> None"
    by code_simp
  then obtain p where p: "process_run willing_helper two_devices (Signal # ServerEvent (BridgeSettled quiet_broker) # ?es)
      (start_process ()) = Some p"
    by blast
  with early_signal_lost [OF p] show ?thesis by blast
qed

subsection \<open>Loops that outlive the run\<close>

lemma straggler_step:
  assumes inv: "process_inv (length (f_addresses f)) p" and res: "process_result p = Some r"
    and stop: "\<not> stop_flag (process_server p)"
    and loop: "js_get (srv_loops (process_server p)) i \<in> {Some LoopRecovering, Some LoopWaiting}"
    and step: "process_step hc f ev p = Some p'"
  shows "process_result p' = Some r \<and> \<not> stop_flag (process_server p') \<and>
    js_get (srv_loops (process_server p')) i \<in> {Some LoopRecovering, Some LoopWaiting}"
proof (cases ev)
  case Signal
  then show ?thesis using inv res step by (simp add: process_inv_def process_signal_def Let_def)
next
  case (ServerEvent sev)
  from inv res obtain r' where p: "srv_phase (process_server p) = RunOver r'" "process_disposed p"
      "sessions (srv_manager (process_server p)) = []"
    by (auto simp: process_inv_def)
  obtain s where s: "server_step (disposed_helper hc) (f_addresses f) (f_runOnce f) sev (process_server p) = Some s"
      "p' = main_finally (p\<lparr>process_server := s\<rparr>)" "\<not> is_stop sev"
    using step ServerEvent p(2) by (auto split: if_splits)
  have "sev \<noteq> StopRequested" using s(3) by auto
  then have flag: "\<not> stop_flag s" using step_stop_flag [OF _ _ s(1)] p(1) stop by simp
  have i: "i < length (srv_loops (process_server p))" using loop by (auto simp: js_get_def split: if_splits)
  have refused: "\<exists>e. q = Inl e"
    if "reconnect (helper_transport_ops (disposed_helper hc)) helper_create a (srv_manager (process_server p)) = (q, m)" for a q m
    using disposed_reconnect [OF that p(3)] by blast
  have "js_get (srv_loops s) i \<in> {Some LoopRecovering, Some LoopWaiting}"
    using s(1,3) loop p(1) stop i
    by (cases sev) (auto simp: bridge_settled_def connect_settled_def retry_elapsed_def loop_publishes_def
        iteration_ends_def reconnect_settled_def wait_over_def cleanup_done_def guarded_def js_get_def nth_list_update Let_def
        dest!: refused split: if_splits prod.splits)
  then show ?thesis using flag res by (simp add: s(2) main_finally_def)
qed

text \<open>
  C21: a failed run of several devices does not end the process: a loop that is reconnecting when
  \<open>main\<close> has returned its error tries again for ever. No event of the server and no signal ends it: the helper is
  disposed, so every attempt fails, nobody requests a stop, and its pauses keep the process alive.
\<close>

theorem straggler_keeps_process:
  assumes "process_run hc f es (start_process c) = Some p" and "process_result p = Some r"
    and "\<not> stop_flag (process_server p)"
    and "js_get (srv_loops (process_server p)) i \<in> {Some LoopRecovering, Some LoopWaiting}"
    and "process_run hc f es' p = Some p'"
  shows "process_result p' = Some r \<and> js_get (srv_loops (process_server p')) i \<in> {Some LoopRecovering, Some LoopWaiting}"
proof -
  let ?n = "length (f_addresses f)"
  let ?P = "\<lambda>p. process_inv ?n p \<and> process_result p = Some r \<and> \<not> stop_flag (process_server p) \<and>
    js_get (srv_loops (process_server p)) i \<in> {Some LoopRecovering, Some LoopWaiting}"
  have "process_inv ?n p"
    by (rule process_run_induct [OF assms(1)]) (auto simp: start_process_inv intro: process_step_inv)
  then have "?P p" using assms(2-4) by blast
  then have "?P p'"
    by (rule process_run_induct [OF assms(5)]) (use straggler_step process_step_inv in blast)
  then show ?thesis by blast
qed

text \<open>One loop throws while the other has lost its device; the helper answers everything as long as it lives.\<close>

lemma straggler_example:
  "map_option (\<lambda>p. (process_result p, stop_flag (process_server p), srv_loops (process_server p)))
     (process_run willing_helper two_devices
       [ServerEvent (BridgeSettled quiet_broker), ServerEvent (ConnectSettled (Inr ())), ServerEvent (IterationEnds 1 Lost),
        ServerEvent (IterationEnds 0 (Threw (PlainError ''x''))), ServerEvent (CleanupDone quiet_broker)] (start_process ())) =
   Some (Some (Inl (OtherError (PlainError ''x''))), False, [LoopOver (Inl (PlainError ''x'')), LoopRecovering])"
  by code_simp

theorem straggler_keeps_process_witness:
  "\<exists>es p. process_run willing_helper two_devices es (start_process ()) = Some p \<and>
     process_result p = Some (Inl (OtherError (PlainError ''x''))) \<and>
     (\<forall>es' p'. process_run willing_helper two_devices es' p = Some p' \<longrightarrow>
        js_get (srv_loops (process_server p')) 1 \<in> {Some LoopRecovering, Some LoopWaiting})"
proof -
  let ?es = "[ServerEvent (BridgeSettled quiet_broker), ServerEvent (ConnectSettled (Inr ())), ServerEvent (IterationEnds 1 Lost),
        ServerEvent (IterationEnds 0 (Threw (PlainError ''x''))), ServerEvent (CleanupDone quiet_broker)]"
  obtain p where p: "process_run willing_helper two_devices ?es (start_process ()) = Some p"
      "process_result p = Some (Inl (OtherError (PlainError ''x'')))" "\<not> stop_flag (process_server p)"
      "srv_loops (process_server p) = [LoopOver (Inl (PlainError ''x'')), LoopRecovering]"
    using straggler_example unfolding map_option_eq_Some by auto
  have "js_get (srv_loops (process_server p)) 1 \<in> {Some LoopRecovering, Some LoopWaiting}" by (simp add: p(4) js_get_def)
  from straggler_keeps_process [OF p(1-3) this] p(1,2) show ?thesis by blast
qed

end
