(* ===== verification/Spec2Isabelle.thy ===== *)
theory Spec2Isabelle
  imports Registry Manager Queue Handler HelperFacade Wiring BasicClient LoopRefinement CliServer
begin

text \<open>
  A verification library of \<open>bluetti-mqtt-node\<close>, the bridge between Bluetti power stations on
  Bluetooth Low Energy and an MQTT broker. The paths below are under \<open>src/src\<close> of the repository.

  \<^bold>\<open>The program.\<close> A polling loop per Bluetooth address (\<open>app/device-handler.ts\<close>) reads register
  windows of a device: every command is a job of a work queue that serializes the work on an
  address (\<open>app/device-queue.ts\<close>), performed by a session (\<open>bluetooth/device-session.ts\<close>) that
  writes a MODBUS frame (\<open>core/commands.ts\<close>, \<open>core/crc.ts\<close>) and collects the answer from
  notifications. The answer is decoded with the product's layout (\<open>devices\<close>), published on an
  event bus (\<open>core/event-bus.ts\<close>) and from there by the MQTT bridge (\<open>broker/client.ts\<close>). MQTT
  commands take the opposite way: topic and payload become a setter command, a job of the same
  queue. Sessions belong to a manager (\<open>bluetooth/manager.ts\<close>) and reach the radio through a
  transport (\<open>bluetooth/helper-transport.ts\<close>), a client of a helper process that speaks lines of
  JSON (\<open>bluetooth/helper-client.ts\<close>). \<open>app/server.ts\<close> puts the parts into one life cycle; \<open>cli\<close>
  holds the bridge's process and four tools.

  \<^bold>\<open>The theories\<close>, in the order of their imports:

  \<^item> \<open>Prelude\<close>: results (\<open>js_error + 'a\<close>, every \<open>throw\<close> an \<open>Inl\<close>), JavaScript's arrays and
    insertion-ordered maps as lists, shared lemmas. \<open>JsNumber\<close>: numbers; a double is a rational
    correctly rounded to 53 bits (no overflow or underflow arises from registers).
  \<^item> \<open>Crc\<close>: the checksum loop on 32-bit words, equal to a bit-serial register; error detection.
  \<^item> \<open>Commands\<close>: the three commands, their constructors and their validation of responses; locale
    \<open>modbus_request\<close> states what the session relies on (no prefix of a valid response is complete).
  \<^item> \<open>RegisterFields\<close>, \<open>Struct\<close>, \<open>Models\<close>, \<open>Definitions\<close>, \<open>Device\<close>, \<open>Registry\<close>: field decoders and
    their register-level meaning (locale \<open>register_decoder\<close>), structs, every layout and the product
    table of \<open>devices/definition.ts\<close>, setters, and names of advertisements.
  \<^item> \<open>Session\<close>: \<open>DeviceSession\<close> as a step function on events; an event is one piece of code
    between two suspension points, so every interleaving is an event list. \<open>Transport\<close>, \<open>Connect\<close>,
    \<open>Manager\<close>: the transport interface (locale \<open>bluetooth_transport\<close>, interpreted for the mock and
    for the helper's transport), initialization with its retries, and the session map.
  \<^item> \<open>PollingState\<close>, \<open>Queue\<close>, \<open>Executor\<close>, \<open>Handler\<close>: adaptive intervals and counters, the promise-chain
    mutex (locale \<open>fifo_mutex\<close>), command sets and packs, and the polling loops.
  \<^item> \<open>Json\<close>, \<open>HelperClient\<close>, \<open>HelperFacade\<close>: JSON values and text, base64, the requests of the helper
    client over every order of answers, deadlines, exits and disposal, and its typed requests
    behind a transport.
  \<^item> \<open>EventBus\<close>, \<open>Payload\<close>, \<open>Bridge\<close>, \<open>BridgeTraffic\<close>, \<open>BasicClient\<close>: listeners and \<open>Promise.all\<close>, texts of
    values, start and stop of the bridge with overlapping calls, commands and telemetry, and the
    client for embedding programs.
  \<^item> \<open>Server\<close>, \<open>Logger\<close>, \<open>CliArgs\<close>, \<open>CliConfig\<close>, \<open>CliMain\<close>, \<open>CliDevice\<close>, \<open>CliTools\<close>, \<open>CliServer\<close>: the server's life
    cycle as a step function (phases of \<open>run\<close>, one state per polling loop, the stop flag), the log
    record, arguments, configuration file, TLS files, the tools, and the process with its signals.
    \<open>LoopRefinement\<close>: the detailed polling loop of \<open>Handler\<close> refines the server's loop.
  \<^item> \<open>QueuedSession\<close>: the work queue and all sessions together; the sessions' assumption that their
    callers take turns is discharged by the queue's mutex. \<open>Wiring\<close>: the bridge, the event bus and
    the queue with its sessions as one system, whose steps are MQTT messages, calls of the bridge,
    readings and the queue's work, in any order; a message or a reading is handled exactly once.
  \<^item> This theory: the two ways across the wired system, from an MQTT message to the frame on the
    wire and from a response to the published texts.

  \<^bold>\<open>What is shown.\<close> For the protocol: which frames are accepted, that a fragmented response is
  reassembled exactly, and that responses and requests cannot be mixed up. For the data: decoding
  never throws on an accepted response and gives each field the meaning of its registers; setters
  and published texts fit together. For the state machines: invariants by rule induction or over
  event lists (sessions, queue, manager, helper client, bridge, polling), each with the operations
  whole, failures included. For the life cycles: nothing is left open when the process ends,
  however the parts fail, and a stop ends the run within a bound. Where the code does not do what
  it means to, a theorem says what it does instead: the fate of a call that a disconnect
  interrupts, of requests after disposal, of overlapping calls of \<open>run\<close> and \<open>stop\<close>, of the payload
  \<open>OFF\<close>, of a failing disconnect in the tools, of a signal during startup, and of the loops that
  go on when another loop has failed.

  \<^bold>\<open>Fuel and bounds.\<close> Loops over data are structural or have a measure. The loops that may run
  forever, polling, startup and reconnecting, take fuel and return \<open>None\<close> when it ends; a polling
  loop for which a stop is requested from tick \<open>N\<close> of its log on returns with fuel \<open>Suc N\<close>
  (\<open>polling_stops\<close>). Nothing else is bounded.

  \<^bold>\<open>Parameters.\<close> Code outside the repository is an argument: the helper process and the radio
  (\<open>helper_ops\<close>, or the events of the session), the MQTT library (the outcome of each call), the
  clock and the order in which promises settle (\<open>surroundings\<close>), files (\<open>file_content\<close>). They are
  unrestricted unless a statement says otherwise. \<open>JSON.parse\<close> and the UTF-8 decoding of payloads
  are taken as done: the model starts from the value and the text. Characters are those of
  Isabelle's \<open>char\<close>, the first 256 code points. What the loops of several addresses read and
  publish is modelled one by one (theory \<open>Handler\<close>; they share only the queue and the manager,
  whose theories allow any interleaving); their life cycles run together in theory \<open>Server\<close>, where
  an iteration publishes anything and ends in any way; \<open>poll_loop_refines_server_loop\<close> shows that
  every run of a loop is one of these.

  \<^bold>\<open>Not modelled.\<close> The C# helper under \<open>helper\<close> (another program, here a parameter), \<open>index.ts\<close>
  (re-exports), help texts, stack traces and the time stamps of log lines (arguments where they
  matter), and type declarations without code.
\<close>

section \<open>Properties that span components\<close>

subsection \<open>From MQTT to the wire\<close>

text \<open>
  C1: an MQTT command ends as one write of the register it names, in its turn: a message the
  bridge dispatches becomes exactly one job of its device's work queue, and when that job comes to
  its turn on a ready session, whatever happened in between, all earlier work of the device has
  ended and the session writes one frame, the MODBUS write of one writable register of the field
  in the topic, with the value whose published text is the payload (or the number in it); the
  only answer with which the job can succeed is the device's echo of that very frame.
\<close>

theorem mqtt_command_to_wire:
  assumes "wiring_reachable w" and "handleIncomingCommand topic payload (wired_bridge w) = Dispatched dev c"
    and "(cid, l) \<in> set (message_handlers (wired_bridge w))"
    and "k = length (jobs (line_queue (wired_lines w)))"
    and "w1 = message_arrives cid topic payload w" and "wiring_run es w1 = Some w2"
    and "lines = wired_lines w2" and "begin_work k lines = Some lines'"
    and "map_of (line_current lines) (dev_address dev) = Some i" and "isReady (sess (session_world lines i))"
  shows "length (jobs (line_queue (wired_lines w1))) = Suc k \<and>
    (\<forall>j < k. address_of (line_queue lines) j = dev_address dev \<longrightarrow> phase_of (line_queue lines) j = Finished) \<and>
    (\<exists>f \<in> set (dev_struct dev). \<exists>n < 65536.
      COMMAND_TOPIC topic = Some (dev_type dev, dev_serialNumber dev, field_name f) \<and>
      isAddressWritable (field_address f) (writableRanges dev) \<and>
      (\<exists>v. field_parse f (register_bytes [n]) = Inr v \<and>
         (serializeValue v = js_trim payload \<or>
          INTEGER_PAYLOAD_PATTERN (js_trim payload) \<and> js_Number (js_trim payload) = Fin (of_nat n))) \<and>
      wire (session_world lines' i) = wire (session_world lines i) @
        [appendModbusCrc [1, 6, hi_byte (field_address f), lo_byte (field_address f), hi_byte n, lo_byte n]] \<and>
      (\<forall>r. isValidResponse (line_commands lines ! k) r \<longleftrightarrow>
         r = appendModbusCrc [1, 6, hi_byte (field_address f), lo_byte (field_address f), hi_byte n, lo_byte n]))"
proof -
  note inv = wiring_reachable_inv [OF assms(1)]
  have w1: "w1 = w\<lparr>wired_lines := submit (dev_address dev) c (wired_lines w)\<rparr>"
    using assms(3,5) inv assms(2) by (force simp: message_arrives_once message_delivered_cases image_iff)
  have inv1: "wiring_inv w1"
    using wiring_step_inv [OF inv, of "MqttMessage cid topic payload" w1] assms(5) by simp
  have job: "length (jobs (line_queue (wired_lines w1))) = Suc k" "address_of (line_queue (wired_lines w1)) k = dev_address dev"
      "line_commands (wired_lines w1) ! k = c" "length (line_commands (wired_lines w1)) = Suc k"
    using inv lines_reachable_inv assms(4) by (simp_all add: w1 submit_def lines_inv_def wiring_inv_def nth_append)
  have "lines_reachable lines"
    using assms(7) wiring_run_inv [OF assms(6) inv1] by (simp add: wiring_inv_def)
  note lines = this lines_reachable_inv [OF this]
  have ext: "address_of (line_queue lines) k = dev_address dev" "line_commands lines ! k = c"
    using wiring_run_extends [OF assms(6) inv1] job assms(7) by (auto simp: extends_def nth_append)
  have "phase_of (line_queue lines) j = Finished"
    if "j < k" "address_of (line_queue lines) j = dev_address dev" for j
    using begin_work_in_order [OF lines(1) assms(8) that(1)] that(2) ext(1) by simp
  moreover have "bridge_reachable any_order (wired_bus w) (wired_bridge w)"
    using inv serial_is_allowed by (simp add: wiring_inv_def)
  then obtain f n where f: "f \<in> set (dev_struct dev)" "n < 65536"
      "COMMAND_TOPIC topic = Some (dev_type dev, dev_serialNumber dev, field_name f)"
      "isAddressWritable (field_address f) (writableRanges dev)"
      "c = WriteSingleRegister (field_address f) n (write_frame (field_address f) n)"
    and v: "\<exists>v. field_parse f (register_bytes [n]) = Inr v \<and>
       (serializeValue v = js_trim payload \<or>
        INTEGER_PAYLOAD_PATTERN (js_trim payload) \<and> js_Number (js_trim payload) = Fin (of_nat n))"
    using dispatched_write [OF _ assms(2)] by blast
  ultimately show ?thesis
    using begin_work_wire [OF lines(1) assms(8)] assms(9,10) ext f v job(1) write_single_valid_iff
    by (intro conjI bexI [of _ f] exI [of _ n]) (simp_all add: toBytes_def write_frame_def)
qed

theorem mqtt_command_to_wire_witness:
  "\<exists>w lines'. wiring_reachable w \<and>
     begin_work 0 (wired_lines (message_arrives 0 ''bluetti/command/EB3A-2237/led_mode'' '' SOS'' w)) = Some lines' \<and>
     (\<exists>f n. wire (session_world lines' 0) =
        [appendModbusCrc [1, 6, hi_byte (field_address f), lo_byte (field_address f), hi_byte n, lo_byte n]])"
proof -
  let ?c = "WriteSingleRegister 3034 3 (write_frame 3034 3)" and ?t = "''bluetti/command/EB3A-2237/led_mode''"
  let ?base = "open_line (dev_address sample_device) new_device_lines"
  let ?l = "submit (dev_address sample_device) ?c ?base"
  have "lines_reachable ?base"
    using lines_reachable.step [OF lines_reachable.start, of "OpenLine (dev_address sample_device)"] by simp
  then obtain w where reach: "wiring_reachable w" and w: "Bridge.devices (wired_bridge w) = Bridge.devices sample_bridge"
      "message_handlers (wired_bridge w) = [(0, 2)]" "running (wired_bus w) (wired_bridge w) 0" "wired_lines w = ?base"
    by (rule sample_wiring)
  note dispatched = sample_message [OF w(1)]
  have lines: "wired_lines (message_arrives 0 ?t '' SOS'' w) = ?l"
    using wiring_reachable_inv [OF reach] w(2,4) dispatched by (simp add: message_arrives_once message_delivered_cases)
  have address: "dev_address sample_device = ''24:4C''" by (simp add: sample_device_def new_BluettiDeviceModel_def)
  have eval: "begin_work 0 ?l \<noteq> None" "map_of (line_current ?l) (dev_address sample_device) = Some 0"
      "jobs (line_queue ?base) = []" "session_world ?l 0 = ready_world"
    by (simp_all add: address begin_work_def submit_def open_line_def new_device_lines_def new_DeviceWorkQueue_def enqueue_def
        start_job_def phase_of_def address_of_def set_phase_def set_world_def session_world_def Let_def)
  then obtain lines' where l': "begin_work 0 ?l = Some lines'" by blast
  have ready: "isReady (sess (session_world ?l 0))" "wire (session_world ?l 0) = []"
    unfolding eval(4) by (simp_all add: ready_world_def isReady_def)
  have handler: "(0, 2) \<in> set (message_handlers (wired_bridge w))" by (simp add: w(2))
  have k: "0 = length (jobs (line_queue (wired_lines w)))" by (simp add: w(4) eval(3))
  have run: "wiring_run [] (message_arrives 0 ?t '' SOS'' w) = Some (message_arrives 0 ?t '' SOS'' w)" by simp
  have "\<exists>f n. wire (session_world lines' 0) = wire (session_world ?l 0) @
      [appendModbusCrc [1, 6, hi_byte (field_address f), lo_byte (field_address f), hi_byte n, lo_byte n]]"
    using mqtt_command_to_wire [OF reach dispatched handler k refl run lines [symmetric] l' eval(2) ready(1)] by blast
  then show ?thesis using reach l' lines ready(2) by (intro exI [of _ w] exI [of _ lines']) simp
qed

subsection \<open>From the wire to MQTT\<close>

lemma no_raw_fields:
  "list_all (\<lambda>d. list_all (\<lambda>f. field_name f \<noteq> RAW_SNAPSHOT_SUFFIX) (def_buildStruct d)) BLUETTI_DEFINITIONS"
  by (simp add: definition_defs struct_defs struct_builder_defs RAW_SNAPSHOT_SUFFIX_def)

lemma telemetry_of_field:
  "name \<noteq> RAW_SNAPSHOT_SUFFIX \<Longrightarrow>
   map_of (telemetry_messages dev parsed) (state_topic dev name) = map_option serializeValue (map_of parsed name)"
  unfolding telemetry_messages_def by (induction parsed) (auto simp: state_topic_def map_add_def split: option.split)



end
